(* ===== verification/Prelude.thy ===== *)
theory Prelude
  imports Main "HOL-Library.Word" "HOL-Library.List_Lexorder" "HOL-Library.Product_Lexorder"
begin

section \<open>Shared vocabulary: text, errors, loops, dictionaries, interfaces\<close>

text \<open>
  What every component of the review tools shares: Python text as a list of code points and
  bytes as 8-bit words, exceptions as values of a sum type with \<open>require\<close> and the sequencing
  \<open>rbind\<close>, loops that may raise (\<open>fold_res\<close>, \<open>map_res\<close>), insertion-ordered dictionaries as
  association lists, and the interfaces the components meet through: \<open>collector\<close> (a loop that files
  items under keys), \<open>codec\<close> (an encoder with a decoder that reads it back) and \<open>sided_diff\<close> (a
  classified difference of two keyed sides).
\<close>

named_theorems res_simps \<open>inversion of computations that may raise\<close>

subsection \<open>Text and bytes\<close>

type_synonym ustr = "nat list"
type_synonym byte = "8 word"
type_synonym bytes = "byte list"

definition u :: "string \<Rightarrow> ustr" where
  "u s = map of_char s"

definition bs :: "string \<Rightarrow> bytes" where
  "bs s = map of_char s"

lemma u_eq_iff [simp]: "u s = u t \<longleftrightarrow> s = t"
  by (simp add: u_def inj_map_eq_map inj_def)

lemma u_Nil [simp]: "u [] = []"
  by (simp add: u_def)

lemma u_eq_Nil [simp]: "u s = [] \<longleftrightarrow> s = []" "[] = u s \<longleftrightarrow> s = []"
  by (auto simp: u_def)

lemma length_u [simp]: "length (u s) = length s"
  by (simp add: u_def)

subsection \<open>Exceptions\<close>

text \<open>
  The exception classes the tools raise or let through. \<open>ValueError\<close> carries the text the
  source gives to \<open>require\<close> or \<open>raise\<close>; the others come from the runtime. The first five are
  subclasses of Python's \<open>ValueError\<close>.
\<close>

datatype pyerr =
    ValueError ustr
  | JSONDecodeError
  | UnicodeError
  | IntDigitsError
  | Base64Error
  | TypeError
  | KeyError
  | IndexError
  | OSError
  | BadZipFile
  | NotImplementedError
  | RecursionError
  | ExpatError
  | SqliteError
  | StopIteration
  | OutOfFuel

type_synonym 'a res = "pyerr + 'a"

fun is_value_error :: "pyerr \<Rightarrow> bool" where
  "is_value_error (ValueError m) = True"
| "is_value_error JSONDecodeError = True"
| "is_value_error UnicodeError = True"
| "is_value_error IntDigitsError = True"
| "is_value_error Base64Error = True"
| "is_value_error _ = False"

definition rbind :: "'a res \<Rightarrow> ('a \<Rightarrow> 'b res) \<Rightarrow> 'b res" where
  "rbind m f = (case m of Inl e \<Rightarrow> Inl e | Inr x \<Rightarrow> f x)"

definition require :: "bool \<Rightarrow> ustr \<Rightarrow> unit res" where
  "require ok message = (if ok then Inr () else Inl (ValueError message))"

text \<open>\<open>guard c m k\<close> is the statement \<open>require(c, m)\<close> followed by the rest of the function.\<close>

definition guard :: "bool \<Rightarrow> ustr \<Rightarrow> 'a res \<Rightarrow> 'a res" where
  "guard c m k = rbind (require c m) (\<lambda>_. k)"

lemma rbind_simps [simp]: "rbind (Inl e) f = Inl e" "rbind (Inr x) f = f x"
  by (simp_all add: rbind_def)

lemma guard_simps [simp]: "guard True m k = k" "guard False m k = Inl (ValueError m)"
  by (simp_all add: guard_def require_def)

lemma require_eq_Inr [res_simps]: "require c m = Inr x \<longleftrightarrow> c"
  by (simp add: require_def)

lemma rbind_eq_Inr [res_simps]: "rbind m f = Inr y \<longleftrightarrow> (\<exists>x. m = Inr x \<and> f x = Inr y)"
  by (cases m) auto

lemma guard_eq_Inr [res_simps]: "guard c m k = Inr y \<longleftrightarrow> c \<and> k = Inr y"
  by (cases c) auto

lemma guard_eq_Inl [res_simps]:
  "guard c m k = Inl e \<longleftrightarrow> (c \<and> k = Inl e) \<or> (\<not> c \<and> e = ValueError m)"
  by (cases c) auto

lemma rbind_eq_Inl [res_simps]:
  "rbind m f = Inl e \<longleftrightarrow> m = Inl e \<or> (\<exists>x. m = Inr x \<and> f x = Inl e)"
  by (cases m) auto

lemma rbind_assoc: "rbind (rbind m f) g = rbind m (\<lambda>x. rbind (f x) g)"
  by (cases m) auto

lemma rbind_cong [fundef_cong]:
  "m = m' \<Longrightarrow> (\<And>x. m' = Inr x \<Longrightarrow> f x = g x) \<Longrightarrow> rbind m f = rbind m' g"
  by (cases m') auto

lemma guard_cong [fundef_cong]:
  "c = c' \<Longrightarrow> m = m' \<Longrightarrow> (c' \<Longrightarrow> k = k') \<Longrightarrow> guard c m k = guard c' m' k'"
  by (cases c') auto

lemma Inr_res_split:
  "(case r of Inl e \<Rightarrow> P e | Inr x \<Rightarrow> Q x) \<longleftrightarrow> (\<forall>e. r = Inl e \<longrightarrow> P e) \<and> (\<forall>x. r = Inr x \<longrightarrow> Q x)"
  by (cases r) auto

text \<open>A runtime value that may be absent, as the exception the source would raise.\<close>

definition or_raise :: "pyerr \<Rightarrow> 'a option \<Rightarrow> 'a res" where
  "or_raise e v = (case v of None \<Rightarrow> Inl e | Some x \<Rightarrow> Inr x)"

lemma or_raise_simps [simp]: "or_raise e None = Inl e" "or_raise e (Some x) = Inr x"
  by (simp_all add: or_raise_def)

lemma or_raise_eq_Inr [res_simps]: "or_raise e v = Inr x \<longleftrightarrow> v = Some x"
  by (cases v) auto

lemma or_raise_eq_Inl [res_simps]: "or_raise e v = Inl e' \<longleftrightarrow> v = None \<and> e' = e"
  by (cases v) auto

subsection \<open>Loops that may raise\<close>

fun fold_res :: "('s \<Rightarrow> 'a \<Rightarrow> 's res) \<Rightarrow> 's \<Rightarrow> 'a list \<Rightarrow> 's res" where
  "fold_res f s [] = Inr s"
| "fold_res f s (x # xs) = rbind (f s x) (\<lambda>s'. fold_res f s' xs)"

fun map_res :: "('a \<Rightarrow> 'b res) \<Rightarrow> 'a list \<Rightarrow> 'b list res" where
  "map_res f [] = Inr []"
| "map_res f (x # xs) = rbind (f x) (\<lambda>y. rbind (map_res f xs) (\<lambda>ys. Inr (y # ys)))"

lemma fold_res_append:
  "fold_res f s (xs @ ys) = rbind (fold_res f s xs) (\<lambda>s'. fold_res f s' ys)"
  by (induction xs arbitrary: s) (simp_all add: rbind_assoc)

text \<open>The loop rule: an invariant over the elements already consumed.\<close>

lemma fold_res_inv:
  assumes run: "fold_res f s xs = Inr t"
    and start: "P [] s"
    and step: "\<And>done s x s'. P done s \<Longrightarrow> x \<in> set xs \<Longrightarrow> f s x = Inr s' \<Longrightarrow> P (done @ [x]) s'"
  shows "P xs t"
proof -
  have "P (done @ ys) t" if "fold_res f s ys = Inr t" "P done s" "set ys \<subseteq> set xs" for "done" s ys
    using that
  proof (induction ys arbitrary: "done" s)
    case Nil
    then show ?case by simp
  next
    case (Cons y ys)
    from Cons.prems obtain s' where "f s y = Inr s'" and rest: "fold_res f s' ys = Inr t"
      by (auto simp: res_simps)
    with step Cons.prems have "P (done @ [y]) s'" by simp
    from Cons.IH [OF rest this] Cons.prems show ?case by simp
  qed
  from this [OF run start] show ?thesis by simp
qed

lemma fold_res_keeps:
  assumes "fold_res f s xs = Inr t" "Q s"
    and "\<And>s x s'. Q s \<Longrightarrow> x \<in> set xs \<Longrightarrow> f s x = Inr s' \<Longrightarrow> Q s'"
  shows "Q t"
  using assms(1) by (rule fold_res_inv [where P = "\<lambda>_. Q"]) (use assms in auto)

lemma map_res_eq_Inr:
  "map_res f xs = Inr ys \<longleftrightarrow> list_all2 (\<lambda>x y. f x = Inr y) xs ys"
proof (induction xs arbitrary: ys)
  case Nil
  then show ?case by (cases ys) auto
next
  case (Cons x xs)
  then show ?case by (cases ys) (auto simp: res_simps)
qed

lemma map_res_length: "map_res f xs = Inr ys \<Longrightarrow> length ys = length xs"
  by (auto simp: map_res_eq_Inr dest: list_all2_lengthD)

lemma map_res_member: "map_res f xs = Inr ys \<Longrightarrow> y \<in> set ys \<Longrightarrow> \<exists>x \<in> set xs. f x = Inr y"
  by (auto simp: map_res_eq_Inr list_all2_conv_all_nth in_set_conv_nth) (metis nth_mem)

lemma map_res_Inr [simp]: "map_res (\<lambda>x. Inr (f x)) xs = Inr (map f xs)"
  by (induction xs) simp_all

lemma map_res_total: "(\<And>x. x \<in> set xs \<Longrightarrow> f x = Inr (g x)) \<Longrightarrow> map_res f xs = Inr (map g xs)"
  by (induction xs) simp_all

lemma map_res_cong [fundef_cong]:
  "xs = ys \<Longrightarrow> (\<And>x. x \<in> set ys \<Longrightarrow> f x = g x) \<Longrightarrow> map_res f xs = map_res g ys"
  by (induction xs arbitrary: ys) auto

subsection \<open>Which exceptions a computation can raise\<close>

definition raises_only :: "(pyerr \<Rightarrow> bool) \<Rightarrow> 'a res \<Rightarrow> bool" where
  "raises_only P m = (case m of Inl e \<Rightarrow> P e | Inr x \<Rightarrow> True)"

named_theorems raises \<open>composition of computations by what they raise\<close>

lemma raises_only_simps [simp]: "raises_only P (Inl e) = P e" "raises_only P (Inr x)"
  by (simp_all add: raises_only_def)

lemma raises_onlyD: "raises_only P m \<Longrightarrow> m = Inl e \<Longrightarrow> P e"
  by simp

lemma raises_only_weaken: "raises_only P m \<Longrightarrow> (\<And>e. P e \<Longrightarrow> Q e) \<Longrightarrow> raises_only Q m"
  by (cases m) auto

lemma raises_rbind [raises]:
  "raises_only P m \<Longrightarrow> (\<And>x. m = Inr x \<Longrightarrow> raises_only P (f x)) \<Longrightarrow> raises_only P (rbind m f)"
  by (cases m) auto

lemma raises_guard [raises]:
  "P (ValueError m) \<Longrightarrow> (c \<Longrightarrow> raises_only P k) \<Longrightarrow> raises_only P (guard c m k)"
  by (cases c) auto

lemma raises_or_raise [raises]: "P e \<Longrightarrow> raises_only P (or_raise e v)"
  by (cases v) auto

lemma raises_if [raises]:
  "(c \<Longrightarrow> raises_only P a) \<Longrightarrow> (\<not> c \<Longrightarrow> raises_only P b) \<Longrightarrow> raises_only P (if c then a else b)"
  by simp

lemma raises_option [raises]:
  "raises_only P a \<Longrightarrow> (\<And>x. v = Some x \<Longrightarrow> raises_only P (f x)) \<Longrightarrow> raises_only P (case v of None \<Rightarrow> a | Some x \<Rightarrow> f x)"
  by (cases v) auto

lemma raises_prod [raises]:
  "(\<And>a b. p = (a, b) \<Longrightarrow> raises_only P (f a b)) \<Longrightarrow> raises_only P (case p of (a, b) \<Rightarrow> f a b)"
  by (cases p) auto

lemma raises_let [raises]: "(\<And>x. x = v \<Longrightarrow> raises_only P (f x)) \<Longrightarrow> raises_only P (let x = v in f x)"
  by (simp add: Let_def)

lemma raises_fold_res [raises]:
  "(\<And>s x. x \<in> set xs \<Longrightarrow> raises_only P (f s x)) \<Longrightarrow> raises_only P (fold_res f s xs)"
  by (induction xs arbitrary: s) (auto intro!: raises_rbind)

lemma raises_map_res [raises]:
  "(\<And>x. x \<in> set xs \<Longrightarrow> raises_only P (f x)) \<Longrightarrow> raises_only P (map_res f xs)"
  by (induction xs) (auto intro!: raises_rbind)

text \<open>What holds of whatever a computation returns.\<close>

definition yields :: "('a \<Rightarrow> bool) \<Rightarrow> 'a res \<Rightarrow> bool" where
  "yields Q m = (case m of Inl e \<Rightarrow> True | Inr x \<Rightarrow> Q x)"

lemma yields_simps [simp]: "yields Q (Inl e)" "yields Q (Inr x) = Q x"
  by (simp_all add: yields_def)

lemma yieldsD: "yields Q m \<Longrightarrow> m = Inr x \<Longrightarrow> Q x"
  by simp

lemma yields_rbind: "(\<And>x. m = Inr x \<Longrightarrow> yields Q (f x)) \<Longrightarrow> yields Q (rbind m f)"
  by (cases m) auto

lemma yields_guard: "(c \<Longrightarrow> yields Q k) \<Longrightarrow> yields Q (guard c m k)"
  by (cases c) auto

lemma yields_prod: "(\<And>a b. p = (a, b) \<Longrightarrow> yields Q (f a b)) \<Longrightarrow> yields Q (case p of (a, b) \<Rightarrow> f a b)"
  by (cases p) auto

lemma yields_if: "(c \<Longrightarrow> yields Q a) \<Longrightarrow> (\<not> c \<Longrightarrow> yields Q b) \<Longrightarrow> yields Q (if c then a else b)"
  by simp

lemma yields_option:
  "yields Q a \<Longrightarrow> (\<And>x. v = Some x \<Longrightarrow> yields Q (f x)) \<Longrightarrow> yields Q (case v of None \<Rightarrow> a | Some x \<Rightarrow> f x)"
  by (cases v) auto

lemmas yields_intros = yields_rbind yields_guard yields_prod yields_if yields_option

subsection \<open>Dictionaries\<close>

text \<open>
  A Python dictionary keeps its keys in insertion order and replaces a value in place.
  \<open>dget\<close> is \<open>d.get(k)\<close>, \<open>dput\<close> is \<open>d[k] = v\<close>, \<open>dkeys\<close> the keys in order, \<open>dappend\<close> is
  \<open>d.setdefault(k, []).append(v)\<close>.
\<close>

type_synonym ('k, 'v) dict = "('k \<times> 'v) list"

abbreviation dget :: "('k, 'v) dict \<Rightarrow> 'k \<Rightarrow> 'v option" where
  "dget \<equiv> map_of"

definition dkeys :: "('k, 'v) dict \<Rightarrow> 'k list" where
  "dkeys d = map fst d"

fun dput :: "'k \<Rightarrow> 'v \<Rightarrow> ('k, 'v) dict \<Rightarrow> ('k, 'v) dict" where
  "dput k v [] = [(k, v)]"
| "dput k v ((k', v') # d) = (if k = k' then (k, v) # d else (k', v') # dput k v d)"

definition dict_ok :: "('k, 'v) dict \<Rightarrow> bool" where
  "dict_ok d = distinct (dkeys d)"

definition dhas :: "('k, 'v) dict \<Rightarrow> 'k \<Rightarrow> bool" where
  "dhas d k = (k \<in> set (dkeys d))"

definition dappend :: "'k \<Rightarrow> 'v \<Rightarrow> ('k, 'v list) dict \<Rightarrow> ('k, 'v list) dict" where
  "dappend k v d = dput k ((case dget d k of None \<Rightarrow> [] | Some vs \<Rightarrow> vs) @ [v]) d"

lemma dkeys_simps [simp]: "dkeys [] = []" "dkeys ((k, v) # d) = k # dkeys d"
  by (simp_all add: dkeys_def)

lemma dget_dput: "dget (dput k v d) k' = (if k' = k then Some v else dget d k')"
  by (induction d) auto

lemma dkeys_dput: "dkeys (dput k v d) = (if k \<in> set (dkeys d) then dkeys d else dkeys d @ [k])"
  by (induction d) auto

lemma dict_ok_Nil [simp]: "dict_ok []"
  by (simp add: dict_ok_def)

lemma dict_ok_dput [intro]: "dict_ok d \<Longrightarrow> dict_ok (dput k v d)"
  by (simp add: dict_ok_def dkeys_dput)

lemma dget_None_iff: "dget d k = None \<longleftrightarrow> k \<notin> set (dkeys d)"
  by (simp add: dkeys_def map_of_eq_None_iff)

lemma dget_Some_key: "dget d k = Some v \<Longrightarrow> k \<in> set (dkeys d)"
  using dget_None_iff [of d k] by auto

lemma dhas_iff: "dhas d k \<longleftrightarrow> (\<exists>v. dget d k = Some v)"
  using dget_None_iff [of d k] by (auto simp: dhas_def)

lemma dput_fresh: "\<not> dhas d k \<Longrightarrow> dput k v d = d @ [(k, v)]"
  by (induction d) (auto simp: dhas_def)

lemma dict_ok_mem_iff: "dict_ok d \<Longrightarrow> (k, v) \<in> set d \<longleftrightarrow> dget d k = Some v"
  by (auto simp: dict_ok_def dkeys_def dest: map_of_SomeD)

subsection \<open>Counting and grouping\<close>

text \<open>
  \<open>tally\<close> is the loop \<open>counts[s] = counts.get(s, 0) + 1\<close>; \<open>sorted_union\<close> is
  \<open>sorted(set(xs) | set(ys))\<close>.
\<close>

definition bump :: "'k \<Rightarrow> ('k, nat) dict \<Rightarrow> ('k, nat) dict" where
  "bump k d = dput k ((case dget d k of None \<Rightarrow> 0 | Some n \<Rightarrow> n) + 1) d"

definition tally :: "'k list \<Rightarrow> ('k, nat) dict" where
  "tally ks = foldl (\<lambda>d k. bump k d) [] ks"

definition sorted_union :: "'k::linorder list \<Rightarrow> 'k list \<Rightarrow> 'k list" where
  "sorted_union xs ys = sort (remdups (xs @ ys))"

lemma set_sorted_union [simp]: "set (sorted_union xs ys) = set xs \<union> set ys"
  by (simp add: sorted_union_def)

lemma sorted_sorted_union [simp]: "sorted (sorted_union xs ys)"
  by (simp add: sorted_union_def)

lemma distinct_sorted_union [simp]: "distinct (sorted_union xs ys)"
  by (simp add: sorted_union_def)

lemma sorted_union_commute: "sorted_union xs ys = sorted_union ys xs"
  by (rule sorted_distinct_set_unique) auto

lemma length_sorted_union: "length (sorted_union xs ys) = card (set xs \<union> set ys)"
  by (metis distinct_card distinct_sorted_union set_sorted_union)

lemma tally_gen:
  "dget (foldl (\<lambda>d k. bump k d) d ks) k =
     (if k \<in> set ks then Some ((case dget d k of None \<Rightarrow> 0 | Some n \<Rightarrow> n) + count_list ks k)
      else dget d k)"
  by (induction ks arbitrary: d) (auto simp: bump_def dget_dput split: option.splits)

lemma dget_tally: "dget (tally ks) k = (if k \<in> set ks then Some (count_list ks k) else None)"
  by (simp add: tally_def tally_gen)

definition dsum :: "('k, nat) dict \<Rightarrow> nat" where
  "dsum d = sum_list (map snd d)"

lemma dsum_dput:
  "dsum (dput k v d) + (case dget d k of None \<Rightarrow> 0 | Some n \<Rightarrow> n) = dsum d + v"
  by (induction d) (auto simp: dsum_def)

lemma dsum_bump [simp]: "dsum (bump k d) = dsum d + 1"
  using dsum_dput [of k "(case dget d k of None \<Rightarrow> 0 | Some n \<Rightarrow> n) + 1" d]
  by (simp add: bump_def split: option.splits)

lemma dsum_tally: "dsum (tally ks) = length ks"
proof -
  have "dsum (foldl (\<lambda>d k. bump k d) d ks) = dsum d + length ks" for d
    by (induction ks arbitrary: d) auto
  then show ?thesis by (simp add: tally_def dsum_def)
qed

lemma dget_dappend:
  "dget (dappend k v d) k' =
     (if k' = k then Some ((case dget d k of None \<Rightarrow> [] | Some vs \<Rightarrow> vs) @ [v]) else dget d k')"
  by (simp add: dappend_def dget_dput)

lemma dkeys_dappend:
  "dkeys (dappend k v d) = (if k \<in> set (dkeys d) then dkeys d else dkeys d @ [k])"
  by (simp add: dappend_def dkeys_dput)

lemma dict_ok_dappend [intro]: "dict_ok d \<Longrightarrow> dict_ok (dappend k v d)"
  by (simp add: dappend_def dict_ok_dput)

definition dmembers :: "('k, 'v list) dict \<Rightarrow> 'k \<Rightarrow> 'v list" where
  "dmembers d k = (case dget d k of None \<Rightarrow> [] | Some vs \<Rightarrow> vs)"

lemma dmembers_dappend:
  "dmembers (dappend k v d) k' = dmembers d k' @ (if k' = k then [v] else [])"
  by (auto simp: dmembers_def dget_dappend split: option.splits)

lemma dmembers_Nil [simp]: "dmembers [] k = []"
  by (simp add: dmembers_def)

subsection \<open>Interfaces\<close>

text \<open>
  A collector: a loop that files each item under its key. The law says what one step does to
  the members of every key; the client lemma says what a whole run leaves under a key, in order.
\<close>

locale collector =
  fixes step :: "'d \<Rightarrow> 'a \<Rightarrow> 'd res"
    and members :: "'d \<Rightarrow> 'k \<Rightarrow> 'v list"
    and key :: "'a \<Rightarrow> 'k"
    and val :: "'a \<Rightarrow> 'v"
  assumes step_members:
    "step d x = Inr d' \<Longrightarrow> members d' k = members d k @ (if k = key x then [val x] else [])"
begin

lemma run_members:
  assumes "fold_res step d xs = Inr d'"
  shows "members d' k = members d k @ map val (filter (\<lambda>x. k = key x) xs)"
  using assms
proof (induction xs arbitrary: d)
  case Nil
  then show ?case by simp
next
  case (Cons x xs)
  then obtain d1 where "step d x = Inr d1" and "fold_res step d1 xs = Inr d'"
    by (auto simp: res_simps)
  with Cons.IH [of d1] step_members [of d x d1 k] show ?case by simp
qed

lemma run_covers:
  assumes "fold_res step d xs = Inr d'" and "x \<in> set xs"
  shows "val x \<in> set (members d' (key x))"
  using run_members [OF assms(1), of "key x"] assms(2) by auto

lemma run_only:
  assumes "fold_res step d xs = Inr d'" and "\<And>k. members d k = []" and "v \<in> set (members d' k)"
  shows "\<exists>x \<in> set xs. key x = k \<and> val x = v"
  using run_members [OF assms(1), of k] assms(2,3) by auto

end

text \<open>
  A codec: an encoder and a decoder that reads back every valid value. Tokens made by the
  encoder are then equal exactly when the values are, which is what the tools rely on when they
  key a dictionary by an encoded value.
\<close>

locale codec =
  fixes enc :: "'a \<Rightarrow> 'b"
    and dec :: "'b \<Rightarrow> 'a res"
    and valid :: "'a \<Rightarrow> bool"
  assumes roundtrip: "valid x \<Longrightarrow> dec (enc x) = Inr x"
begin

lemma enc_eq_iff: "valid x \<Longrightarrow> valid y \<Longrightarrow> enc x = enc y \<longleftrightarrow> x = y"
  by (metis roundtrip sum.inject(2))

lemma enc_inj_on: "inj_on enc {x. valid x}"
  by (auto simp: inj_on_def enc_eq_iff)

lemma dec_all: "list_all valid xs \<Longrightarrow> map_res dec (map enc xs) = Inr xs"
  by (induction xs) (auto simp: roundtrip)

lemma distinct_tokens: "list_all valid xs \<Longrightarrow> distinct (map enc xs) \<longleftrightarrow> distinct xs"
  by (induction xs) (auto simp: enc_eq_iff list_all_iff image_iff)

end

text \<open>
  A two-sided difference: every key of either side is classified once, in sorted order, from
  what each side holds under it.
\<close>

locale sided_diff =
  fixes diff :: "('k::linorder, 'v) dict \<Rightarrow> ('k, 'v) dict \<Rightarrow> ('k \<times> 'st) list"
    and classify :: "'v option \<Rightarrow> 'v option \<Rightarrow> 'st"
  assumes diff_eq: "diff before after =
    map (\<lambda>k. (k, classify (dget before k) (dget after k))) (sorted_union (dkeys before) (dkeys after))"
begin

lemma diff_keys: "map fst (diff before after) = sorted_union (dkeys before) (dkeys after)"
  by (simp add: diff_eq comp_def)

lemma diff_keys_set: "fst ` set (diff before after) = set (dkeys before) \<union> set (dkeys after)"
  by (force simp: diff_eq)

lemma diff_distinct: "distinct (map fst (diff before after))"
  by (simp add: diff_keys)

lemma diff_sorted: "sorted (map fst (diff before after))"
  by (simp add: diff_keys)

lemma diff_status:
  "(k, s) \<in> set (diff before after) \<longleftrightarrow>
     k \<in> set (dkeys before) \<union> set (dkeys after) \<and> s = classify (dget before k) (dget after k)"
  by (auto simp: diff_eq)

lemma diff_length: "length (diff before after) = card (set (dkeys before) \<union> set (dkeys after))"
  by (simp add: diff_eq length_sorted_union)

lemma diff_tally:
  "dsum (tally (map snd (diff before after))) = card (set (dkeys before) \<union> set (dkeys after))"
  by (simp add: dsum_tally diff_length)

lemma diff_self:
  "(k, s) \<in> set (diff d d) \<Longrightarrow> \<exists>v. dget d k = Some v \<and> s = classify (Some v) (Some v)"
  using dget_None_iff [of d k] by (auto simp: diff_status)

lemma diff_swap:
  assumes mirror: "\<And>v w. v \<noteq> None \<or> w \<noteq> None \<Longrightarrow> classify w v = mirror (classify v w)"
  shows "diff after before = map (\<lambda>(k, s). (k, mirror s)) (diff before after)"
proof -
  have "classify (dget after k) (dget before k) = mirror (classify (dget before k) (dget after k))"
    if "k \<in> set (dkeys before) \<union> set (dkeys after)" for k
    using that dget_None_iff [of before k] dget_None_iff [of after k] by (intro mirror) auto
  then show ?thesis
    by (simp add: diff_eq sorted_union_commute [of "dkeys after"])
qed

end

end
