(* ===== verification/PyText.thy ===== *)
theory PyText
  imports Prelude
begin

section \<open>Python text operations and UTF-8\<close>

text \<open>
  The operations of \<open>str\<close> and \<open>bytes\<close> the tools use: prefix tests, \<open>split\<close>, \<open>join\<close>,
  \<open>replace\<close>, \<open>partition\<close>, \<open>strip\<close>, the regular expressions of \<open>re.fullmatch\<close> as boolean
  functions, decimal integers in both directions, ASCII case folding, and strict UTF-8.
  Text is a list of code points, so lengths and comparisons are those of Python's \<open>str\<close>.
\<close>

subsection \<open>Searching and splitting\<close>

fun starts_with :: "'a list \<Rightarrow> 'a list \<Rightarrow> bool" where
  "starts_with s [] = True"
| "starts_with [] (p # ps) = False"
| "starts_with (x # s) (p # ps) = (x = p \<and> starts_with s ps)"

lemma starts_with_iff: "starts_with s p \<longleftrightarrow> (\<exists>r. s = p @ r)"
  by (induction s p rule: starts_with.induct) auto

definition ends_with :: "'a list \<Rightarrow> 'a list \<Rightarrow> bool" where
  "ends_with s p = starts_with (rev s) (rev p)"

text \<open>\<open>s.split(c)\<close> for a one-character separator: never empty.\<close>

fun split_on :: "'a \<Rightarrow> 'a list \<Rightarrow> 'a list list" where
  "split_on c [] = [[]]"
| "split_on c (x # s) =
     (if x = c then [] # split_on c s
      else case split_on c s of [] \<Rightarrow> [[x]] | p # ps \<Rightarrow> (x # p) # ps)"

fun join :: "'a list \<Rightarrow> 'a list list \<Rightarrow> 'a list" where
  "join sep [] = []"
| "join sep [p] = p"
| "join sep (p # q # ps) = p @ sep @ join sep (q # ps)"

lemma split_on_nonempty [simp]: "split_on c s \<noteq> []"
  by (induction s) (auto split: list.splits)

lemma join_split_on: "join [c] (split_on c s) = s"
proof (induction s)
  case Nil
  then show ?case by simp
next
  case (Cons x s)
  obtain p ps where "split_on c s = p # ps"
    by (cases "split_on c s") auto
  with Cons show ?case by (cases ps) auto
qed

lemma split_on_parts: "p \<in> set (split_on c s) \<Longrightarrow> c \<notin> set p"
proof (induction s arbitrary: p)
  case Nil
  then show ?case by simp
next
  case (Cons x s)
  obtain q qs where "split_on c s = q # qs"
    by (cases "split_on c s") auto
  with Cons show ?case by (auto split: if_splits)
qed

lemma split_on_append: "c \<notin> set p \<Longrightarrow> split_on c (p @ c # s) = p # split_on c s"
  by (induction p) auto

lemma split_on_free: "c \<notin> set p \<Longrightarrow> split_on c p = [p]"
  by (induction p) auto

lemma split_on_join:
  "ps \<noteq> [] \<Longrightarrow> (\<And>p. p \<in> set ps \<Longrightarrow> c \<notin> set p) \<Longrightarrow> split_on c (join [c] ps) = ps"
proof (induction "[c]" ps rule: join.induct)
  case (3 p q ps)
  then have "split_on c (join [c] (q # ps)) = q # ps" by simp
  with 3 show ?case by (simp add: split_on_append)
qed (auto simp: split_on_free)

text \<open>\<open>s.partition(c)\<close>: the part before the first \<open>c\<close>, whether it was found, the part after.\<close>

fun partition_on :: "'a \<Rightarrow> 'a list \<Rightarrow> 'a list \<times> bool \<times> 'a list" where
  "partition_on c [] = ([], False, [])"
| "partition_on c (x # s) =
     (if x = c then ([], True, s)
      else case partition_on c s of (h, f, t) \<Rightarrow> (x # h, f, t))"

lemma partition_on_found: "c \<notin> set h \<Longrightarrow> partition_on c (h @ c # t) = (h, True, t)"
  by (induction h) auto

lemma partition_on_missing: "c \<notin> set h \<Longrightarrow> partition_on c h = (h, False, [])"
  by (induction h) auto

text \<open>\<open>s.replace(c, r)\<close> for a one-character pattern.\<close>

definition replace1 :: "'a \<Rightarrow> 'a list \<Rightarrow> 'a list \<Rightarrow> 'a list" where
  "replace1 c r s = concat (map (\<lambda>x. if x = c then r else [x]) s)"

lemma replace1_simps [simp]:
  "replace1 c r [] = []"
  "replace1 c r (x # s) = (if x = c then r else [x]) @ replace1 c r s"
  by (simp_all add: replace1_def)

text \<open>\<open>s.replace('\r\n', r)\<close>, the only two-character pattern in use.\<close>

fun replace_crlf :: "ustr \<Rightarrow> ustr \<Rightarrow> ustr" where
  "replace_crlf r [] = []"
| "replace_crlf r [x] = [x]"
| "replace_crlf r (x # y # s) =
     (if x = 13 \<and> y = 10 then r @ replace_crlf r s else x # replace_crlf r (y # s))"

lemma replace_crlf_id: "13 \<notin> set s \<Longrightarrow> replace_crlf r s = s"
  by (induction r s rule: replace_crlf.induct) auto

subsection \<open>Stripping and folding\<close>

definition is_space :: "nat \<Rightarrow> bool" where
  "is_space c \<longleftrightarrow> (9 \<le> c \<and> c \<le> 13) \<or> (28 \<le> c \<and> c \<le> 32) \<or> c = 133 \<or> c = 160 \<or> c = 5760 \<or>
     (8192 \<le> c \<and> c \<le> 8202) \<or> c = 8232 \<or> c = 8233 \<or> c = 8239 \<or> c = 8287 \<or> c = 12288"

definition strip :: "ustr \<Rightarrow> ustr" where
  "strip s = rev (dropWhile is_space (rev (dropWhile is_space s)))"

lemma strip_eq_Nil: "strip s = [] \<longleftrightarrow> (\<forall>c \<in> set s. is_space c)"
proof
  assume "strip s = []"
  then have "\<forall>c \<in> set (dropWhile is_space s). is_space c"
    by (simp add: strip_def)
  then have "dropWhile is_space s = []"
    by (metis dropWhile_eq_Nil_conv hd_dropWhile list.set_sel(1))
  then show "\<forall>c \<in> set s. is_space c" by simp
qed (auto simp: strip_def dest: set_dropWhileD)

subsection \<open>Digits and decimal integers\<close>

definition is_digit :: "nat \<Rightarrow> bool" where
  "is_digit c \<longleftrightarrow> 48 \<le> c \<and> c \<le> 57"

definition is_hex_lower :: "nat \<Rightarrow> bool" where
  "is_hex_lower c \<longleftrightarrow> is_digit c \<or> (97 \<le> c \<and> c \<le> 102)"

text \<open>The regular expressions of the sources, each matched against the whole text.\<close>

definition re_digits :: "ustr \<Rightarrow> bool" where \<comment> \<open>\<open>[0-9]+\<close>\<close>
  "re_digits s \<longleftrightarrow> s \<noteq> [] \<and> list_all is_digit s"

definition re_natural :: "ustr \<Rightarrow> bool" where \<comment> \<open>\<open>0|[1-9][0-9]*\<close>\<close>
  "re_natural s \<longleftrightarrow> s = u ''0'' \<or> (re_digits s \<and> hd s \<noteq> 48)"

definition re_integer :: "ustr \<Rightarrow> bool" where \<comment> \<open>\<open>0|-?[1-9][0-9]*\<close>\<close>
  "re_integer s \<longleftrightarrow> s = u ''0'' \<or>
     (let t = (if starts_with s (u ''-'') then tl s else s) in re_digits t \<and> hd t \<noteq> 48)"

definition re_hex64 :: "ustr \<Rightarrow> bool" where \<comment> \<open>\<open>[0-9a-f]{64}\<close>\<close>
  "re_hex64 s \<longleftrightarrow> length s = 64 \<and> list_all is_hex_lower s"

definition digits_value :: "ustr \<Rightarrow> nat" where
  "digits_value s = foldl (\<lambda>n c. 10 * n + (c - 48)) 0 s"

text \<open>
  \<open>int(s)\<close> for a text of decimal digits with an optional minus sign; the runtime refuses more
  than 4300 digits with a \<open>ValueError\<close>.
\<close>

definition py_int :: "ustr \<Rightarrow> int res" where
  "py_int s =
     (let neg = starts_with s (u ''-''); t = (if neg then tl s else s)
      in if length t > 4300 then Inl IntDigitsError
         else Inr (if neg then - int (digits_value t) else int (digits_value t)))"

fun str_nat :: "nat \<Rightarrow> ustr" where
  "str_nat n = (if n < 10 then [48 + n] else str_nat (n div 10) @ [48 + n mod 10])"

declare str_nat.simps [simp del]

definition str_int :: "int \<Rightarrow> ustr" where
  "str_int i = (if i < 0 then 45 # str_nat (nat (- i)) else str_nat (nat i))"

lemma str_nat_digits: "list_all is_digit (str_nat n)"
proof (induction n rule: str_nat.induct)
  case (1 n)
  show ?case
  proof (cases "n < 10")
    case True
    then show ?thesis by (simp add: str_nat.simps [of n] is_digit_def)
  next
    case False
    moreover have "n mod 10 \<le> 9" by simp
    ultimately show ?thesis using 1 by (simp add: str_nat.simps [of n] is_digit_def)
  qed
qed

lemma str_nat_nonempty [simp]: "str_nat n \<noteq> []"
  by (simp add: str_nat.simps [of n])

lemma re_digits_str_nat [simp]: "re_digits (str_nat n)"
  by (simp add: re_digits_def str_nat_digits)

lemma str_nat_hd: "0 < n \<Longrightarrow> hd (str_nat n) \<noteq> 48"
proof (induction n rule: str_nat.induct)
  case (1 n)
  then show ?case by (cases "n < 10") (simp_all add: str_nat.simps [of n])
qed

lemma str_nat_0: "str_nat 0 = u ''0''"
  by (simp add: str_nat.simps u_def)

lemma re_natural_str_nat [simp]: "re_natural (str_nat n)"
  by (cases "n = 0") (auto simp: re_natural_def str_nat_0 str_nat_hd)

lemma digits_value_append: "digits_value (s @ [c]) = 10 * digits_value s + (c - 48)"
  by (simp add: digits_value_def)

lemma digits_value_str_nat [simp]: "digits_value (str_nat n) = n"
proof (induction n rule: str_nat.induct)
  case (1 n)
  show ?case
  proof (cases "n < 10")
    case True
    then show ?thesis by (simp add: str_nat.simps [of n] digits_value_def)
  next
    case False
    with 1 have "digits_value (str_nat n) = 10 * (n div 10) + n mod 10"
      by (simp add: str_nat.simps [of n] digits_value_append)
    then show ?thesis by simp
  qed
qed

lemma starts_with_minus [simp]: "starts_with (45 # s) (u ''-'')"
  by (simp add: u_def)

lemma starts_with_minus_digit: "is_digit c \<Longrightarrow> \<not> starts_with (c # s) (u ''-'')"
  by (simp add: u_def is_digit_def)

lemma starts_with_minus_str_nat [simp]: "\<not> starts_with (str_nat n) (u ''-'')"
proof (cases "str_nat n")
  case Nil
  then show ?thesis by simp
next
  case (Cons c s)
  with str_nat_digits [of n] show ?thesis by (simp add: starts_with_minus_digit)
qed

lemma length_str_nat: "length (str_nat n) \<le> k \<longleftrightarrow> n < 10 ^ k" if "0 < k"
  using that
proof (induction n arbitrary: k rule: str_nat.induct)
  case (1 n)
  show ?case
  proof (cases "n < 10")
    case True
    then have "n < 10 ^ k" using \<open>0 < k\<close>
      by (metis One_nat_def Suc_leI less_le_trans one_le_numeral power_increasing power_one_right)
    with True \<open>0 < k\<close> show ?thesis by (simp add: str_nat.simps [of n])
  next
    case False
    then have len: "length (str_nat n) = Suc (length (str_nat (n div 10)))"
      by (simp add: str_nat.simps [of n])
    show ?thesis
    proof (cases "k = 1")
      case True
      then show ?thesis using False len by (cases "str_nat (n div 10)") auto
    next
      case k: False
      then obtain j where j: "k = Suc j" "0 < j" using \<open>0 < k\<close> by (cases k) auto
      have "n div 10 < 10 ^ j \<longleftrightarrow> n < 10 ^ k" by (simp add: j div_less_iff_less_mult mult.commute)
      then show ?thesis using 1(1) [OF False j(2)] len j by simp
    qed
  qed
qed

definition int_printable :: "int \<Rightarrow> bool" where
  "int_printable i \<longleftrightarrow> length (str_nat (nat \<bar>i\<bar>)) \<le> 4300"

lemma int_printable_bound: "nat \<bar>i\<bar> < 10 ^ k \<Longrightarrow> 0 < k \<Longrightarrow> k \<le> 4300 \<Longrightarrow> int_printable i"
  using length_str_nat [of k "nat \<bar>i\<bar>"] by (simp add: int_printable_def)

lemma py_int_str_int: "int_printable i \<Longrightarrow> py_int (str_int i) = Inr i"
  by (cases "i < 0") (auto simp: py_int_def str_int_def Let_def int_printable_def)

lemma re_integer_str_int: "re_integer (str_int i)"
proof (cases "i < 0")
  case True
  then show ?thesis by (simp add: re_integer_def str_int_def Let_def str_nat_hd)
next
  case False
  then show ?thesis
    by (cases "i = 0") (auto simp: re_integer_def str_int_def Let_def str_nat_0 str_nat_hd)
qed

end
