(* ===== verification/PyFloat.thy ===== *)
theory PyFloat
  imports Complex_Main PyText
begin

section \<open>IEEE double precision numbers\<close>

text \<open>
  Python's \<open>float\<close>: sign, mantissa and exponent of a binary64 number, or an infinity, or not a
  number. \<open>fround\<close> rounds a nonnegative rational to the nearest double, ties to even, with overflow
  to infinity, which is what \<open>float(text)\<close> and the JSON reader do to a decimal literal.
  \<open>fvalue\<close> is \<open>fractions.Fraction(x)\<close>. \<open>frepr\<close> is \<open>repr(x)\<close>: the shortest decimal that reads
  back as the same number, and the nearest to it among those.
\<close>

datatype pyfloat = FFin bool nat int | FInf bool | FNan

fun isfinite :: "pyfloat \<Rightarrow> bool" where
  "isfinite (FFin s m e) = True"
| "isfinite _ = False"

text \<open>The canonical representations: 53-bit mantissas, subnormals only at the least exponent.\<close>

fun fcanon :: "pyfloat \<Rightarrow> bool" where
  "fcanon (FFin s m e) \<longleftrightarrow> m < 2 ^ 53 \<and> - 1074 \<le> e \<and> e \<le> 971 \<and> (2 ^ 52 \<le> m \<or> e = - 1074)"
| "fcanon _ = True"

fun fvalue :: "pyfloat \<Rightarrow> rat" where
  "fvalue (FFin s m e) = (if s then - 1 else 1) * (of_nat m * 2 powi e)"
| "fvalue _ = 0"

subsection \<open>Rounding\<close>

fun bitlen :: "nat \<Rightarrow> nat" where
  "bitlen n = (if n = 0 then 0 else Suc (bitlen (n div 2)))"

declare bitlen.simps [simp del]

text \<open>\<open>log2_rat q\<close> is the integer \<open>k\<close> with \<open>2 ^ k \<le> q < 2 ^ (k + 1)\<close>.\<close>

definition log2_rat :: "rat \<Rightarrow> int" where
  "log2_rat q =
     (case quotient_of q of (n, d) \<Rightarrow>
        let k = int (bitlen (nat n)) - int (bitlen (nat d))
        in if 2 powi k \<le> q then k else k - 1)"

definition round_even :: "rat \<Rightarrow> nat" where
  "round_even q =
     (let n = floor q; r = q - of_int n
      in if r < 1/2 then nat n else if 1/2 < r then nat n + 1
         else if even n then nat n else nat n + 1)"

definition fround :: "bool \<Rightarrow> rat \<Rightarrow> pyfloat" where
  "fround s q =
     (if q \<le> 0 then FFin s 0 (- 1074)
      else let e = max (- 1074) (log2_rat q - 52);
               m = round_even (q * 2 powi (- e));
               (m', e') = (if m = 2 ^ 53 then (2 ^ 52, e + 1) else (m, e))
           in if e' > 971 then FInf s else FFin s m' e')"

lemma bitlen_bounds: "0 < n \<Longrightarrow> 2 ^ (bitlen n - 1) \<le> n \<and> n < 2 ^ bitlen n \<and> 0 < bitlen n"
proof (induction n rule: bitlen.induct)
  case (1 n)
  show ?case
  proof (cases "n div 2 = 0")
    case True
    with 1 show ?thesis by (auto simp: bitlen.simps [of n] bitlen.simps [of 0])
  next
    case False
    with 1 have IH: "2 ^ (bitlen (n div 2) - 1) \<le> n div 2" "n div 2 < 2 ^ bitlen (n div 2)"
      "0 < bitlen (n div 2)" by auto
    then obtain j where j: "bitlen (n div 2) = Suc j" by (cases "bitlen (n div 2)") auto
    have "bitlen n = Suc (bitlen (n div 2))" using 1 by (simp add: bitlen.simps [of n])
    with IH j show ?thesis by auto
  qed
qed

lemma powi_Suc: "(2::rat) powi (k + 1) = 2 * 2 powi k"
  by (simp add: power_int_add)

lemma powi_less_iff: "(2::rat) powi a < 2 powi b \<longleftrightarrow> a < b"
proof (cases "a < b")
  case True
  then show ?thesis by (simp add: power_int_strict_increasing)
next
  case False
  then have "(2::rat) powi b \<le> 2 powi a" by (simp add: power_int_increasing)
  with False show ?thesis by simp
qed

lemma log2_rat_spec:
  assumes "0 < q"
  shows "2 powi log2_rat q \<le> q \<and> q < 2 powi (log2_rat q + 1)"
proof -
  obtain n d where nd: "quotient_of q = (n, d)" by (cases "quotient_of q")
  then have q: "q = of_int n / of_int d" and d: "0 < d"
    by (auto simp: quotient_of_div quotient_of_denom_pos)
  with assms have n: "0 < n" by (auto simp: zero_less_divide_iff)
  define a where "a = nat n"
  define b where "b = nat d"
  have ab: "0 < a" "0 < b" "of_int n = (of_nat a :: rat)" "of_int d = (of_nat b :: rat)"
    using n d by (auto simp: a_def b_def of_nat_nat)
  have qab: "q * of_nat b = of_nat a" using q d ab by simp
  obtain i where i: "bitlen a = Suc i" using bitlen_bounds [OF ab(1)] by (cases "bitlen a") auto
  obtain j where j: "bitlen b = Suc j" using bitlen_bounds [OF ab(2)] by (cases "bitlen b") auto
  have nat_bounds: "2 ^ i \<le> a" "a < 2 ^ Suc i" "2 ^ j \<le> b" "b < 2 ^ Suc j"
    using bitlen_bounds [OF ab(1)] bitlen_bounds [OF ab(2)] i j by auto
  have bounds: "(2::rat) ^ i \<le> of_nat a" "of_nat a < (2::rat) ^ Suc i"
    "(2::rat) ^ j \<le> of_nat b" "of_nat b < (2::rat) ^ Suc j"
    using nat_bounds by (metis of_nat_le_iff of_nat_less_iff of_nat_numeral of_nat_power)+
  define k where "k = int i - int j"
  have pk: "(2::rat) powi k * 2 ^ j = 2 ^ i"
    by (simp add: k_def power_int_diff flip: power_int_of_nat)
  have low: "2 powi (k - 1) \<le> q"
  proof -
    have "(2::rat) powi (k - 1) * of_nat b \<le> 2 powi (k - 1) * 2 ^ Suc j"
      by (rule mult_left_mono) (use bounds in auto)
    also have "\<dots> = 2 powi k * 2 ^ j" using powi_Suc [of "k - 1"] by simp
    also have "\<dots> \<le> q * of_nat b" using pk bounds qab by simp
    finally show ?thesis using ab by (simp add: mult_le_cancel_right)
  qed
  have high: "q < 2 powi (k + 1)"
  proof -
    have "q * of_nat b < 2 ^ Suc i" using qab bounds by simp
    also have "\<dots> = 2 powi (k + 1) * 2 ^ j" using pk by (simp add: powi_Suc)
    also have "\<dots> \<le> 2 powi (k + 1) * of_nat b" by (rule mult_left_mono) (use bounds in auto)
    finally show ?thesis using ab by (simp add: mult_less_cancel_right)
  qed
  have "log2_rat q = (if 2 powi k \<le> q then k else k - 1)"
    by (simp add: log2_rat_def nd i j k_def a_def [symmetric] b_def [symmetric])
  with low high show ?thesis by auto
qed

lemma log2_rat_unique:
  assumes "2 powi k \<le> q" "q < 2 powi (k + 1)"
  shows "log2_rat q = k"
proof -
  have "0 < q" using assms(1) by (rule less_le_trans [rotated]) simp
  from log2_rat_spec [OF this] have "2 powi log2_rat q \<le> q" "q < 2 powi (log2_rat q + 1)" by auto
  with assms have "(2::rat) powi k < 2 powi (log2_rat q + 1)" "(2::rat) powi log2_rat q < 2 powi (k + 1)"
    by auto
  then have "k < log2_rat q + 1" "log2_rat q < k + 1"
    by (simp_all add: powi_less_iff)
  then show ?thesis by simp
qed

lemma round_even_of_nat [simp]: "round_even (of_nat m) = m"
  by (simp add: round_even_def Let_def)

text \<open>Rounding leaves every double where it is.\<close>

lemma fround_fvalue:
  assumes "fcanon (FFin s m e)"
  shows "fround s (of_nat m * 2 powi e) = FFin s m e"
proof (cases "m = 0")
  case True
  with assms show ?thesis by (simp add: fround_def)
next
  case False
  let ?q = "of_nat m * 2 powi e :: rat"
  have pos: "0 < ?q" using False by simp
  have cancel: "?q * 2 powi (- e) = of_nat m" by (simp add: power_int_minus)
  have exp: "max (- 1074) (log2_rat ?q - 52) = e"
  proof (cases "2 ^ 52 \<le> m")
    case True
    have "(2::rat) ^ 52 \<le> of_nat m" "of_nat m < (2::rat) ^ 53"
      using True assms by simp_all
    then have "(2::rat) powi (e + 52) \<le> ?q" "?q < (2::rat) powi (e + 52 + 1)"
      by (simp_all add: power_int_add)
    then have "log2_rat ?q = e + 52" by (rule log2_rat_unique)
    with assms show ?thesis by simp
  next
    case small: False
    with assms have e: "e = - 1074" and "of_nat m < (2::rat) ^ 52" by auto
    then have "?q < 2 powi (e + 52)" by (simp add: power_int_add mult.commute)
    moreover have "2 powi log2_rat ?q \<le> ?q" using log2_rat_spec [OF pos] by simp
    ultimately have "(2::rat) powi log2_rat ?q < 2 powi (e + 52)" by linarith
    then have "log2_rat ?q < e + 52" by (simp add: powi_less_iff)
    with e show ?thesis by simp
  qed
  have "m \<noteq> 2 ^ 53" "e \<le> 971" using assms by auto
  moreover have "fround s q = FFin s m e"
    if "0 < q" "max (- 1074) (log2_rat q - 52) = e" "q * 2 powi (- e) = of_nat m" for q
    using that \<open>m \<noteq> 2 ^ 53\<close> \<open>e \<le> 971\<close> by (simp add: fround_def Let_def)
  ultimately show ?thesis using pos exp cancel by blast
qed

subsection \<open>Number literals\<close>

text \<open>
  The number syntax of JSON, which is also the regular expression of the typed real filters:
  sign, integer digits, fraction digits (empty when there is no fraction), exponent sign and
  digits. \<open>scan_number\<close> reads the longest literal at the start of a text.
\<close>

record numtext =
  nt_neg :: bool
  nt_int :: ustr
  nt_frac :: ustr
  nt_exp :: "(bool \<times> ustr) option"

definition scan_frac :: "ustr \<Rightarrow> ustr \<times> ustr" where
  "scan_frac s =
     (case s of c # r \<Rightarrow>
        if c = 46 \<and> takeWhile is_digit r \<noteq> [] then (takeWhile is_digit r, dropWhile is_digit r)
        else ([], s)
      | [] \<Rightarrow> ([], s))"

definition scan_sign :: "ustr \<Rightarrow> bool \<times> ustr" where
  "scan_sign s =
     (case s of c # r \<Rightarrow> if c = 43 then (False, r) else if c = 45 then (True, r) else (False, s)
      | [] \<Rightarrow> (False, s))"

definition scan_exp :: "ustr \<Rightarrow> (bool \<times> ustr) option \<times> ustr" where
  "scan_exp s =
     (case s of c # r \<Rightarrow>
        (case scan_sign r of (neg, r') \<Rightarrow>
          if (c = 101 \<or> c = 69) \<and> takeWhile is_digit r' \<noteq> []
          then (Some (neg, takeWhile is_digit r'), dropWhile is_digit r') else (None, s))
      | [] \<Rightarrow> (None, s))"

definition scan_int :: "ustr \<Rightarrow> (ustr \<times> ustr) option" where
  "scan_int s =
     (case s of c # r \<Rightarrow>
        if c = 48 then Some ([48], r)
        else if is_digit c then Some (takeWhile is_digit s, dropWhile is_digit s) else None
      | [] \<Rightarrow> None)"

definition scan_number :: "ustr \<Rightarrow> (numtext \<times> ustr) option" where
  "scan_number s =
     (let neg = starts_with s (u ''-'') in
      case scan_int (if neg then tl s else s) of None \<Rightarrow> None
      | Some (ip, r1) \<Rightarrow>
          (case scan_frac r1 of (fp, r2) \<Rightarrow>
           case scan_exp r2 of (ex, r3) \<Rightarrow>
             Some (\<lparr>nt_neg = neg, nt_int = ip, nt_frac = fp, nt_exp = ex\<rparr>, r3)))"

text \<open>\<open>-?(?:0|[1-9][0-9]*)(?:\.[0-9]+)?(?:[eE][+-]?[0-9]+)?\<close> against the whole text.\<close>

definition re_real :: "ustr \<Rightarrow> bool" where
  "re_real s \<longleftrightarrow> (case scan_number s of Some (_, r) \<Rightarrow> r = [] | None \<Rightarrow> False)"

definition nt_exponent :: "numtext \<Rightarrow> int" where
  "nt_exponent t =
     (case nt_exp t of None \<Rightarrow> 0
      | Some (neg, ds) \<Rightarrow> if neg then - int (digits_value ds) else int (digits_value ds))"

definition nt_value :: "numtext \<Rightarrow> rat" where
  "nt_value t = of_nat (digits_value (nt_int t @ nt_frac t)) *
     10 powi (nt_exponent t - int (length (nt_frac t)))"

text \<open>\<open>float(text)\<close> on a literal of that syntax.\<close>

definition nt_float :: "numtext \<Rightarrow> pyfloat" where
  "nt_float t = fround (nt_neg t) (nt_value t)"

definition float_of_text :: "ustr \<Rightarrow> pyfloat res" where
  "float_of_text s =
     (case scan_number s of Some (t, []) \<Rightarrow> Inr (nt_float t) | _ \<Rightarrow> Inl (ValueError (u ''could not convert string to float'')))"

definition num_text :: "numtext \<Rightarrow> ustr" where
  "num_text t =
     (if nt_neg t then [45] else []) @ nt_int t @
     (if nt_frac t = [] then [] else 46 # nt_frac t) @
     (case nt_exp t of None \<Rightarrow> [] | Some (neg, ds) \<Rightarrow> 101 # (if neg then 45 else 43) # ds)"

definition numtext_ok :: "numtext \<Rightarrow> bool" where
  "numtext_ok t \<longleftrightarrow> re_natural (nt_int t) \<and> list_all is_digit (nt_frac t) \<and>
     (case nt_exp t of None \<Rightarrow> True | Some (_, ds) \<Rightarrow> re_digits ds)"

text \<open>What may follow a number so that the number ends there.\<close>

definition num_delim :: "ustr \<Rightarrow> bool" where
  "num_delim r \<longleftrightarrow> (case r of [] \<Rightarrow> True | c # _ \<Rightarrow> \<not> is_digit c \<and> c \<noteq> 46 \<and> c \<noteq> 101 \<and> c \<noteq> 69)"

definition no_digit :: "ustr \<Rightarrow> bool" where
  "no_digit r \<longleftrightarrow> (case r of [] \<Rightarrow> True | c # _ \<Rightarrow> \<not> is_digit c)"

lemma takeWhile_digits:
  "list_all is_digit ds \<Longrightarrow> no_digit r \<Longrightarrow>
     takeWhile is_digit (ds @ r) = ds \<and> dropWhile is_digit (ds @ r) = r"
  by (induction ds) (auto simp: no_digit_def split: list.splits)

lemma scan_int_text:
  assumes "re_natural ip" "no_digit r"
  shows "scan_int (ip @ r) = Some (ip, r)"
proof (cases "ip = u ''0''")
  case True
  then show ?thesis by (simp add: scan_int_def u_def)
next
  case False
  with assms(1) obtain c ds where ip: "ip = c # ds" "c \<noteq> 48" "list_all is_digit ip"
    by (cases ip) (auto simp: re_natural_def re_digits_def)
  with takeWhile_digits [OF ip(3) assms(2)] show ?thesis
    by (simp add: scan_int_def)
qed

lemma scan_frac_text:
  assumes "list_all is_digit fp" "no_digit r" "fp = [] \<Longrightarrow> (\<forall>s. r \<noteq> 46 # s)"
  shows "scan_frac ((if fp = [] then [] else 46 # fp) @ r) = (fp, r)"
  using assms takeWhile_digits [OF assms(1,2)]
  by (auto simp: scan_frac_def split: list.splits)

lemma scan_exp_text:
  assumes "case ex of None \<Rightarrow> True | Some (_, ds) \<Rightarrow> re_digits ds" "num_delim r"
  shows "scan_exp ((case ex of None \<Rightarrow> [] | Some (neg, ds) \<Rightarrow> 101 # (if neg then 45 else 43) # ds) @ r) = (ex, r)"
proof (cases ex)
  case None
  with assms show ?thesis by (auto simp: scan_exp_def num_delim_def split: list.splits prod.splits)
next
  case (Some nd)
  obtain neg ds where nd: "nd = (neg, ds)" by (cases nd)
  have "no_digit r" using assms(2) by (auto simp: num_delim_def no_digit_def split: list.splits)
  with assms(1) Some nd have "takeWhile is_digit (ds @ r) = ds" "dropWhile is_digit (ds @ r) = r" "ds \<noteq> []"
    using takeWhile_digits by (auto simp: re_digits_def)
  with Some nd show ?thesis by (simp add: scan_exp_def scan_sign_def)
qed

lemma scan_number_text:
  assumes ok: "numtext_ok t" and r: "num_delim r"
  shows "scan_number (num_text t @ r) = Some (t, r)"
proof -
  define re where "re = (case nt_exp t of None \<Rightarrow> [] | Some (neg, ds) \<Rightarrow> 101 # (if neg then 45 else 43) # ds) @ r"
  define rf where "rf = (if nt_frac t = [] then [] else 46 # nt_frac t) @ re"
  have ip: "re_natural (nt_int t)" and fp: "list_all is_digit (nt_frac t)"
    and ex: "case nt_exp t of None \<Rightarrow> True | Some (_, ds) \<Rightarrow> re_digits ds"
    using ok by (auto simp: numtext_ok_def)
  have re: "no_digit re" "\<forall>s. re \<noteq> 46 # s"
    using r by (auto simp: re_def no_digit_def num_delim_def is_digit_def split: option.splits list.splits)
  have rf: "no_digit rf" using re by (auto simp: rf_def no_digit_def is_digit_def)
  have whole: "num_text t @ r = (if nt_neg t then [45] else []) @ nt_int t @ rf"
    by (simp add: num_text_def rf_def re_def)
  obtain c cs where "nt_int t = c # cs" "is_digit c"
    using ip by (cases "nt_int t") (auto simp: re_natural_def re_digits_def u_def is_digit_def)
  then have neg: "starts_with (num_text t @ r) (u ''-'') = nt_neg t"
    unfolding whole by (auto simp: starts_with_minus_digit)
  have int: "scan_int (nt_int t @ rf) = Some (nt_int t, rf)" by (rule scan_int_text [OF ip rf])
  have frac: "scan_frac rf = (nt_frac t, re)" unfolding rf_def by (rule scan_frac_text) (use fp re in auto)
  have exp: "scan_exp re = (nt_exp t, r)" unfolding re_def by (rule scan_exp_text [OF ex r])
  show ?thesis
    using neg int frac exp by (cases "nt_neg t") (simp_all add: scan_number_def Let_def whole)
qed

lemma num_delim_Nil [simp]: "num_delim []"
  by (simp add: num_delim_def)

lemma re_real_text: "numtext_ok t \<Longrightarrow> re_real (num_text t)"
  using scan_number_text [of t "[]"] by (simp add: re_real_def)

lemma float_of_num_text: "numtext_ok t \<Longrightarrow> float_of_text (num_text t) = Inr (nt_float t)"
  using scan_number_text [of t "[]"] by (simp add: float_of_text_def)

subsection \<open>The shortest decimal\<close>

text \<open>
  \<open>repr\<close> searches the decimals \<open>c * 10 ^ p\<close> with 1, 2, 3, ... significant digits around the
  number and takes the first that reads back as the number, the nearer one when both neighbours
  do. Every double has a finite decimal expansion, so the search always ends with a hit; the
  bound of 1500 digits is never reached.
\<close>

fun lead_zeros :: "nat \<Rightarrow> rat \<Rightarrow> nat" where
  "lead_zeros 0 q = 0"
| "lead_zeros (Suc n) q = (if 1 \<le> q * 10 then 0 else Suc (lead_zeros n (q * 10)))"

text \<open>The position of the decimal point: \<open>10 ^ (k - 1) \<le> q < 10 ^ k\<close>.\<close>

definition decimal_point :: "rat \<Rightarrow> int" where
  "decimal_point q =
     (if 1 \<le> q then int (length (str_nat (nat (floor q)))) else - int (lead_zeros 400 q))"

definition reads_as :: "rat \<Rightarrow> pyfloat \<Rightarrow> bool" where
  "reads_as q x = (fround False q = x)"

definition pick_digits :: "pyfloat \<Rightarrow> rat \<Rightarrow> nat \<Rightarrow> (nat \<times> int) option" where
  "pick_digits x q n =
     (let p = decimal_point q - int n;
          c = nat (floor (q * 10 powi (- p)));
          lo = of_nat c * 10 powi p; hi = of_nat (c + 1) * 10 powi p
      in if reads_as lo x then
           (if reads_as hi x \<and> (hi - q < q - lo \<or> (hi - q = q - lo \<and> odd c))
            then Some (c + 1, p) else Some (c, p))
         else if reads_as hi x then Some (c + 1, p) else None)"

fun first_hit :: "nat \<Rightarrow> (nat \<Rightarrow> 'a option) \<Rightarrow> nat \<Rightarrow> 'a option" where
  "first_hit 0 f n = None"
| "first_hit (Suc k) f n = (case f n of Some y \<Rightarrow> Some y | None \<Rightarrow> first_hit k f (Suc n))"

definition shortest :: "pyfloat \<Rightarrow> rat \<Rightarrow> (nat \<times> int) option" where
  "shortest x q = first_hit 1500 (pick_digits x q) 1"

fun strip_zeros :: "nat \<Rightarrow> int \<Rightarrow> nat \<times> int" where
  "strip_zeros c p = (if c \<noteq> 0 \<and> c mod 10 = 0 then strip_zeros (c div 10) (p + 1) else (c, p))"

declare strip_zeros.simps [simp del]

definition zeros :: "nat \<Rightarrow> ustr" where
  "zeros n = replicate n 48"

text \<open>The layout of \<open>repr\<close>: positional between \<open>1e-4\<close> and \<open>1e16\<close>, otherwise with an exponent.\<close>

definition layout :: "bool \<Rightarrow> nat \<Rightarrow> int \<Rightarrow> numtext" where
  "layout neg c p =
     (let ds = str_nat c; n = length ds; point = p + int n in
      if c = 0 then \<lparr>nt_neg = neg, nt_int = [48], nt_frac = [48], nt_exp = None\<rparr>
      else if - 4 < point \<and> point \<le> 16 then
        (if point \<le> 0 then \<lparr>nt_neg = neg, nt_int = [48], nt_frac = zeros (nat (- point)) @ ds, nt_exp = None\<rparr>
         else if int n \<le> point then
           \<lparr>nt_neg = neg, nt_int = ds @ zeros (nat (point - int n)), nt_frac = [48], nt_exp = None\<rparr>
         else \<lparr>nt_neg = neg, nt_int = take (nat point) ds, nt_frac = drop (nat point) ds, nt_exp = None\<rparr>)
      else
        (let e = point - 1; es = str_nat (nat \<bar>e\<bar>) in
         \<lparr>nt_neg = neg, nt_int = [hd ds], nt_frac = tl ds,
          nt_exp = Some (e < 0, if length es < 2 then 48 # es else es)\<rparr>))"

definition frepr_num :: "bool \<Rightarrow> nat \<Rightarrow> int \<Rightarrow> numtext" where
  "frepr_num neg m e =
     (if m = 0 then layout neg 0 0
      else case shortest (FFin False m e) (of_nat m * 2 powi e) of
        None \<Rightarrow> layout neg 0 0
      | Some (c, p) \<Rightarrow> (case strip_zeros c p of (c', p') \<Rightarrow> layout neg c' p'))"

fun frepr :: "pyfloat \<Rightarrow> ustr" where
  "frepr (FFin neg m e) = num_text (frepr_num neg m e)"
| "frepr (FInf neg) = (if neg then u ''-inf'' else u ''inf'')"
| "frepr FNan = u ''nan''"

subsection \<open>Reading a shortest decimal back\<close>

lemma digits_value_gen:
  "foldl (\<lambda>n c. 10 * n + (c - 48)) k s = k * 10 ^ length s + digits_value s"
proof (induction s rule: rev_induct)
  case Nil
  then show ?case by (simp add: digits_value_def)
next
  case (snoc c s)
  then show ?case by (simp add: digits_value_append algebra_simps)
qed

lemma digits_value_concat: "digits_value (s @ t) = digits_value s * 10 ^ length t + digits_value t"
  using digits_value_gen [of "digits_value s" t] by (simp add: digits_value_def)

lemma digits_value_zeros [simp]: "digits_value (zeros n) = 0"
proof (induction n)
  case 0
  then show ?case by (simp add: zeros_def digits_value_def)
next
  case (Suc n)
  then show ?case by (simp add: zeros_def digits_value_append flip: replicate_append_same)
qed

lemma digits_value_48 [simp]: "digits_value [48] = 0"
  by (simp add: digits_value_def)

lemma digits_value_Nil [simp]: "digits_value [] = 0"
  by (simp add: digits_value_def)

lemma digits_value_48_Cons [simp]: "digits_value (48 # s) = digits_value s"
  using digits_value_concat [of "[48]" s] by simp

lemma length_zeros [simp]: "length (zeros n) = n"
  by (simp add: zeros_def)

lemma digits_zeros [simp]: "list_all is_digit (zeros n)"
  by (simp add: zeros_def list_all_iff is_digit_def)

lemma powi_10_nonneg: "0 \<le> k \<Longrightarrow> (10::rat) powi k = 10 ^ nat k"
  by (simp add: power_int_def)

lemma re_natural_digits: "re_digits s \<Longrightarrow> hd s \<noteq> 48 \<Longrightarrow> re_natural s"
  by (simp add: re_natural_def)

lemma layout_ok: "numtext_ok (layout neg c p)"
proof (cases "c = 0")
  case True
  then show ?thesis by (simp add: layout_def numtext_ok_def re_natural_def u_def is_digit_def)
next
  case False
  define ds where "ds = str_nat c"
  have ds: "ds \<noteq> []" "list_all is_digit ds" "hd ds \<noteq> 48"
    using False str_nat_digits by (auto simp: ds_def str_nat_hd)
  have sub: "list_all is_digit (take k ds)" "list_all is_digit (drop k ds)" for k
    using ds(2) by (auto simp: list_all_iff dest: in_set_takeD in_set_dropD)
  have hd_take: "0 < k \<Longrightarrow> re_natural (take k ds)" for k
    using ds sub [of k] by (auto simp: re_natural_def re_digits_def)
  have hd_app: "re_natural (ds @ zeros k)" for k
    using ds by (auto intro!: re_natural_digits simp: re_digits_def)
  have single: "re_natural [hd ds]" "list_all is_digit (tl ds)"
    using ds by (cases ds; auto simp: re_natural_def re_digits_def)+
  have expo: "re_digits (48 # str_nat k)" for k
    using str_nat_digits by (simp add: re_digits_def is_digit_def)
  have zero: "re_natural [48]" by (simp add: re_natural_def u_def)
  show ?thesis using False ds sub hd_take hd_app single expo zero
    by (simp add: layout_def numtext_ok_def Let_def ds_def [symmetric] is_digit_def)
qed

lemma powi_10_add: "(10::rat) powi (a + b) = 10 powi a * 10 powi b"
  by (simp add: power_int_add)

lemma layout_value: "nt_value (layout neg c p) = of_nat c * 10 powi p"
proof (cases "c = 0")
  case True
  then show ?thesis by (simp add: layout_def nt_value_def digits_value_def)
next
  case False
  define ds where "ds = str_nat c"
  define n where "n = length ds"
  define point where "point = p + int n"
  have dv: "digits_value ds = c" "ds \<noteq> []" by (simp_all add: ds_def)
  then have n: "0 < n" by (simp add: n_def)
  consider (small) "- 4 < point" "point \<le> 0" | (large) "- 4 < point" "point \<le> 16" "int n \<le> point" "0 < point"
    | (mid) "- 4 < point" "point \<le> 16" "point < int n" "0 < point" | (expo) "\<not> (- 4 < point \<and> point \<le> 16)"
    by linarith
  then show ?thesis
  proof cases
    case small
    then have "int (length (zeros (nat (- point)) @ ds)) = - p"
      by (simp add: point_def n_def)
    with small False dv show ?thesis
      by (simp add: layout_def Let_def ds_def [symmetric] n_def [symmetric] point_def [symmetric]
          nt_value_def nt_exponent_def digits_value_concat)
  next
    case large
    then have p: "0 \<le> p" "point - int n = p" by (simp_all add: point_def)
    have "(10::rat) ^ nat p * 10 * 10 powi (- 1) = 10 powi p"
      using p by (simp add: powi_10_nonneg power_int_minus)
    with large p False dv show ?thesis
      by (simp add: layout_def Let_def ds_def [symmetric] n_def [symmetric] point_def [symmetric]
          nt_value_def nt_exponent_def digits_value_concat power_int_minus)
  next
    case mid
    then have "int (length (drop (nat point) ds)) = - p" by (simp add: n_def [symmetric] point_def)
    with mid False dv show ?thesis
      by (simp add: layout_def Let_def ds_def [symmetric] n_def [symmetric] point_def [symmetric]
          nt_value_def nt_exponent_def)
  next
    case expo
    have es: "digits_value (if length (str_nat k) < 2 then 48 # str_nat k else str_nat k) = k" for k
      using digits_value_concat [of "[48]" "str_nat k"] by simp
    define e where "e = point - 1"
    have e: "(if e < 0 then - int (nat \<bar>e\<bar>) else int (nat \<bar>e\<bar>)) = e" by simp
    have exp: "e - (int n - 1) = p" by (simp add: e_def point_def)
    have "[hd ds] @ tl ds = ds" using dv by simp
    then have whole: "digits_value ([hd ds] @ tl ds) = c" using dv by simp
    have "layout neg c p = \<lparr>nt_neg = neg, nt_int = [hd ds], nt_frac = tl ds,
        nt_exp = Some (e < 0, if length (str_nat (nat \<bar>e\<bar>)) < 2 then 48 # str_nat (nat \<bar>e\<bar>) else str_nat (nat \<bar>e\<bar>))\<rparr>"
      using expo False
      by (simp only: layout_def Let_def ds_def [symmetric] n_def [symmetric] point_def [symmetric]
          e_def [symmetric] if_False simp_thms)
    moreover have "int (length (tl ds)) = int n - 1" using dv by (cases ds) (simp_all add: n_def)
    ultimately show ?thesis
      unfolding nt_value_def nt_exponent_def by (simp only: numtext.simps option.case prod.case es e whole exp)
  qed
qed

lemma strip_zeros_value:
  "strip_zeros c p = (c', p') \<Longrightarrow> (of_nat c' :: rat) * 10 powi p' = of_nat c * 10 powi p"
proof (induction c p rule: strip_zeros.induct)
  case (1 c p)
  show ?case
  proof (cases "c \<noteq> 0 \<and> c mod 10 = 0")
    case True
    then have "strip_zeros (c div 10) (p + 1) = (c', p')" using 1(2) by (simp add: strip_zeros.simps [of c])
    with 1(1) [OF True] have "(of_nat c' :: rat) * 10 powi p' = of_nat (c div 10) * (10 * 10 powi p)"
      by (simp add: powi_10_add mult.commute)
    also have "\<dots> = of_nat (c div 10 * 10) * 10 powi p" by simp
    also have "c div 10 * 10 = c" using True by auto
    finally show ?thesis .
  next
    case False
    with 1(2) show ?thesis by (auto simp: strip_zeros.simps [of c])
  qed
qed

lemma pick_digits_reads: "pick_digits x q n = Some (c, p) \<Longrightarrow> reads_as (of_nat c * 10 powi p) x"
  by (auto simp: pick_digits_def Let_def split: if_splits)

lemma first_hit_sound: "first_hit k f n = Some y \<Longrightarrow> \<exists>i. f i = Some y"
  by (induction k f n rule: first_hit.induct) (auto split: option.splits)

lemma first_hit_complete: "f (n + i) = Some y \<Longrightarrow> i < k \<Longrightarrow> first_hit k f n \<noteq> None"
proof (induction k f n arbitrary: i rule: first_hit.induct)
  case (1 f n)
  then show ?case by simp
next
  case (2 k f n)
  then show ?case by (cases i) (auto split: option.splits)
qed

lemma exact_decimal:
  assumes "- k \<le> e" "p \<le> - k" "0 \<le> k"
  shows "\<exists>c. of_nat m * 2 powi e * 10 powi (- p) = (of_nat c :: rat)"
proof -
  have "(10::rat) powi (- p) = 10 powi k * 10 powi (- p - k)" by (simp flip: powi_10_add)
  also have "(10::rat) powi k = 2 powi k * 5 powi k"
    using power_int_mult_distrib [of "2::rat" 5 k] by simp
  finally have "of_nat m * 2 powi e * 10 powi (- p) =
      of_nat m * (2 powi e * 2 powi k) * 5 powi k * (10::rat) powi (- p - k)" by (simp only: mult.assoc)
  also have "2 powi e * (2::rat) powi k = 2 powi (e + k)" by (simp add: power_int_add)
  also have "of_nat m * 2 powi (e + k) * 5 powi k * (10::rat) powi (- p - k) =
      of_nat (m * 2 ^ nat (e + k) * 5 ^ nat k * 10 ^ nat (- p - k))"
    using assms by (simp add: power_int_def)
  finally show ?thesis by blast
qed

lemma decimal_point_bound:
  assumes "fcanon (FFin s m e)"
  shows "decimal_point (of_nat m * 2 powi e) \<le> 400"
proof (cases "1 \<le> (of_nat m * 2 powi e :: rat)")
  case True
  let ?q = "of_nat m * 2 powi e :: rat"
  have "(2::rat) powi e \<le> 2 powi 971" using assms by (intro power_int_increasing) auto
  moreover have "of_nat m < (2::rat) ^ 53" using assms by simp
  ultimately have "?q < 2 ^ 53 * 2 powi 971" by (intro mult_less_le_imp_less) auto
  also have "\<dots> \<le> of_int (10 ^ 400)" by (simp add: power_int_def)
  finally have "floor ?q < 10 ^ 400" by (simp only: floor_less_iff)
  then have "nat (floor ?q) < 10 ^ 400" using True by (simp add: nat_less_iff)
  then have "length (str_nat (nat (floor ?q))) \<le> 400" using length_str_nat [of 400] by simp
  with True show ?thesis by (simp add: decimal_point_def)
next
  case False
  then show ?thesis by (simp add: decimal_point_def)
qed

lemma pick_digits_exact:
  assumes "decimal_point q - 1500 = p" "q * 10 powi (- p) = of_nat c" "of_nat c * 10 powi p = q" "reads_as q x"
  shows "\<exists>y. pick_digits x q 1500 = Some y"
  using assms by (simp add: pick_digits_def Let_def)

text \<open>The search always succeeds, and what it finds reads back.\<close>

lemma shortest_reads:
  assumes "fcanon (FFin s m e)"
  shows "\<exists>c p. shortest (FFin False m e) (of_nat m * 2 powi e) = Some (c, p) \<and>
    fround False (of_nat c * 10 powi p) = FFin False m e"
proof -
  let ?q = "of_nat m * 2 powi e :: rat" and ?x = "FFin False m e"
  define p where "p = decimal_point ?q - 1500"
  have e: "- 1074 \<le> e" and canon: "fcanon ?x" using assms by auto
  have p: "p \<le> - 1074" using decimal_point_bound [OF assms] by (simp add: p_def)
  have zero: "(0::int) \<le> 1074" by simp
  obtain c where c: "?q * 10 powi (- p) = of_nat c" using exact_decimal [OF e p zero, of m] by (elim exE)
  have "of_nat c * 10 powi p = ?q * (10 powi (- p) * 10 powi p)" by (simp only: c [symmetric] mult.assoc)
  then have exact: "of_nat c * 10 powi p = ?q" by (simp only: powi_10_add [symmetric] add.left_inverse power_int_0_right mult_1_right)
  have "reads_as ?q ?x" using fround_fvalue [OF canon] by (simp only: reads_as_def)
  then have "\<exists>y. pick_digits ?x ?q 1500 = Some y"
    by (rule pick_digits_exact [OF p_def [symmetric] c exact])
  then obtain y where y: "pick_digits ?x ?q (1 + 1499) = Some y" by (simp only: numeral_plus_numeral one_plus_numeral) auto
  have "shortest ?x ?q \<noteq> None"
    unfolding shortest_def by (rule first_hit_complete [where f = "pick_digits ?x ?q" and n = 1 and i = 1499, OF y]) simp
  then obtain c' p' where hit: "shortest ?x ?q = Some (c', p')" by auto
  have "\<exists>n. pick_digits ?x ?q n = Some (c', p')"
    by (rule first_hit_sound [OF hit [unfolded shortest_def]])
  then obtain n where "pick_digits ?x ?q n = Some (c', p')" by (elim exE)
  then have "reads_as (of_nat c' * 10 powi p') ?x" by (rule pick_digits_reads)
  with hit show ?thesis by (auto simp: reads_as_def)
qed

lemma fround_sign: "fround False q = FFin False m e \<Longrightarrow> fround s q = FFin s m e"
  by (auto simp: fround_def Let_def split: if_splits prod.splits)

lemma frepr_num_ok: "numtext_ok (frepr_num s m e)"
  by (auto simp: frepr_num_def layout_ok split: option.splits prod.splits)

lemma frepr_num_neg: "nt_neg (frepr_num s m e) = s"
  by (auto simp: frepr_num_def layout_def Let_def split: option.splits prod.splits)

lemma frepr_num_float:
  assumes "fcanon (FFin s m e)"
  shows "nt_float (frepr_num s m e) = FFin s m e"
proof (cases "m = 0")
  case True
  with assms show ?thesis
    by (simp add: nt_float_def frepr_num_def layout_value fround_def) (simp add: layout_def)
next
  case False
  from shortest_reads [OF assms] obtain c p where
    s: "shortest (FFin False m e) (of_nat m * 2 powi e) = Some (c, p)"
    and r: "fround False (of_nat c * 10 powi p) = FFin False m e" by auto
  obtain c' p' where z: "strip_zeros c p = (c', p')" by (cases "strip_zeros c p")
  with s False have "nt_value (frepr_num s m e) = of_nat c * 10 powi p"
    by (simp add: frepr_num_def layout_value strip_zeros_value [OF z])
  with fround_sign [OF r] show ?thesis by (simp add: nt_float_def frepr_num_neg)
qed

lemma re_real_frepr: "isfinite x \<Longrightarrow> re_real (frepr x)"
  by (cases x) (auto simp: re_real_text frepr_num_ok)

lemma float_of_text_frepr: "isfinite x \<Longrightarrow> fcanon x \<Longrightarrow> float_of_text (frepr x) = Inr x"
  by (cases x) (auto simp: float_of_num_text frepr_num_ok frepr_num_float simp del: fcanon.simps)

interpretation float_text: codec frepr float_of_text "\<lambda>x. isfinite x \<and> fcanon x"
  by unfold_locales (simp add: float_of_text_frepr)

text \<open>A literal beyond the range of the format reads as an infinity.\<close>

lemma fround_overflow: 
  assumes "2 ^ 1024 \<le> q" shows "fround s q = FInf s"
proof -
  have q: "0 < q" using assms by (smt (verit) zero_less_power zero_less_numeral order_less_le_trans)
  from log2_rat_spec [OF q] have "q < 2 powi (log2_rat q + 1)" by simp
  with assms have "(2::rat) powi 1024 < 2 powi (log2_rat q + 1)" by simp
  then have "1024 < log2_rat q + 1" by (simp only: powi_less_iff)
  then have "max (- 1074) (log2_rat q - 52) = log2_rat q - 52" "971 < log2_rat q - 52" by simp_all
  then show ?thesis using q by (simp add: fround_def Let_def split: prod.splits if_splits)
qed

lemma powi_10_999: "(2::rat) ^ 1024 \<le> 10 powi 999"
proof -
  have "(2::rat) ^ 1024 = (2 ^ 4) ^ 256" unfolding power_mult [symmetric] by (rule arg_cong [of _ _ "power 2"]) simp
  also have "\<dots> \<le> (10 ^ 2) ^ 256" by (rule power_mono) simp_all
  also have "\<dots> = 10 ^ 512" unfolding power_mult [symmetric] by (rule arg_cong [of _ _ "power 10"]) simp
  also have "\<dots> \<le> 10 ^ 999" by (rule power_increasing) simp_all
  finally show ?thesis by (simp only: power_int_numeral)
qed

lemma nt_float_huge: "nt_float \<lparr>nt_neg = False, nt_int=[49], nt_frac=[], nt_exp = Some (False, [57,57,57])\<rparr> = FInf False"
proof -
  let ?t = "\<lparr>nt_neg = False, nt_int=[49], nt_frac=[], nt_exp = Some (False, [57,57,57])\<rparr>"
  have "digits_value ([49] @ []) = 1" "digits_value [57,57,57] = 999" by (simp_all add: digits_value_def)
  then have e: "nt_exponent ?t - int (length (nt_frac ?t)) = 999" "of_nat (digits_value (nt_int ?t @ nt_frac ?t)) = (1::rat)"
    by (simp_all add: nt_exponent_def)
  have v: "nt_value ?t = 10 powi 999" by (simp only: nt_value_def e mult_1)
  show ?thesis unfolding nt_float_def v using powi_10_999 by (simp only: fround_overflow numtext.simps)
qed

end
