(* ===== verification/Utf8.thy ===== *)
theory Utf8
  imports PyText
begin

section \<open>UTF-8\<close>

text \<open>
  \<open>str.encode('utf-8')\<close> and \<open>bytes.decode('utf-8')\<close> in strict mode: surrogates cannot be
  encoded; overlong forms, surrogates, stray continuation bytes and values past U+10FFFF are
  refused on decoding. Encoding and decoding are inverse on scalar values, in both directions.
\<close>

definition is_scalar :: "nat \<Rightarrow> bool" where
  "is_scalar c \<longleftrightarrow> c < 55296 \<or> (57344 \<le> c \<and> c \<le> 1114111)"

definition utf8_char :: "nat \<Rightarrow> nat list" where
  "utf8_char c =
     (if c < 128 then [c]
      else if c < 2048 then [192 + c div 64, 128 + c mod 64]
      else if c < 65536 then [224 + c div 4096, 128 + c div 64 mod 64, 128 + c mod 64]
      else [240 + c div 262144, 128 + c div 4096 mod 64, 128 + c div 64 mod 64, 128 + c mod 64])"

definition utf8_bytes :: "ustr \<Rightarrow> bytes" where
  "utf8_bytes s = map of_nat (concat (map utf8_char s))"

definition utf8_encode :: "ustr \<Rightarrow> bytes res" where
  "utf8_encode s = (if list_all is_scalar s then Inr (utf8_bytes s) else Inl UnicodeError)"

definition is_cont :: "nat \<Rightarrow> bool" where
  "is_cont b \<longleftrightarrow> 128 \<le> b \<and> b < 192"

text \<open>The value of a multi-byte sequence with lead byte \<open>a\<close>, and the bytes after it.\<close>

definition utf8_tail :: "nat \<Rightarrow> nat list \<Rightarrow> (nat \<times> nat list) option" where
  "utf8_tail a r =
     (if 194 \<le> a \<and> a < 224 then
        (case r of b # r1 \<Rightarrow>
           if is_cont b then Some ((a - 192) * 64 + (b - 128), r1) else None
         | _ \<Rightarrow> None)
      else if 224 \<le> a \<and> a < 240 then
        (case r of b # c # r1 \<Rightarrow>
           let v = (a - 224) * 4096 + (b - 128) * 64 + (c - 128)
           in if is_cont b \<and> is_cont c \<and> 2048 \<le> v \<and> is_scalar v then Some (v, r1) else None
         | _ \<Rightarrow> None)
      else if 240 \<le> a \<and> a < 245 then
        (case r of b # c # d # r1 \<Rightarrow>
           let v = (a - 240) * 262144 + (b - 128) * 4096 + (c - 128) * 64 + (d - 128)
           in if is_cont b \<and> is_cont c \<and> is_cont d \<and> 65536 \<le> v \<and> is_scalar v
              then Some (v, r1) else None
         | _ \<Rightarrow> None)
      else None)"

lemma utf8_tail_shorter: "utf8_tail a r = Some (v, r') \<Longrightarrow> length r' < length r"
  by (auto simp: utf8_tail_def Let_def split: if_splits list.splits)

function utf8_scan :: "nat list \<Rightarrow> ustr option" where
  "utf8_scan [] = Some []"
| "utf8_scan (a # r) =
     (if a < 128 then map_option ((#) a) (utf8_scan r)
      else case utf8_tail a r of None \<Rightarrow> None
           | Some (v, r') \<Rightarrow> map_option ((#) v) (utf8_scan r'))"
  by pat_completeness auto
termination
  by (relation "measure length") (auto dest: utf8_tail_shorter)

definition utf8_decode :: "bytes \<Rightarrow> ustr res" where
  "utf8_decode b = or_raise UnicodeError (utf8_scan (map unat b))"

subsection \<open>Decoding what was encoded\<close>

lemma utf8_char_small: "is_scalar c \<Longrightarrow> b \<in> set (utf8_char c) \<Longrightarrow> b < 256"
  by (auto simp: utf8_char_def is_scalar_def split: if_splits)

text \<open>Base-64 digits of a code point.\<close>

lemma div_4096: "(c::nat) div 4096 = c div 64 div 64"
  using div_mult2_eq [of c 64 64] by simp

lemma div_262144: "(c::nat) div 262144 = c div 64 div 64 div 64"
  using div_mult2_eq [of c 4096 64] by (simp add: div_4096)

lemma join3: "a * 64 + b = q \<Longrightarrow> q * 64 + z = c \<Longrightarrow> a * 4096 + b * 64 + z = (c::nat)"
  by simp

lemma join4: "a * 4096 + b * 64 + z = q \<Longrightarrow> q * 64 + w = c \<Longrightarrow> a * 262144 + b * 4096 + z * 64 + w = (c::nat)"
  by simp

lemma split3: "(c::nat) div 4096 * 4096 + (c div 64 mod 64) * 64 + c mod 64 = c"
  unfolding div_4096 by (rule join3 [of _ _ "c div 64"]) simp_all

lemma split4:
  "(c::nat) div 262144 * 262144 + (c div 4096 mod 64) * 4096 + (c div 64 mod 64) * 64 + c mod 64 = c"
  unfolding div_4096 div_262144
  by (rule join4 [of _ _ _ "c div 64"], rule join3 [of _ _ "c div 64 div 64"]) simp_all

lemma base64_digit: "y < 64 \<Longrightarrow> (m * 64 + y) div 64 = m" "y < 64 \<Longrightarrow> (m * 64 + y) mod 64 = (y::nat)"
  by simp_all

lemma utf8_scan_char:
  assumes "is_scalar c"
  shows "utf8_scan (utf8_char c @ r) = map_option ((#) c) (utf8_scan r)"
proof -
  consider "c < 128" | "128 \<le> c" "c < 2048" | "2048 \<le> c" "c < 65536" | "65536 \<le> c" "c \<le> 1114111"
    using assms unfolding is_scalar_def by linarith
  then show ?thesis
  proof cases
    case 1
    then show ?thesis by (simp add: utf8_char_def)
  next
    case 2
    have "c div 64 * 64 + c mod 64 = c" by simp
    moreover have "2 \<le> c div 64" "c div 64 < 32" using 2 by auto
    ultimately show ?thesis using 2 by (simp add: utf8_char_def utf8_tail_def is_cont_def)
  next
    case 3
    have "c div 4096 * 4096 + (c div 64 mod 64) * 64 + c mod 64 = c"
      by (simp add: split3)
    moreover have "c div 4096 < 16" using 3 by auto
    ultimately show ?thesis using 3 assms
      by (simp add: utf8_char_def utf8_tail_def is_cont_def Let_def)
  next
    case 4
    have "c div 262144 * 262144 + (c div 4096 mod 64) * 4096 + (c div 64 mod 64) * 64 + c mod 64 = c"
      by (simp add: split4)
    moreover have "c div 262144 < 5" using 4 by auto
    ultimately show ?thesis using 4 assms
      by (simp add: utf8_char_def utf8_tail_def is_cont_def Let_def)
  qed
qed

lemma utf8_scan_concat: "list_all is_scalar s \<Longrightarrow> utf8_scan (concat (map utf8_char s)) = Some s"
  by (induction s) (simp_all add: utf8_scan_char)

lemma map_unat_of_nat: "(\<And>b. b \<in> set xs \<Longrightarrow> b < 256) \<Longrightarrow> map (unat \<circ> (of_nat :: nat \<Rightarrow> byte)) xs = xs"
  by (induction xs) (auto simp: unat_of_nat)

lemma utf8_decode_bytes: "list_all is_scalar s \<Longrightarrow> utf8_decode (utf8_bytes s) = Inr s"
proof -
  assume s: "list_all is_scalar s"
  then have "map (unat \<circ> (of_nat :: nat \<Rightarrow> byte)) (concat (map utf8_char s)) = concat (map utf8_char s)"
    by (intro map_unat_of_nat) (auto simp: list_all_iff dest: utf8_char_small)
  with s show ?thesis
    by (simp add: utf8_decode_def utf8_bytes_def utf8_scan_concat)
qed

interpretation utf8: codec utf8_bytes utf8_decode "list_all is_scalar"
  by unfold_locales (rule utf8_decode_bytes)

lemma utf8_encode_decode: "utf8_encode s = Inr b \<Longrightarrow> utf8_decode b = Inr s"
  by (auto simp: utf8_encode_def utf8.roundtrip split: if_splits)

subsection \<open>Encoding what was decoded\<close>

lemma is_contE: "is_cont b \<Longrightarrow> \<exists>y. b = 128 + y \<and> y < 64"
  by (rule exI [of _ "b - 128"]) (auto simp: is_cont_def)

lemma utf8_char2: "2 \<le> x \<Longrightarrow> x < 32 \<Longrightarrow> y < 64 \<Longrightarrow> utf8_char (x * 64 + y) = [192 + x, 128 + y]"
  by (simp add: utf8_char_def)

lemma utf8_char3:
  assumes "y < 64" "z < 64" "x < 16" "2048 \<le> x * 4096 + y * 64 + z"
  shows "utf8_char (x * 4096 + y * 64 + z) = [224 + x, 128 + y, 128 + z]"
proof -
  let ?v = "x * 4096 + y * 64 + z"
  have v: "?v = (x * 64 + y) * 64 + z" by simp
  have "?v div 64 = x * 64 + y" "?v mod 64 = z"
    unfolding v by (rule base64_digit [OF assms(2)])+
  moreover from this have "?v div 4096 = x" by (simp only: div_4096 base64_digit assms)
  ultimately show ?thesis using assms by (simp add: utf8_char_def)
qed

lemma utf8_char4:
  assumes "y < 64" "z < 64" "w < 64" "65536 \<le> x * 262144 + y * 4096 + z * 64 + w"
  shows "utf8_char (x * 262144 + y * 4096 + z * 64 + w) = [240 + x, 128 + y, 128 + z, 128 + w]"
proof -
  let ?v = "x * 262144 + y * 4096 + z * 64 + w"
  have v: "?v = ((x * 64 + y) * 64 + z) * 64 + w" by simp
  have d: "?v div 64 = (x * 64 + y) * 64 + z" "?v mod 64 = w"
    unfolding v by (rule base64_digit [OF assms(3)])+
  have "?v div 4096 = x * 64 + y" "?v div 262144 = x" "?v div 64 mod 64 = z"
    by (simp_all only: div_4096 div_262144 d base64_digit assms)
  moreover from this have "?v div 4096 mod 64 = y" by (simp only: base64_digit assms)
  ultimately show ?thesis using assms d by (simp add: utf8_char_def)
qed

lemma utf8_tail_char:
  assumes tail: "utf8_tail a r = Some (v, r')"
  shows "utf8_char v @ r' = a # r \<and> is_scalar v"
proof -
  consider (two) "194 \<le> a" "a < 224" | (three) "224 \<le> a" "a < 240" | (four) "240 \<le> a" "a < 245"
    using tail by (auto simp: utf8_tail_def split: if_splits)
  then show ?thesis
  proof cases
    case two
    define x where "x = a - 192"
    with two have x: "a = 192 + x" "2 \<le> x" "x < 32" by auto
    with tail obtain b where b: "r = b # r'" "is_cont b" "v = x * 64 + (b - 128)"
      by (auto simp: utf8_tail_def split: if_splits list.splits)
    from is_contE [OF b(2)] obtain y where "b = 128 + y" "y < 64" by blast
    with x b show ?thesis by (simp add: utf8_char2 is_scalar_def)
  next
    case three
    define x where "x = a - 224"
    with three have x: "a = 224 + x" "x < 16" by auto
    with tail obtain b c where r: "r = b # c # r'" "is_cont b" "is_cont c" "2048 \<le> v" "is_scalar v"
      and v: "v = x * 4096 + (b - 128) * 64 + (c - 128)"
      by (auto simp: utf8_tail_def Let_def split: if_splits list.splits)
    from is_contE [OF r(2)] is_contE [OF r(3)] obtain y z
      where "b = 128 + y" "y < 64" "c = 128 + z" "z < 64" by blast
    with x r v show ?thesis using utf8_char3 [of y z x] by simp
  next
    case four
    define x where "x = a - 240"
    with four have x: "a = 240 + x" by auto
    with four tail obtain b c d where r: "r = b # c # d # r'" "is_cont b" "is_cont c" "is_cont d"
        "65536 \<le> v" "is_scalar v"
      and v: "v = x * 262144 + (b - 128) * 4096 + (c - 128) * 64 + (d - 128)"
      by (auto simp: utf8_tail_def Let_def split: if_splits list.splits)
    from is_contE [OF r(2)] is_contE [OF r(3)] is_contE [OF r(4)] obtain y z w
      where "b = 128 + y" "y < 64" "c = 128 + z" "z < 64" "d = 128 + w" "w < 64" by blast
    with x r v show ?thesis using utf8_char4 [of y z w x] by simp
  qed
qed

lemma utf8_scan_sound:
  "utf8_scan b = Some s \<Longrightarrow> concat (map utf8_char s) = b \<and> list_all is_scalar s"
proof (induction b arbitrary: s rule: utf8_scan.induct)
  case 1
  then show ?case by simp
next
  case (2 a r)
  show ?case
  proof (cases "a < 128")
    case True
    with 2 show ?thesis by (auto simp: utf8_char_def is_scalar_def)
  next
    case False
    with 2 obtain v r' t where t: "utf8_tail a r = Some (v, r')" "utf8_scan r' = Some t" "s = v # t"
      by (auto split: option.splits)
    with 2(2) [OF False t(1) refl t(2)] utf8_tail_char [OF t(1)]
    show ?thesis by auto
  qed
qed

lemma utf8_decode_sound:
  assumes "utf8_decode b = Inr s"
  shows "utf8_encode s = Inr b"
  using assms utf8_scan_sound [of "map unat b" s]
  by (auto simp: utf8_decode_def utf8_encode_def utf8_bytes_def res_simps comp_def)

lemma utf8_decode_inj: "utf8_decode a = Inr s \<Longrightarrow> utf8_decode b = Inr s \<Longrightarrow> a = b"
  by (metis utf8_decode_sound sum.inject(2))

text \<open>ASCII text: the encoding is the text itself.\<close>

lemma utf8_bytes_append: "utf8_bytes (s @ t) = utf8_bytes s @ utf8_bytes t"
  by (simp add: utf8_bytes_def)

lemma scalar_ascii: "c < 128 \<Longrightarrow> is_scalar c"
  by (simp add: is_scalar_def)

end
