(* ===== verification/Json.thy ===== *)
theory Json
  imports PyFloat Utf8
begin

section \<open>JSON as Python reads and writes it\<close>

text \<open>
  \<open>json.loads\<close> and \<open>json.dumps\<close>. Objects keep their members in order, as Python dictionaries
  do. The reader follows the scanner of the standard library: strict strings, surrogate pairs of
  escapes joined, numbers with a fraction or exponent read as floats, others as integers of at
  most 4300 digits. \<open>strict\<close> selects the two hooks the tools install (\<open>pairs\<close> refuses a
  duplicate key when an object closes, \<open>parse_constant\<close> refuses \<open>NaN\<close> and the infinities);
  without them the later value of a duplicate key wins and the constants are floats.
  Nesting is bounded only by the length of the text: the interpreter's recursion limit is not
  modelled. The reader spends one unit of fuel per call and at most two calls start at the same
  character, so twice the length of the text is enough fuel (\<open>reader_fuel\<close>).
\<close>

datatype json =
    JNull
  | JBool bool
  | JInt int
  | JFloat pyfloat
  | JStr ustr
  | JArr "json list"
  | JObj "(ustr \<times> json) list"

subsection \<open>Reading\<close>

definition is_ws :: "nat \<Rightarrow> bool" where
  "is_ws c \<longleftrightarrow> c = 32 \<or> c = 9 \<or> c = 10 \<or> c = 13"

definition skip_ws :: "ustr \<Rightarrow> ustr" where
  "skip_ws s = dropWhile is_ws s"

definition expect :: "nat \<Rightarrow> ustr \<Rightarrow> ustr option" where
  "expect c s = (case s of x # r \<Rightarrow> if x = c then Some r else None | [] \<Rightarrow> None)"

definition hex_value :: "nat \<Rightarrow> nat option" where
  "hex_value c =
     (if is_digit c then Some (c - 48)
      else if 97 \<le> c \<and> c \<le> 102 then Some (c - 87)
      else if 65 \<le> c \<and> c \<le> 70 then Some (c - 55) else None)"

fun hex4 :: "ustr \<Rightarrow> (nat \<times> ustr) option" where
  "hex4 (a # b # c # d # r) =
     (case (hex_value a, hex_value b, hex_value c, hex_value d) of
        (Some w, Some x, Some y, Some z) \<Rightarrow> Some (((w * 16 + x) * 16 + y) * 16 + z, r)
      | _ \<Rightarrow> None)"
| "hex4 _ = None"

definition is_high :: "nat \<Rightarrow> bool" where
  "is_high v \<longleftrightarrow> 55296 \<le> v \<and> v \<le> 56319"

definition is_low :: "nat \<Rightarrow> bool" where
  "is_low v \<longleftrightarrow> 56320 \<le> v \<and> v \<le> 57343"

definition junicode :: "ustr \<Rightarrow> (nat \<times> ustr) option" where
  "junicode t =
     (case hex4 t of None \<Rightarrow> None
      | Some (v, t1) \<Rightarrow>
          if is_high v \<and> starts_with t1 [92, 117] then
            (case hex4 (drop 2 t1) of None \<Rightarrow> None
             | Some (w, t2) \<Rightarrow>
                 if is_low w then Some (65536 + (v - 55296) * 1024 + (w - 56320), t2) else Some (v, t1))
          else Some (v, t1))"

text \<open>One escape sequence, after its backslash.\<close>

definition jescape :: "ustr \<Rightarrow> (nat \<times> ustr) option" where
  "jescape s =
     (case s of [] \<Rightarrow> None
      | e # r \<Rightarrow>
          if e = 34 \<or> e = 92 \<or> e = 47 then Some (e, r)
          else if e = 98 then Some (8, r)
          else if e = 102 then Some (12, r)
          else if e = 110 then Some (10, r)
          else if e = 114 then Some (13, r)
          else if e = 116 then Some (9, r)
          else if e = 117 then junicode r
          else None)"

lemma hex4_shorter: "hex4 t = Some (v, r) \<Longrightarrow> length r < length t"
  by (induction t rule: hex4.induct) (auto split: option.splits)

lemma junicode_shorter: "junicode t = Some (v, r) \<Longrightarrow> length r < length t"
  by (auto simp: junicode_def split: option.splits if_splits dest!: hex4_shorter)

lemma jescape_shorter: "jescape s = Some (v, r) \<Longrightarrow> length r < length s"
  by (auto simp: jescape_def split: list.splits if_splits dest: junicode_shorter)

text \<open>A string after its opening quote, up to and including the closing one.\<close>

function jstring :: "ustr \<Rightarrow> (ustr \<times> ustr) res" where
  "jstring [] = Inl JSONDecodeError"
| "jstring (c # r) =
     (if c = 34 then Inr ([], r)
      else if c = 92 then
        (case jescape r of None \<Rightarrow> Inl JSONDecodeError
         | Some (v, r') \<Rightarrow> rbind (jstring r') (\<lambda>(t, q). Inr (v # t, q)))
      else if c < 32 then Inl JSONDecodeError
      else rbind (jstring r) (\<lambda>(t, q). Inr (c # t, q)))"
  by pat_completeness auto
termination
  by (relation "measure length") (auto dest: jescape_shorter)

text \<open>The object hook of the tools.\<close>

fun pairs_from :: "ustr list \<Rightarrow> (ustr \<times> json) list \<Rightarrow> (ustr \<times> json) list res" where
  "pairs_from seen [] = Inr []"
| "pairs_from seen ((key, v) # items) =
     guard (key \<notin> set seen) (u ''duplicate JSON key: '' @ key)
       (rbind (pairs_from (key # seen) items) (\<lambda>d. Inr ((key, v) # d)))"

definition pairs :: "(ustr \<times> json) list \<Rightarrow> (ustr \<times> json) list res" where
  "pairs items = pairs_from [] items"

definition object_hook :: "bool \<Rightarrow> (ustr \<times> json) list \<Rightarrow> (ustr \<times> json) list res" where
  "object_hook strict items =
     (if strict then pairs items else Inr (foldl (\<lambda>d (k, v). dput k v d) [] items))"

definition constant_hook :: "bool \<Rightarrow> pyfloat \<Rightarrow> json res" where
  "constant_hook strict x =
     (if strict then Inl (ValueError (u ''nonfinite JSON number'')) else Inr (JFloat x))"

definition jnumber :: "ustr \<Rightarrow> (json \<times> ustr) res" where
  "jnumber s =
     (case scan_number s of None \<Rightarrow> Inl JSONDecodeError
      | Some (t, r) \<Rightarrow>
          if nt_frac t = [] \<and> nt_exp t = None then
            rbind (py_int ((if nt_neg t then [45] else []) @ nt_int t)) (\<lambda>i. Inr (JInt i, r))
          else Inr (JFloat (nt_float t), r))"

definition jconstant :: "bool \<Rightarrow> ustr \<Rightarrow> (json \<times> ustr) res" where
  "jconstant strict s =
     (if starts_with s (u ''null'') then Inr (JNull, drop 4 s)
      else if starts_with s (u ''true'') then Inr (JBool True, drop 4 s)
      else if starts_with s (u ''false'') then Inr (JBool False, drop 5 s)
      else if starts_with s (u ''NaN'') then rbind (constant_hook strict FNan) (\<lambda>v. Inr (v, drop 3 s))
      else if starts_with s (u ''Infinity'') then
        rbind (constant_hook strict (FInf False)) (\<lambda>v. Inr (v, drop 8 s))
      else if starts_with s (u ''-Infinity'') then
        rbind (constant_hook strict (FInf True)) (\<lambda>v. Inr (v, drop 9 s))
      else jnumber s)"

fun jvalue :: "bool \<Rightarrow> nat \<Rightarrow> ustr \<Rightarrow> (json \<times> ustr) res"
  and jelements :: "bool \<Rightarrow> nat \<Rightarrow> ustr \<Rightarrow> (json list \<times> ustr) res"
  and jmembers :: "bool \<Rightarrow> nat \<Rightarrow> ustr \<Rightarrow> ((ustr \<times> json) list \<times> ustr) res"
where
  "jvalue strict 0 s = Inl OutOfFuel"
| "jvalue strict (Suc n) s =
     (case s of [] \<Rightarrow> Inl JSONDecodeError
      | c # r \<Rightarrow>
          if c = 34 then rbind (jstring r) (\<lambda>(t, q). Inr (JStr t, q))
          else if c = 123 then
            (case expect 125 (skip_ws r) of
               Some q \<Rightarrow> rbind (object_hook strict []) (\<lambda>d. Inr (JObj d, q))
             | None \<Rightarrow> rbind (jmembers strict n (skip_ws r))
                 (\<lambda>(items, q). rbind (object_hook strict items) (\<lambda>d. Inr (JObj d, q))))
          else if c = 91 then
            (case expect 93 (skip_ws r) of
               Some q \<Rightarrow> Inr (JArr [], q)
             | None \<Rightarrow> rbind (jelements strict n (skip_ws r)) (\<lambda>(vs, q). Inr (JArr vs, q)))
          else jconstant strict s)"
| "jelements strict 0 s = Inl OutOfFuel"
| "jelements strict (Suc n) s =
     rbind (jvalue strict n s) (\<lambda>(v, q).
       case expect 93 (skip_ws q) of
         Some q' \<Rightarrow> Inr ([v], q')
       | None \<Rightarrow>
           (case expect 44 (skip_ws q) of
              None \<Rightarrow> Inl JSONDecodeError
            | Some q' \<Rightarrow> rbind (jelements strict n (skip_ws q')) (\<lambda>(vs, z). Inr (v # vs, z))))"
| "jmembers strict 0 s = Inl OutOfFuel"
| "jmembers strict (Suc n) s =
     (case expect 34 s of None \<Rightarrow> Inl JSONDecodeError
      | Some r \<Rightarrow>
          rbind (jstring r) (\<lambda>(k, q).
            case expect 58 (skip_ws q) of None \<Rightarrow> Inl JSONDecodeError
            | Some q1 \<Rightarrow>
                rbind (jvalue strict n (skip_ws q1)) (\<lambda>(v, q2).
                  case expect 125 (skip_ws q2) of
                    Some q3 \<Rightarrow> Inr ([(k, v)], q3)
                  | None \<Rightarrow>
                      (case expect 44 (skip_ws q2) of
                         None \<Rightarrow> Inl JSONDecodeError
                       | Some q3 \<Rightarrow>
                           rbind (jmembers strict n (skip_ws q3)) (\<lambda>(ms, z). Inr ((k, v) # ms, z))))))"

definition loads :: "bool \<Rightarrow> ustr \<Rightarrow> json res" where
  "loads strict s =
     (if starts_with s [65279] then Inl JSONDecodeError
      else rbind (jvalue strict (Suc (2 * length s)) (skip_ws s)) (\<lambda>(v, r).
        if skip_ws r = [] then Inr v else Inl JSONDecodeError))"

definition decode :: "bytes \<Rightarrow> json res" where
  "decode data = rbind (utf8_decode data) (loads True)"

subsection \<open>Writing\<close>

record dump_style =
  ds_ascii :: bool
  ds_item :: ustr
  ds_key :: ustr

definition compact_style :: dump_style where \<comment> \<open>\<open>ensure_ascii=False, separators=(',', ':')\<close>\<close>
  "compact_style = \<lparr>ds_ascii = False, ds_item = [44], ds_key = [58]\<rparr>"

definition plain_style :: dump_style where \<comment> \<open>\<open>ensure_ascii=False\<close>\<close>
  "plain_style = \<lparr>ds_ascii = False, ds_item = [44, 32], ds_key = [58, 32]\<rparr>"

definition ascii_style :: dump_style where \<comment> \<open>no arguments\<close>
  "ascii_style = \<lparr>ds_ascii = True, ds_item = [44, 32], ds_key = [58, 32]\<rparr>"

definition hex_lower :: "nat \<Rightarrow> nat" where
  "hex_lower n = (if n < 10 then 48 + n else 87 + n)"

definition escape_unit :: "nat \<Rightarrow> ustr" where
  "escape_unit c =
     [92, 117, hex_lower (c div 4096 mod 16), hex_lower (c div 256 mod 16),
      hex_lower (c div 16 mod 16), hex_lower (c mod 16)]"

definition escape_char :: "bool \<Rightarrow> nat \<Rightarrow> ustr" where
  "escape_char ascii c =
     (if c = 34 then [92, 34] else if c = 92 then [92, 92]
      else if c = 10 then [92, 110] else if c = 13 then [92, 114] else if c = 9 then [92, 116]
      else if c = 12 then [92, 102] else if c = 8 then [92, 98]
      else if c < 32 then escape_unit c
      else if ascii \<and> 126 < c then
        (if c < 65536 then escape_unit c
         else escape_unit (55296 + (c - 65536) div 1024) @ escape_unit (56320 + (c - 65536) mod 1024))
      else [c])"

definition dump_string :: "bool \<Rightarrow> ustr \<Rightarrow> ustr" where
  "dump_string ascii s = 34 # concat (map (escape_char ascii) s) @ [34]"

fun dump_float :: "pyfloat \<Rightarrow> ustr" where
  "dump_float (FInf neg) = (if neg then u ''-Infinity'' else u ''Infinity'')"
| "dump_float FNan = u ''NaN''"
| "dump_float x = frepr x"

fun dumps :: "dump_style \<Rightarrow> json \<Rightarrow> ustr" where
  "dumps st JNull = u ''null''"
| "dumps st (JBool b) = (if b then u ''true'' else u ''false'')"
| "dumps st (JInt i) = str_int i"
| "dumps st (JFloat x) = dump_float x"
| "dumps st (JStr s) = dump_string (ds_ascii st) s"
| "dumps st (JArr vs) = [91] @ join (ds_item st) (map (dumps st) vs) @ [93]"
| "dumps st (JObj ms) =
     [123] @ join (ds_item st) (map (\<lambda>(k, v). dump_string (ds_ascii st) k @ ds_key st @ dumps st v) ms) @ [125]"

text \<open>\<open>json.dumps(v, ensure_ascii=False, indent=2)\<close>: one member or element per line.\<close>

definition newline :: "nat \<Rightarrow> ustr" where
  "newline level = 10 # replicate (2 * level) 32"

fun dumps_indent :: "nat \<Rightarrow> json \<Rightarrow> ustr" where
  "dumps_indent l (JArr vs) =
     (if vs = [] then u ''[]''
      else [91] @ newline (l + 1) @ join (44 # newline (l + 1)) (map (dumps_indent (l + 1)) vs) @ newline l @ [93])"
| "dumps_indent l (JObj ms) =
     (if ms = [] then u ''{}''
      else [123] @ newline (l + 1) @
        join (44 # newline (l + 1)) (map (\<lambda>(k, v). dump_string False k @ [58, 32] @ dumps_indent (l + 1) v) ms) @
        newline l @ [125])"
| "dumps_indent l v = dumps plain_style v"

text \<open>\<open>json.dumps(v, ensure_ascii=False, indent=2) + '\n'\<close>\<close>

definition pretty :: "json \<Rightarrow> ustr" where
  "pretty v = dumps_indent 0 v @ [10]"

text \<open>\<open>json.dumps(v, allow_nan=False)\<close> raises ValueError at a nonfinite number.\<close>

fun jfinite :: "json \<Rightarrow> bool" where
  "jfinite (JFloat x) = isfinite x"
| "jfinite (JArr vs) = list_all jfinite vs"
| "jfinite (JObj ms) = list_all (\<lambda>(k, v). jfinite v) ms"
| "jfinite _ = True"

definition finite_text :: "json \<Rightarrow> (json \<Rightarrow> ustr) \<Rightarrow> ustr res" where
  "finite_text v write = guard (jfinite v) (u ''Out of range float values are not JSON compliant'') (Inr (write v))"

abbreviation compact :: "json \<Rightarrow> ustr" where
  "compact \<equiv> dumps compact_style"

subsection \<open>The reader never runs out of fuel\<close>

lemma skip_ws_le: "length (skip_ws s) \<le> length s"
  by (simp add: skip_ws_def length_dropWhile_le)

lemma expect_Some: "expect c s = Some r \<longleftrightarrow> s = c # r"
  by (auto simp: expect_def split: list.splits)

lemma expect_skip: "expect c (skip_ws s) = Some r \<Longrightarrow> length r < length s"
  using skip_ws_le [of s] by (simp add: expect_Some)

lemma jstring_shorter: "jstring s = Inr (t, r) \<Longrightarrow> length r < length s"
proof (induction s arbitrary: t rule: jstring.induct)
  case (2 c s)
  then show ?case
    by (auto simp: res_simps split: if_splits option.splits dest: jescape_shorter)
       (meson jescape_shorter less_SucI less_trans)
qed simp

lemma jstring_fuel: "jstring s \<noteq> Inl OutOfFuel"
  by (induction s rule: jstring.induct) (auto simp: res_simps split: option.splits prod.splits)

lemma pairs_from_fuel: "pairs_from seen items \<noteq> Inl OutOfFuel"
  by (induction seen items rule: pairs_from.induct) (auto simp: res_simps)

lemma object_hook_fuel: "object_hook strict items \<noteq> Inl OutOfFuel"
  by (simp add: object_hook_def pairs_def pairs_from_fuel)

lemma drop_while_shorter: "length (dropWhile p s) \<le> length s"
  by (rule length_dropWhile_le)

lemma scan_number_shorter: "scan_number s = Some (t, r) \<Longrightarrow> length r < length s"
proof -
  assume scan: "scan_number s = Some (t, r)"
  have int: "length r1 < length z" if "scan_int z = Some (ip, r1)" for z ip r1
    using that length_dropWhile_le [of is_digit "tl z"]
    by (auto simp: scan_int_def split: list.splits if_splits)
  have frac: "length r2 \<le> length z" if "scan_frac z = (fp, r2)" for z fp r2
    using that length_dropWhile_le [of is_digit "tl z"]
    by (auto simp: scan_frac_def split: list.splits if_splits)
  have sign: "length r2 \<le> length z" if "scan_sign z = (n, r2)" for z n r2
    using that by (auto simp: scan_sign_def split: list.splits if_splits)
  have exp: "length r2 \<le> length z" if scan: "scan_exp z = (ex, r2)" for z ex r2
  proof (cases z)
    case Nil
    with scan show ?thesis by (simp add: scan_exp_def)
  next
    case (Cons c y)
    obtain n y' where y': "scan_sign y = (n, y')" by (cases "scan_sign y")
    with scan Cons sign [OF y'] length_dropWhile_le [of is_digit y'] show ?thesis
      by (auto simp: scan_exp_def split: if_splits)
  qed
  let ?s = "if starts_with s (u ''-'') then tl s else s"
  from scan obtain ip r1 fp r2 ex where parts: "scan_int ?s = Some (ip, r1)" "scan_frac r1 = (fp, r2)"
      "scan_exp r2 = (ex, r)"
    by (auto simp: scan_number_def Let_def split: option.splits prod.splits)
  have "length ?s \<le> length s" by simp
  with int [OF parts(1)] frac [OF parts(2)] exp [OF parts(3)] show ?thesis by linarith
qed

lemma jconstant_shorter: "jconstant strict s = Inr (v, r) \<Longrightarrow> length r < length s"
  by (auto simp: jconstant_def jnumber_def constant_hook_def res_simps starts_with_iff
           split: if_splits option.splits dest: scan_number_shorter)

lemma jconstant_fuel: "jconstant strict s \<noteq> Inl OutOfFuel"
  by (auto simp: jconstant_def jnumber_def constant_hook_def py_int_def Let_def res_simps
           split: if_splits option.splits)

lemma reader_shorter:
  "jvalue strict n s = Inr (v, r) \<Longrightarrow> length r < length s"
  "jelements strict n s = Inr (vs, r) \<Longrightarrow> length r < length s"
  "jmembers strict n s = Inr (ms, r) \<Longrightarrow> length r < length s"
proof (induction n arbitrary: s v vs ms r)
  case 0
  { case 1 then show ?case by simp next case 2 then show ?case by simp next case 3 then show ?case by simp }
next
  case (Suc n)
  note IH = Suc.IH
  {
    case 1
    then obtain c q where s: "s = c # q" by (cases s) auto
    show ?case
    proof (cases "c = 34 \<or> c = 123 \<or> c = 91")
      case False
      with 1 s show ?thesis by (auto dest: jconstant_shorter)
    next
      case True
      with 1 s show ?thesis
        using skip_ws_le [of q]
        by (auto simp: res_simps split: option.splits dest!: jstring_shorter expect_skip IH(2,3))
    qed
  next
    case 2
    then obtain w q where v: "jvalue strict n s = Inr (w, q)" and
      rest: "expect 93 (skip_ws q) = Some r \<or>
        (\<exists>q' ws. expect 44 (skip_ws q) = Some q' \<and> jelements strict n (skip_ws q') = Inr (ws, r))"
      by (auto simp: res_simps split: option.splits)
    from rest have "length r < length q"
      by (auto dest!: expect_skip IH(2)) (meson less_le_trans less_trans skip_ws_le)
    with IH(1) [OF v] show ?case by simp
  next
    case 3
    then obtain k q1 q2 q3 w q where s: "expect 34 s = Some q1" and k: "jstring q1 = Inr (k, q2)"
      and colon: "expect 58 (skip_ws q2) = Some q3" and v: "jvalue strict n (skip_ws q3) = Inr (w, q)" and
      rest: "expect 125 (skip_ws q) = Some r \<or>
        (\<exists>q' ws. expect 44 (skip_ws q) = Some q' \<and> jmembers strict n (skip_ws q') = Inr (ws, r))"
      by (auto simp: res_simps split: option.splits)
    from rest have "length r < length q"
      by (auto dest!: expect_skip IH(3)) (meson less_le_trans less_trans skip_ws_le)
    moreover have "length q1 < length s" using s by (simp add: expect_Some)
    ultimately show ?case
      using IH(1) [OF v] jstring_shorter [OF k] expect_skip [OF colon] skip_ws_le [of q3] by linarith
  }
qed

lemma reader_fuel:
  "2 * length s < n \<Longrightarrow> jvalue strict n s \<noteq> Inl OutOfFuel"
  "2 * length s + 1 < n \<Longrightarrow> jelements strict n s \<noteq> Inl OutOfFuel"
  "2 * length s < n \<Longrightarrow> jmembers strict n s \<noteq> Inl OutOfFuel"
proof (induction n arbitrary: s)
  case 0
  { case 1 then show ?case by simp next case 2 then show ?case by simp next case 3 then show ?case by simp }
next
  case (Suc n)
  note IH = Suc.IH
  {
    case 1
    show ?case
    proof (cases s)
      case Nil
      then show ?thesis by simp
    next
      case (Cons c q)
      then have "2 * length (skip_ws q) + 1 < n" using 1 skip_ws_le [of q] by simp
      then have "jmembers strict n (skip_ws q) \<noteq> Inl OutOfFuel"
        "jelements strict n (skip_ws q) \<noteq> Inl OutOfFuel"
        using IH by auto
      with Cons show ?thesis
        by (auto simp: res_simps jstring_fuel object_hook_fuel jconstant_fuel split: option.splits)
    qed
  next
    case 2
    then have v: "jvalue strict n s \<noteq> Inl OutOfFuel" using IH(1) by simp
    have "jelements strict n (skip_ws q') \<noteq> Inl OutOfFuel"
      if "jvalue strict n s = Inr (w, q)" "expect 44 (skip_ws q) = Some q'" for w q q'
      using IH(2) [of "skip_ws q'"] 2 reader_shorter(1) [OF that(1)] expect_skip [OF that(2)] skip_ws_le [of q']
      by simp
    with v show ?case by (auto simp: res_simps split: option.splits)
  next
    case 3
    have v: "jvalue strict n (skip_ws q3) \<noteq> Inl OutOfFuel"
      and m: "jvalue strict n (skip_ws q3) = Inr (w, q) \<Longrightarrow> expect 44 (skip_ws q) = Some q' \<Longrightarrow>
        jmembers strict n (skip_ws q') \<noteq> Inl OutOfFuel"
      if "s = 34 # q1" "jstring q1 = Inr (k, q2)" "expect 58 (skip_ws q2) = Some q3"
      for q1 k q2 q3 w q q'
    proof -
      have len: "length (skip_ws q3) + 2 < length s"
        using that(1) jstring_shorter [OF that(2)] expect_skip [OF that(3)] skip_ws_le [of q3] by simp
      then show "jvalue strict n (skip_ws q3) \<noteq> Inl OutOfFuel" using IH(1) 3 by simp
      assume "jvalue strict n (skip_ws q3) = Inr (w, q)" "expect 44 (skip_ws q) = Some q'"
      then have "length (skip_ws q') < length (skip_ws q3)"
        by (meson reader_shorter(1) expect_skip skip_ws_le le_less_trans less_trans)
      with len show "jmembers strict n (skip_ws q') \<noteq> Inl OutOfFuel" using IH(3) 3 by simp
    qed
    then show ?case by (auto simp: res_simps expect_Some jstring_fuel split: option.splits)
  }
qed

lemma loads_fuel: "loads strict s \<noteq> Inl OutOfFuel"
proof -
  have "2 * length (skip_ws s) < Suc (2 * length s)" using skip_ws_le [of s] by simp
  then have "jvalue strict (Suc (2 * length s)) (skip_ws s) \<noteq> Inl OutOfFuel" by (rule reader_fuel(1))
  then show ?thesis by (auto simp: loads_def res_simps split: prod.splits)
qed

lemma decode_fuel: "decode data \<noteq> Inl OutOfFuel"
  by (auto simp: decode_def res_simps loads_fuel utf8_decode_def)

subsection \<open>Reading back what was written\<close>

lemma hex_value_lower: "n < 16 \<Longrightarrow> hex_value (hex_lower n) = Some n"
  by (auto simp: hex_value_def hex_lower_def is_digit_def)

lemma hex_value_mod: "hex_value (hex_lower (n mod 16)) = Some (n mod 16)"
  by (simp add: hex_value_lower)

lemma split_hex: "(c::nat) < 65536 \<Longrightarrow>
  (((c div 4096 mod 16) * 16 + c div 256 mod 16) * 16 + c div 16 mod 16) * 16 + c mod 16 = c"
proof -
  assume c: "c < 65536"
  have d: "c div 256 = c div 16 div 16" "c div 4096 = c div 16 div 16 div 16"
    using div_mult2_eq [of c 16 16] div_mult2_eq [of c 256 16] by simp_all
  have "c div 4096 < 16" using c by (simp add: div_less_iff_less_mult)
  then have "c div 16 div 16 div 16 mod 16 = c div 16 div 16 div 16" by (simp only: d mod_less)
  moreover have "c div 16 div 16 div 16 * 16 + c div 16 div 16 mod 16 = c div 16 div 16"
    "c div 16 div 16 * 16 + c div 16 mod 16 = c div 16" "c div 16 * 16 + c mod 16 = c" by simp_all
  ultimately show ?thesis by (simp only: d)
qed

lemma hex4_escape: "c < 65536 \<Longrightarrow> hex4 (drop 2 (escape_unit c) @ q) = Some (c, q)"
  by (simp only: escape_unit_def drop_Suc_Cons drop_0 numeral_2_eq_2 append.simps hex4.simps
      hex_value_mod option.case prod.case split_hex)

lemma escape_unit_shape: "escape_unit c = 92 # 117 # drop 2 (escape_unit c)"
  by (simp add: escape_unit_def)

lemma jescape_unit:
  assumes "c < 65536" "\<not> is_high c"
  shows "jescape (117 # drop 2 (escape_unit c) @ q) = Some (c, q)"
  using assms by (simp add: jescape_def junicode_def hex4_escape)

lemma jescape_pair:
  assumes "is_high v" "is_low w" "v < 65536" "w < 65536"
  shows "jescape (117 # drop 2 (escape_unit v) @ escape_unit w @ q) =
    Some (65536 + (v - 55296) * 1024 + (w - 56320), q)"
proof -
  have "starts_with (escape_unit w @ q) [92, 117]" by (subst escape_unit_shape) simp
  moreover have "drop 2 (escape_unit w @ q) = drop 2 (escape_unit w) @ q"
    by (simp add: escape_unit_def)
  ultimately show ?thesis using assms
    by (simp add: jescape_def junicode_def hex4_escape)
qed

definition char_ok :: "bool \<Rightarrow> nat \<Rightarrow> bool" where
  "char_ok ascii c \<longleftrightarrow> (ascii \<longrightarrow> is_scalar c)"

lemma jstring_char:
  assumes ok: "char_ok ascii c"
  shows "jstring (escape_char ascii c @ q) = rbind (jstring q) (\<lambda>(t, r). Inr (c # t, r))"
proof -
  have unit: "jstring (escape_unit d @ q) = rbind (jstring q) (\<lambda>(t, r). Inr (d # t, r))"
    if "d < 65536" "\<not> is_high d" for d
    using that by (subst escape_unit_shape) (simp add: jescape_unit)
  have other: "escape_char ascii c =
      (if c < 32 then escape_unit c
       else if ascii \<and> 126 < c then
         (if c < 65536 then escape_unit c
          else escape_unit (55296 + (c - 65536) div 1024) @ escape_unit (56320 + (c - 65536) mod 1024))
       else [c])" if "c \<notin> {34, 92, 10, 13, 9, 12, 8}"
    using that by (simp add: escape_char_def)
  consider (named) "c \<in> {34, 92, 10, 13, 9, 12, 8}"
    | (ctl) "c < 32" "escape_char ascii c = escape_unit c"
    | (uni) "32 \<le> c" "ascii" "c < 65536" "escape_char ascii c = escape_unit c"
    | (astral) "ascii" "65536 \<le> c"
        "escape_char ascii c = escape_unit (55296 + (c - 65536) div 1024) @ escape_unit (56320 + (c - 65536) mod 1024)"
    | (raw) "escape_char ascii c = [c]" "32 \<le> c" "c \<noteq> 34" "c \<noteq> 92"
    using other by (cases "c \<in> {34, 92, 10, 13, 9, 12, 8}"; cases "c < 32"; cases "ascii \<and> 126 < c"; cases "c < 65536") auto
  then show ?thesis
  proof cases
    case named
    then show ?thesis by (auto simp: escape_char_def jescape_def)
  next
    case raw
    then show ?thesis by simp
  next
    case ctl
    then show ?thesis by (simp add: unit is_high_def)
  next
    case uni
    then have "\<not> is_high c" using ok by (auto simp: char_ok_def is_scalar_def is_high_def)
    with uni show ?thesis by (simp add: unit)
  next
    case astral
    define k where "k = c - 65536"
    define v where "v = 55296 + k div 1024"
    define w where "w = 56320 + k mod 1024"
    have c: "c = 65536 + k" using astral by (simp add: k_def)
    have "k < 1048576" using ok astral by (simp add: char_ok_def is_scalar_def k_def)
    then have vw: "is_high v" "is_low w" "v < 65536" "w < 65536"
      by (auto simp: v_def w_def is_high_def is_low_def)
    have sum: "65536 + (v - 55296) * 1024 + (w - 56320) = c" by (simp add: v_def w_def c)
    have "escape_char ascii c = escape_unit v @ escape_unit w" using astral by (simp add: v_def w_def k_def)
    moreover have "escape_unit v = 92 # 117 # drop 2 (escape_unit v)" by (rule escape_unit_shape)
    ultimately have "escape_char ascii c @ q = 92 # 117 # drop 2 (escape_unit v) @ escape_unit w @ q"
      by (metis append_Cons append_assoc)
    then show ?thesis using jescape_pair [OF vw, of q] sum by simp
  qed
qed

lemma jstring_dump:
  assumes "list_all (char_ok ascii) s"
  shows "jstring (concat (map (escape_char ascii) s) @ 34 # r) = Inr (s, r)"
  using assms by (induction s) (simp_all add: jstring_char)

lemma jstring_dump_string:
  assumes "list_all (char_ok ascii) s"
  shows "\<exists>q. dump_string ascii s @ r = 34 # q \<and> jstring q = Inr (s, r)"
  using jstring_dump [OF assms, of r] by (simp add: dump_string_def)

text \<open>The values that survive a round trip, and the styles of the tools.\<close>

fun jvalid :: "bool \<Rightarrow> json \<Rightarrow> bool" where
  "jvalid ascii (JInt i) = int_printable i"
| "jvalid ascii (JFloat x) = (isfinite x \<and> fcanon x)"
| "jvalid ascii (JStr s) = list_all (char_ok ascii) s"
| "jvalid ascii (JArr vs) = list_all (jvalid ascii) vs"
| "jvalid ascii (JObj ms) =
     (distinct (map fst ms) \<and> list_all (\<lambda>(k, v). list_all (char_ok ascii) k \<and> jvalid ascii v) ms)"
| "jvalid ascii _ = True"

definition style_ok :: "dump_style \<Rightarrow> bool" where
  "style_ok st \<longleftrightarrow> ds_item st \<in> {[44], [44, 32]} \<and> ds_key st \<in> {[58], [58, 32]}"

lemma style_ok_styles [simp]: "style_ok compact_style" "style_ok plain_style" "style_ok ascii_style"
  by (simp_all add: style_ok_def compact_style_def plain_style_def ascii_style_def)

text \<open>The first character of a written value: never white space, a closing bracket or a comma.\<close>

definition value_start :: "nat \<Rightarrow> bool" where
  "value_start c \<longleftrightarrow> c = 34 \<or> c = 91 \<or> c = 123 \<or> c = 45 \<or> c = 110 \<or> c = 116 \<or> c = 102 \<or> is_digit c"

lemma num_text_start:
  assumes "numtext_ok t"
  shows "\<exists>c r. num_text t = c # r \<and> (c = 45 \<or> is_digit c)"
proof (cases "nt_int t")
  case Nil
  with assms show ?thesis by (auto simp: numtext_ok_def re_natural_def re_digits_def u_def)
next
  case (Cons c cs)
  with assms have "is_digit c" by (auto simp: numtext_ok_def re_natural_def re_digits_def u_def is_digit_def)
  with Cons show ?thesis by (simp add: num_text_def)
qed

definition int_num :: "int \<Rightarrow> numtext" where
  "int_num i = \<lparr>nt_neg = i < 0, nt_int = str_nat (nat \<bar>i\<bar>), nt_frac = [], nt_exp = None\<rparr>"

lemma int_num_ok [simp]: "numtext_ok (int_num i)"
  by (simp add: numtext_ok_def int_num_def)

lemma str_int_num: "str_int i = num_text (int_num i)"
  by (simp add: str_int_def num_text_def int_num_def)

lemma frepr_not_int: "isfinite x \<Longrightarrow> \<exists>t. frepr x = num_text t \<and> numtext_ok t \<and> \<not> (nt_frac t = [] \<and> nt_exp t = None)"
proof (cases x)
  case (FFin s m e)
  have "\<not> (nt_frac (layout s c p) = [] \<and> nt_exp (layout s c p) = None)" for c p
    by (auto simp: layout_def Let_def)
  then have "\<not> (nt_frac (frepr_num s m e) = [] \<and> nt_exp (frepr_num s m e) = None)"
    by (auto simp: frepr_num_def split: option.splits prod.splits)
  with FFin frepr_num_ok show ?thesis by auto
qed simp_all

lemma dumps_start:
  assumes "jvalid (ds_ascii st) v"
  shows "\<exists>c r. dumps st v = c # r \<and> value_start c"
proof (cases v)
  case (JInt i)
  then show ?thesis using num_text_start [OF int_num_ok, of i]
    by (auto simp: str_int_num value_start_def)
next
  case (JFloat x)
  with assms have "isfinite x" by simp
  then obtain t where t: "frepr x = num_text t" "numtext_ok t" using frepr_not_int by blast
  with \<open>isfinite x\<close> JFloat num_text_start [OF t(2)] show ?thesis
    by (cases x) (auto simp: value_start_def)
qed (auto simp: value_start_def dump_string_def u_def)

lemma value_start_ws: "value_start c \<Longrightarrow> skip_ws (c # r) = c # r"
  by (auto simp: skip_ws_def is_ws_def value_start_def is_digit_def)

lemma value_start_close: "value_start c \<Longrightarrow> c \<noteq> 93 \<and> c \<noteq> 125 \<and> c \<noteq> 44"
  by (auto simp: value_start_def is_digit_def)

lemma pairs_from_distinct:
  "distinct (map fst ms) \<Longrightarrow> set seen \<inter> fst ` set ms = {} \<Longrightarrow> pairs_from seen ms = Inr ms"
proof (induction ms arbitrary: seen)
  case (Cons m ms)
  then show ?case by (cases m) force
qed simp

lemma foldl_dput_distinct:
  "distinct (map fst ms) \<Longrightarrow> fst ` set d \<inter> fst ` set ms = {} \<Longrightarrow> foldl (\<lambda>d (k, v). dput k v d) d ms = d @ ms"
proof (induction ms arbitrary: d)
  case (Cons m ms)
  obtain k v where m: "m = (k, v)" by (cases m)
  have "dput k v d = d @ [(k, v)]" if "k \<notin> fst ` set d"
    using that by (induction d) auto
  with Cons m show ?case by auto
qed simp

lemma object_hook_distinct: "distinct (map fst ms) \<Longrightarrow> object_hook strict ms = Inr ms"
  by (simp add: object_hook_def pairs_def pairs_from_distinct foldl_dput_distinct)

lemma jconstant_number:
  assumes "numtext_ok t" "num_delim r"
  shows "jconstant strict (num_text t @ r) = jnumber (num_text t @ r)"
proof -
  obtain c q where c: "num_text t = c # q" "c = 45 \<or> is_digit c" using num_text_start [OF assms(1)] by blast
  have not_inf: "\<not> starts_with (num_text t @ r) (u ''-Infinity'')"
  proof
    assume "starts_with (num_text t @ r) (u ''-Infinity'')"
    then obtain z where z: "num_text t @ r = u ''-Infinity'' @ z" by (auto simp: starts_with_iff)
    have "scan_number (u ''-Infinity'' @ z) = None"
      by (simp add: scan_number_def scan_int_def u_def is_digit_def)
    with scan_number_text [OF assms] z show False by simp
  qed
  have "\<not> starts_with (num_text t @ r) (u ''null'')" "\<not> starts_with (num_text t @ r) (u ''true'')"
    "\<not> starts_with (num_text t @ r) (u ''false'')" "\<not> starts_with (num_text t @ r) (u ''NaN'')"
    "\<not> starts_with (num_text t @ r) (u ''Infinity'')"
    using c by (auto simp: u_def is_digit_def)
  with not_inf show ?thesis by (simp add: jconstant_def)
qed

lemma jvalue_number:
  assumes "numtext_ok t" "num_delim r"
  shows "jvalue strict (Suc n) (num_text t @ r) = jnumber (num_text t @ r)"
proof -
  obtain c q where c: "num_text t = c # q" "c = 45 \<or> is_digit c" using num_text_start [OF assms(1)] by blast
  then have "c \<noteq> 34" "c \<noteq> 123" "c \<noteq> 91" by (auto simp: is_digit_def)
  with c show ?thesis using jconstant_number [OF assms] by simp
qed

lemma jnumber_int: "int_printable i \<Longrightarrow> num_delim r \<Longrightarrow> jnumber (str_int i @ r) = Inr (JInt i, r)"
  using py_int_str_int [of i]
  by (simp add: jnumber_def str_int_num scan_number_text)
     (cases "i < 0"; simp add: int_num_def str_int_def num_text_def)

lemma jnumber_float:
  assumes "isfinite x" "fcanon x" "num_delim r"
  shows "jnumber (frepr x @ r) = Inr (JFloat x, r)"
proof -
  obtain t where t: "frepr x = num_text t" "numtext_ok t" "\<not> (nt_frac t = [] \<and> nt_exp t = None)"
    using frepr_not_int [OF assms(1)] by blast
  have "nt_float t = x"
    using float_of_text_frepr [OF assms(1,2)] float_of_num_text [OF t(2)] t(1) by simp
  with t show ?thesis using scan_number_text [OF t(2) assms(3)] by (auto simp: jnumber_def)
qed

lemma num_delim_sep: "num_delim (44 # r)" "num_delim (93 # r)" "num_delim (125 # r)"
  by (simp_all add: num_delim_def is_digit_def)

text \<open>
  What the induction says of one written value: its text starts like a value, and with enough fuel the
  reader consumes exactly the text. The texts between values are white space, so the compact, the plain
  and the indented layout are instances of the same lemmas.
\<close>

definition reads :: "bool \<Rightarrow> ustr \<Rightarrow> json \<Rightarrow> bool" where
  "reads strict t v \<longleftrightarrow> (\<exists>c q. t = c # q \<and> value_start c) \<and>
     (\<forall>n r. num_delim r \<longrightarrow> 2 * length (t @ r) < n \<longrightarrow> jvalue strict n (t @ r) = Inr (v, r))"

lemma readsD: "reads strict t v \<Longrightarrow> num_delim r \<Longrightarrow> 2 * length (t @ r) < n \<Longrightarrow> jvalue strict n (t @ r) = Inr (v, r)"
  by (simp add: reads_def)

lemma readsE:
  assumes "reads strict t v"
  obtains c q where "t = c # q" "value_start c"
  using assms by (auto simp: reads_def)

text \<open>A value that takes one unit of fuel.\<close>

lemma reads_atom:
  assumes "t = c # q" "value_start c" "\<And>j r. num_delim r \<Longrightarrow> jvalue strict (Suc j) (t @ r) = Inr (v, r)"
  shows "reads strict t v"
  unfolding reads_def
proof (intro conjI allI impI)
  fix n r
  assume "num_delim r" "2 * length (t @ r) < n"
  then show "jvalue strict n (t @ r) = Inr (v, r)" using assms(3) by (cases n) auto
qed (use assms(1,2) in blast)

abbreviation blank :: "ustr \<Rightarrow> bool" where
  "blank w \<equiv> list_all is_ws w"

lemma skip_blank [simp]: "blank w \<Longrightarrow> skip_ws (w @ s) = skip_ws s"
  by (induction w) (simp_all add: skip_ws_def)

lemma reads_skip: "reads strict t v \<Longrightarrow> skip_ws (t @ r) = t @ r"
  by (erule readsE) (simp add: value_start_ws)

lemma num_delim_blank: "blank w \<Longrightarrow> c \<in> {44, 93, 125} \<Longrightarrow> num_delim (w @ c # r)"
  by (cases w) (auto simp: num_delim_def is_ws_def is_digit_def)

lemma skip_ws_close [simp]: "skip_ws (93 # r) = 93 # r" "skip_ws (125 # r) = 125 # r" "skip_ws (44 # r) = 44 # r"
  "skip_ws (58 # r) = 58 # r" "skip_ws (34 # r) = 34 # r"
  by (simp_all add: skip_ws_def is_ws_def)

lemma expect_simps [simp]: "expect c (x # r) = (if x = c then Some r else None)"
  by (simp add: expect_def)

lemma join_Cons: "join sep (p # ps) = (if ps = [] then p else p @ sep @ join sep ps)"
  by (cases ps) simp_all

lemma elements_read:
  assumes "blank w" "blank z" "ps \<noteq> []" "\<And>t v. (t, v) \<in> set ps \<Longrightarrow> reads strict t v"
    and "2 * length (join (44 # w) (map fst ps) @ z @ 93 # r) + 1 < n"
  shows "jelements strict n (join (44 # w) (map fst ps) @ z @ 93 # r) = Inr (map snd ps, r)"
  using assms(3-)
proof (induction ps arbitrary: n)
  case (Cons p ps)
  obtain t v where p: "p = (t, v)" by (cases p)
  then have v: "reads strict t v" using Cons.prems(2) by simp
  obtain k where n: "n = Suc k" using Cons.prems(3) by (cases n) auto
  show ?case
  proof (cases "ps = []")
    case True
    with n p Cons.prems(3) readsD [OF v num_delim_blank [OF assms(2), of 93]] assms(2) show ?thesis by simp
  next
    case False
    let ?rest = "join (44 # w) (map fst ps) @ z @ 93 # r"
    obtain t' v' where "hd ps = (t', v')" by (cases "hd ps")
    then have "reads strict t' v'" "\<exists>s. ?rest = t' @ s"
      using False Cons.prems(2) [of t' v'] by (cases ps; auto simp: join_Cons)+
    then have skip: "skip_ws (w @ ?rest) = ?rest" using assms(1) reads_skip by auto
    obtain c q where "t = c # q" by (rule readsE [OF v])
    then have "jelements strict k ?rest = Inr (map snd ps, r)" using Cons.prems n p False by (intro Cons.IH) (auto simp: join_Cons)
    moreover have "jvalue strict k (t @ 44 # w @ ?rest) = Inr (v, 44 # w @ ?rest)"
      using Cons.prems(3) n p False by (intro readsD [OF v]) (auto simp: join_Cons num_delim_sep)
    ultimately show ?thesis using n p False skip by (simp add: join_Cons)
  qed
qed simp

definition member_text :: "bool \<Rightarrow> ustr \<Rightarrow> ustr \<times> ustr \<Rightarrow> ustr" where
  "member_text ascii y = (\<lambda>(k, t). dump_string ascii k @ 58 # y @ t)"

lemma member_text: "member_text ascii y (k, t) @ r = 34 # concat (map (escape_char ascii) k) @ 34 # 58 # y @ t @ r"
  by (simp add: member_text_def dump_string_def)

lemma members_read:
  assumes "blank w" "blank y" "blank z" "ps \<noteq> []"
    and "\<And>k t v. (k, t, v) \<in> set ps \<Longrightarrow> reads strict t v \<and> list_all (char_ok ascii) k"
    and "2 * length (join (44 # w) (map (\<lambda>(k, t, v). member_text ascii y (k, t)) ps) @ z @ 125 # r) < n"
  shows "jmembers strict n (join (44 # w) (map (\<lambda>(k, t, v). member_text ascii y (k, t)) ps) @ z @ 125 # r) =
    Inr (map (\<lambda>(k, t, v). (k, v)) ps, r)"
  using assms(4-)
proof (induction ps arbitrary: n)
  case (Cons p ps)
  let ?texts = "\<lambda>ps. join (44 # w) (map (\<lambda>(k, t, v). member_text ascii y (k, t)) ps) @ z @ 125 # r"
  obtain k t v where p: "p = (k, t, v)" by (cases p)
  then have v: "reads strict t v" and k: "list_all (char_ok ascii) k" using Cons.prems(2) [of k t v] by auto
  obtain j where n: "n = Suc j" using Cons.prems(3) by (cases n) auto
  have head: "jmembers strict (Suc j) (member_text ascii y (k, t) @ s) =
      rbind (jvalue strict j (t @ s)) (\<lambda>(v, q2).
        case expect 125 (skip_ws q2) of
          Some q3 \<Rightarrow> Inr ([(k, v)], q3)
        | None \<Rightarrow> (case expect 44 (skip_ws q2) of None \<Rightarrow> Inl JSONDecodeError
            | Some q3 \<Rightarrow> rbind (jmembers strict j (skip_ws q3)) (\<lambda>(ms, z). Inr ((k, v) # ms, z))))" for s
    using assms(2) by (simp add: member_text jstring_dump [OF k] reads_skip [OF v] del: jvalue.simps)
  show ?case
  proof (cases "ps = []")
    case True
    then have "?texts (p # ps) = member_text ascii y (k, t) @ z @ 125 # r" by (simp add: p)
    moreover have "jvalue strict j (t @ z @ 125 # r) = Inr (v, z @ 125 # r)"
      using Cons.prems(3) n p True by (intro readsD [OF v]) (auto simp: num_delim_blank assms(3) member_text_def)
    ultimately show ?thesis using True assms(3) by (simp only: n head) (simp add: p)
  next
    case False
    then have whole: "?texts (p # ps) = member_text ascii y (k, t) @ 44 # w @ ?texts ps" by (simp add: p join_Cons)
    have "\<exists>s. ?texts ps = 34 # s" using False by (cases ps) (auto simp: join_Cons member_text_def dump_string_def)
    then have skip: "skip_ws (w @ ?texts ps) = ?texts ps" using assms(1) by auto
    have "jmembers strict j (?texts ps) = Inr (map (\<lambda>(k, t, v). (k, v)) ps, r)"
      using Cons.prems n False unfolding whole by (intro Cons.IH) auto
    moreover have "jvalue strict j (t @ 44 # w @ ?texts ps) = Inr (v, 44 # w @ ?texts ps)"
      using Cons.prems(3) n unfolding whole by (intro readsD [OF v]) (auto simp: num_delim_sep member_text_def)
    ultimately show ?thesis unfolding whole n head by (simp add: skip p)
  qed
qed simp

lemma array_reads:
  assumes "blank b" "blank w" "blank z" "vs \<noteq> []" "\<And>v. v \<in> set vs \<Longrightarrow> reads strict (f v) v"
  shows "reads strict (91 # b @ join (44 # w) (map f vs) @ z @ [93]) (JArr vs)"
  unfolding reads_def
proof (intro conjI allI impI)
  fix n r
  let ?ps = "map (\<lambda>v. (f v, v)) vs" and ?body = "join (44 # w) (map f vs) @ z @ 93 # r"
  assume "2 * length ((91 # b @ join (44 # w) (map f vs) @ z @ [93]) @ r) < n"
  then obtain j where n: "n = Suc j" and fuel: "2 * length ?body + 1 < j" by (cases n) auto
  have elems: "jelements strict j ?body = Inr (vs, r)"
    using elements_read [OF assms(2,3), of ?ps strict r j] assms(4,5) fuel by (auto simp: comp_def)
  obtain v vs' where vs: "vs = v # vs'" using assms(4) by (cases vs) auto
  then have "\<exists>s. ?body = f v @ s" by (auto simp: join_Cons)
  then obtain s where s: "?body = f v @ s" ..
  from assms(5) [of v] vs obtain c q where c: "f v = c # q" "value_start c" by (auto elim: readsE)
  with s have "skip_ws ?body = ?body" "expect 93 ?body = None"
    using value_start_ws [OF c(2)] value_start_close [OF c(2)] by auto
  with n elems assms(1) show "jvalue strict n ((91 # b @ join (44 # w) (map f vs) @ z @ [93]) @ r) = Inr (JArr vs, r)" by simp
qed (simp add: value_start_def)

lemma object_reads:
  assumes "blank b" "blank w" "blank y" "blank z" "ms \<noteq> []" "distinct (map fst ms)"
    and "\<And>k v. (k, v) \<in> set ms \<Longrightarrow> reads strict (f v) v \<and> list_all (char_ok ascii) k"
  shows "reads strict (123 # b @ join (44 # w) (map (\<lambda>(k, v). member_text ascii y (k, f v)) ms) @ z @ [125]) (JObj ms)"
  unfolding reads_def
proof (intro conjI allI impI)
  fix n r
  let ?ps = "map (\<lambda>(k, v). (k, f v, v)) ms" and ?members = "join (44 # w) (map (\<lambda>(k, v). member_text ascii y (k, f v)) ms)"
  assume "2 * length ((123 # b @ ?members @ z @ [125]) @ r) < n"
  then obtain j where n: "n = Suc j" and fuel: "2 * length (?members @ z @ 125 # r) < j" by (cases n) auto
  have ps: "map (\<lambda>(k, t, v). member_text ascii y (k, t)) ?ps = map (\<lambda>(k, v). member_text ascii y (k, f v)) ms"
    "map (\<lambda>(k, t, v). (k, v)) ?ps = ms" by (simp_all add: comp_def case_prod_beta)
  have members: "jmembers strict j (?members @ z @ 125 # r) = Inr (ms, r)"
    by (rule members_read [OF assms(2-4), of ?ps strict ascii r j, unfolded ps]) (use assms(5,7) fuel in auto)
  have "\<exists>s. ?members @ z @ 125 # r = 34 # s" using assms(5) by (cases ms) (auto simp: join_Cons member_text_def dump_string_def)
  then have "skip_ws (?members @ z @ 125 # r) = ?members @ z @ 125 # r" "expect 125 (?members @ z @ 125 # r) = None" by auto
  moreover have "object_hook strict ms = Inr ms" using assms(6) by (simp add: object_hook_distinct)
  ultimately show "jvalue strict n ((123 # b @ ?members @ z @ [125]) @ r) = Inr (JObj ms, r)" using n members assms(1) by simp
qed (simp add: value_start_def)

lemma reads_empty: "reads strict [91, 93] (JArr [])" "reads strict [123, 125] (JObj [])"
  by (rule reads_atom [OF refl]; simp add: value_start_def object_hook_distinct)+

text \<open>Values that are no containers are written the same way in every layout.\<close>

fun atomic :: "json \<Rightarrow> bool" where
  "atomic (JArr vs) = False"
| "atomic (JObj ms) = False"
| "atomic _ = True"

lemma atom_reads:
  assumes "atomic v" "jvalid (ds_ascii st) v"
  shows "reads strict (dumps st v) v"
proof -
  obtain c q where c: "dumps st v = c # q" "value_start c" using dumps_start [OF assms(2)] by blast
  show ?thesis
  proof (rule reads_atom [OF c])
    fix j r assume r: "num_delim r"
    show "jvalue strict (Suc j) (dumps st v @ r) = Inr (v, r)"
    proof (cases v)
      case (JInt i)
      with assms r show ?thesis
        using jvalue_number [OF int_num_ok r, of strict j i] jnumber_int [OF _ r, of i] by (simp add: str_int_num)
    next
      case (JFloat x)
      with assms have x: "isfinite x" "fcanon x" by auto
      then obtain t where t: "frepr x = num_text t" "numtext_ok t" using frepr_not_int by blast
      have "dumps st (JFloat x) = frepr x" using x(1) by (cases x) auto
      with t JFloat show ?thesis using jvalue_number [OF t(2) r, of strict j] jnumber_float [OF x r] by simp
    next
      case (JStr s)
      with assms show ?thesis using jstring_dump_string [of "ds_ascii st" s r] by auto
    qed (use assms in \<open>simp_all add: u_def jconstant_def\<close>)
  qed
qed

lemma dumps_reads:
  assumes "style_ok st"
  shows "jvalid (ds_ascii st) v \<Longrightarrow> reads strict (dumps st v) v"
proof (induction v)
  case (JArr vs)
  obtain w where w: "ds_item st = 44 # w" "blank w" using assms by (auto simp: style_ok_def is_ws_def)
  from JArr array_reads [of "[]" w "[]" vs strict "dumps st"] w reads_empty(1) show ?case
    by (cases "vs = []") (auto simp: list_all_iff)
next
  case (JObj ms)
  obtain w y where w: "ds_item st = 44 # w" "ds_key st = 58 # y" "blank w" "blank y" using assms by (auto simp: style_ok_def is_ws_def)
  then have shape: "dumps st (JObj ms) = 123 # [] @ join (44 # w) (map (\<lambda>(k, v). member_text (ds_ascii st) y (k, dumps st v)) ms) @ [] @ [125]"
    by (simp add: member_text_def)
  have "reads strict (dumps st v) v \<and> list_all (char_ok (ds_ascii st)) k" if "(k, v) \<in> set ms" for k v
    using JObj that by (auto simp: list_all_iff)
  with object_reads [of "[]" w y "[]" ms strict "dumps st" "ds_ascii st"] JObj.prems w shape reads_empty(2) show ?case
    by (cases "ms = []") auto
qed (auto intro!: atom_reads simp del: dumps.simps)

lemma blank_newline [simp]: "blank (newline l)"
  by (simp add: newline_def is_ws_def list_all_iff)

lemma dumps_indent_reads: "jvalid False v \<Longrightarrow> reads strict (dumps_indent l v) v"
proof (induction v arbitrary: l)
  case (JArr vs)
  then have "reads strict (dumps_indent (l + 1) v) v" if "v \<in> set vs" for v using that by (auto simp: list_all_iff)
  with array_reads [of "newline (l + 1)" "newline (l + 1)" "newline l" vs strict "dumps_indent (l + 1)"] reads_empty(1) show ?case
    by (auto simp: u_def)
next
  case (JObj ms)
  have "reads strict (dumps_indent (l + 1) v) v \<and> list_all (char_ok False) k" if "(k, v) \<in> set ms" for k v
    using JObj that by (auto simp: list_all_iff)
  with object_reads [of "newline (l + 1)" "newline (l + 1)" "[32]" "newline l" ms strict "dumps_indent (l + 1)" False] JObj.prems reads_empty(2)
  show ?case by (auto simp: u_def member_text_def is_ws_def)
qed (auto intro!: atom_reads simp: plain_style_def simp del: dumps.simps)

lemma loads_reads:
  assumes "reads strict t v" "blank w"
  shows "loads strict (t @ w) = Inr v"
proof -
  obtain c q where c: "t = c # q" "value_start c" by (rule readsE [OF assms(1)])
  then have start: "\<not> starts_with (t @ w) [65279]" "skip_ws (t @ w) = t @ w"
    by (auto simp: value_start_ws value_start_def is_digit_def)
  have "num_delim w" using assms(2) by (cases w) (auto simp: num_delim_def is_ws_def is_digit_def)
  then have "jvalue strict (Suc (2 * length (t @ w))) (t @ w) = Inr (v, w)" by (rule readsD [OF assms(1)]) simp
  then show ?thesis using start skip_blank [OF assms(2), of "[]"] by (simp add: loads_def skip_ws_def [of "[]"])
qed

lemma loads_dumps: "style_ok st \<Longrightarrow> jvalid (ds_ascii st) v \<Longrightarrow> loads strict (dumps st v) = Inr v"
  using loads_reads [OF dumps_reads, of st v "[]"] by simp

text \<open>The tokens of the tools: compact JSON and its reader, over text.\<close>

interpretation compact_text: codec compact "loads False" "jvalid False"
  by unfold_locales (simp add: loads_dumps compact_style_def style_ok_def)

interpretation pretty_text: codec pretty "loads strict" "jvalid False" for strict
  by unfold_locales (simp add: pretty_def loads_reads dumps_indent_reads is_ws_def)

text \<open>Text whose every code point can be encoded.\<close>

fun jscalar :: "json \<Rightarrow> bool" where
  "jscalar (JStr s) = list_all is_scalar s"
| "jscalar (JArr vs) = list_all jscalar vs"
| "jscalar (JObj ms) = list_all (\<lambda>(k, v). list_all is_scalar k \<and> jscalar v) ms"
| "jscalar _ = True"

definition text_scalar :: "ustr \<Rightarrow> bool" where
  "text_scalar s = list_all is_scalar s"

lemma text_scalar_append [simp]: "text_scalar (s @ t) \<longleftrightarrow> text_scalar s \<and> text_scalar t"
  by (simp add: text_scalar_def)

lemma text_scalar_Cons [simp]: "text_scalar (c # t) \<longleftrightarrow> is_scalar c \<and> text_scalar t"
  by (simp add: text_scalar_def)

lemma text_scalar_Nil [simp]: "text_scalar []"
  by (simp add: text_scalar_def)

lemma text_scalar_ascii: "(\<And>c. c \<in> set s \<Longrightarrow> c < 128) \<Longrightarrow> text_scalar s"
  by (auto simp: text_scalar_def list_all_iff scalar_ascii)

lemma text_scalar_u_ascii: "list_all (\<lambda>c. of_char c < (128::nat)) s \<Longrightarrow> text_scalar (u s)"
  by (rule text_scalar_ascii) (auto simp: u_def list_all_iff)

lemma text_scalar_join: "text_scalar sep \<Longrightarrow> list_all text_scalar ps \<Longrightarrow> text_scalar (join sep ps)"
  by (induction sep ps rule: join.induct) auto

lemma text_scalar_digits: "list_all is_digit s \<Longrightarrow> text_scalar s"
  by (rule text_scalar_ascii) (auto simp: list_all_iff is_digit_def)

lemma text_scalar_num: "numtext_ok t \<Longrightarrow> text_scalar (num_text t)"
  by (auto simp: num_text_def numtext_ok_def re_natural_def re_digits_def is_scalar_def
           split: option.splits intro: text_scalar_digits)
     (simp_all add: u_def is_scalar_def)

lemma escape_unit_scalar: "text_scalar (escape_unit c)"
proof -
  have hex: "is_scalar (hex_lower (n mod 16))" for n
    by (auto simp: hex_lower_def is_scalar_def)
  have "c div 4096 mod 16 < 16" by simp
  show ?thesis by (simp add: escape_unit_def hex) (simp add: is_scalar_def)
qed

lemma escape_char_scalar: "is_scalar c \<Longrightarrow> text_scalar (escape_char a c)"
  by (simp add: escape_char_def escape_unit_scalar is_scalar_def)

lemma dump_string_scalar: "list_all is_scalar s \<Longrightarrow> text_scalar (dump_string a s)"
  by (induction s) (auto simp: dump_string_def escape_char_scalar is_scalar_def)

lemma dump_float_scalar: "isfinite x \<Longrightarrow> text_scalar (dump_float x)"
  using frepr_not_int [of x] by (cases x) (auto simp: text_scalar_num)

lemma dumps_scalar:
  "style_ok st \<Longrightarrow> jvalid a v \<Longrightarrow> jscalar v \<Longrightarrow> text_scalar (dumps st v)"
proof (induction v)
  case (JArr vs)
  then have "list_all text_scalar (map (dumps st) vs)" by (auto simp: list_all_iff)
  moreover have "text_scalar (ds_item st)" using JArr.prems(1) by (auto simp: style_ok_def is_scalar_def)
  ultimately show ?case by (simp add: text_scalar_join) (simp add: is_scalar_def)
next
  case (JObj ms)
  have sep: "text_scalar (ds_item st)" "text_scalar (ds_key st)"
    using JObj.prems(1) by (auto simp: style_ok_def is_scalar_def)
  then have "list_all text_scalar (map (\<lambda>(k, v). dump_string (ds_ascii st) k @ ds_key st @ dumps st v) ms)"
    using JObj by (force simp: list_all_iff dump_string_scalar)
  with sep show ?case by (simp add: text_scalar_join) (simp add: is_scalar_def)
qed (auto simp: u_def is_scalar_def str_int_num text_scalar_num dump_float_scalar dump_string_scalar)

lemma text_scalar_newline [simp]: "text_scalar (newline l)"
  by (rule text_scalar_ascii) (auto simp: newline_def)

lemma dumps_indent_scalar: "jvalid False v \<Longrightarrow> jscalar v \<Longrightarrow> text_scalar (dumps_indent l v)"
proof (induction v arbitrary: l)
  case (JArr vs)
  then have "list_all text_scalar (map (dumps_indent (l + 1)) vs)" by (auto simp: list_all_iff)
  then have "text_scalar (join (44 # newline (l + 1)) (map (dumps_indent (l + 1)) vs))"
    by (intro text_scalar_join) (simp_all add: is_scalar_def)
  then show ?case by (simp add: u_def is_scalar_def)
next
  case (JObj ms)
  then have "list_all text_scalar (map (\<lambda>(k, v). dump_string False k @ [58, 32] @ dumps_indent (l + 1) v) ms)"
    by (force simp: list_all_iff dump_string_scalar is_scalar_def)
  then have "text_scalar (join (44 # newline (l + 1)) (map (\<lambda>(k, v). dump_string False k @ [58, 32] @ dumps_indent (l + 1) v) ms))"
    by (intro text_scalar_join) (simp_all add: is_scalar_def)
  then show ?case by (simp add: u_def is_scalar_def)
qed (use dumps_scalar [of plain_style False] in \<open>simp_all del: dumps.simps\<close>)

text \<open>\<open>decode(dumps(v).encode('utf-8'))\<close> is the value.\<close>

lemma decode_dumps:
  assumes "style_ok st" "jvalid (ds_ascii st) v" "jscalar v"
  shows "decode (utf8_bytes (dumps st v)) = Inr v"
  using dumps_scalar [OF assms] loads_dumps [OF assms(1,2)]
  by (simp add: decode_def utf8.roundtrip text_scalar_def)

lemma decode_pretty: "jvalid False v \<Longrightarrow> jscalar v \<Longrightarrow> decode (utf8_bytes (pretty v)) = Inr v"
  using dumps_indent_scalar [of v 0]
  using pretty_text.roundtrip [of v True] by (simp add: decode_def text_scalar_def pretty_def utf8.roundtrip is_scalar_def)

interpretation compact_bytes: codec "\<lambda>v. utf8_bytes (compact v)" decode "\<lambda>v. jvalid False v \<and> jscalar v"
  by unfold_locales (auto intro: decode_dumps simp: compact_style_def style_ok_def)

subsection \<open>What the strict reader accepts\<close>

fun distinct_keys :: "json \<Rightarrow> bool" where
  "distinct_keys (JArr vs) = list_all distinct_keys vs"
| "distinct_keys (JObj ms) = (distinct (map fst ms) \<and> list_all (\<lambda>(k, v). distinct_keys v) ms)"
| "distinct_keys _ = True"

lemma pairs_from_sound: "pairs_from seen items = Inr d \<Longrightarrow> d = items \<and> distinct (map fst items) \<and> set seen \<inter> fst ` set items = {}"
  by (induction seen items arbitrary: d rule: pairs_from.induct) (auto simp: res_simps)

lemma object_hook_strict: "object_hook True items = Inr d \<Longrightarrow> d = items \<and> distinct (map fst items)"
  by (auto simp: object_hook_def pairs_def dest: pairs_from_sound)

lemma jconstant_distinct: "jconstant True s = Inr (v, r) \<Longrightarrow> distinct_keys v"
  by (auto simp: jconstant_def jnumber_def constant_hook_def res_simps split: if_splits option.splits)

lemma reader_distinct:
  "jvalue True n s = Inr (v, r) \<Longrightarrow> distinct_keys v"
  "jelements True n s = Inr (vs, r) \<Longrightarrow> list_all distinct_keys vs"
  "jmembers True n s = Inr (ms, r) \<Longrightarrow> list_all (\<lambda>(k, v). distinct_keys v) ms"
proof (induction n arbitrary: s v vs ms r)
  case 0
  { case 1 then show ?case by simp next case 2 then show ?case by simp next case 3 then show ?case by simp }
next
  case (Suc n)
  note IH = Suc.IH
  {
    case 1
    then obtain c q where s: "s = c # q" by (cases s) auto
    show ?case
    proof (cases "c = 34 \<or> c = 123 \<or> c = 91")
      case False
      with 1 s show ?thesis by (auto dest: jconstant_distinct)
    next
      case True
      with 1 s show ?thesis
        by (auto simp: res_simps split: option.splits dest!: object_hook_strict IH(2,3))
    qed
  next
    case 2
    then obtain w q where v: "jvalue True n s = Inr (w, q)" by (auto simp: res_simps)
    have "list_all distinct_keys vs" if "distinct_keys w"
      using 2 v that by (cases "expect 93 (skip_ws q)") (auto simp: res_simps split: option.splits dest: IH(2))
    with IH(1) [OF v] show ?case by blast
  next
    case 3
    then obtain k q1 q2 q3 w q where s: "expect 34 s = Some q1" "jstring q1 = Inr (k, q2)"
        "expect 58 (skip_ws q2) = Some q3" and v: "jvalue True n (skip_ws q3) = Inr (w, q)"
      by (auto simp: res_simps split: option.splits)
    have "list_all (\<lambda>(k, v). distinct_keys v) ms" if "distinct_keys w"
      using 3 s v that by (cases "expect 125 (skip_ws q)") (auto simp: res_simps split: option.splits dest: IH(3))
    with IH(1) [OF v] show ?case by blast
  }
qed

lemma decode_distinct: "decode data = Inr v \<Longrightarrow> distinct_keys v"
  by (auto simp: decode_def loads_def res_simps simp del: jvalue.simps split: if_splits dest!: reader_distinct(1))

subsection \<open>What the reader can raise\<close>

text \<open>The texts of its own come from the hooks of the strict mode only.\<close>

definition reader_error :: "bool \<Rightarrow> pyerr \<Rightarrow> bool" where
  "reader_error strict e \<longleftrightarrow> e \<in> {JSONDecodeError, IntDigitsError, OutOfFuel} \<or> strict \<and> is_value_error e"

lemma reader_error_simps [simp]:
  "reader_error strict JSONDecodeError" "reader_error strict IntDigitsError" "reader_error strict OutOfFuel"
  "reader_error True (ValueError m)"
  by (simp_all add: reader_error_def)

lemma jstring_raises: "raises_only (reader_error strict) (jstring s)"
  by (induction s rule: jstring.induct) (auto intro!: raises)

lemma pairs_from_raises: "raises_only (reader_error True) (pairs_from seen items)"
  by (induction seen items rule: pairs_from.induct) (auto intro!: raises)

lemma object_hook_raises: "raises_only (reader_error strict) (object_hook strict items)"
  by (cases strict) (simp_all add: object_hook_def pairs_def pairs_from_raises)

lemma jconstant_raises: "raises_only (reader_error strict) (jconstant strict s)"
  by (cases strict) (auto simp: jconstant_def jnumber_def constant_hook_def py_int_def Let_def split: option.splits intro!: raises)

lemma reader_raises:
  "raises_only (reader_error strict) (jvalue strict n s)"
  "raises_only (reader_error strict) (jelements strict n s)"
  "raises_only (reader_error strict) (jmembers strict n s)"
proof (induction n arbitrary: s)
  case 0
  { case 1 show ?case by simp next case 2 show ?case by simp next case 3 show ?case by simp }
next
  case (Suc n)
  note base = jstring_raises object_hook_raises jconstant_raises
  {
    case 1
    show ?case by (cases s) (auto intro!: raises base Suc.IH)
  next
    case 2
    show ?case by (auto intro!: raises base Suc.IH)
  next
    case 3
    show ?case by (auto intro!: raises base Suc.IH)
  }
qed

lemma loads_reader_raises: "raises_only (\<lambda>e. reader_error strict e \<and> e \<noteq> OutOfFuel) (loads strict s)"
proof -
  have "raises_only (reader_error strict) (loads strict s)"
    unfolding loads_def by (intro raises reader_raises) (auto split: prod.splits)
  then show ?thesis using loads_fuel [of strict s] by (cases "loads strict s") auto
qed

lemma loads_raises: "raises_only is_value_error (loads strict s)"
  by (rule raises_only_weaken [OF loads_reader_raises [of strict s]]) (auto simp: reader_error_def)

lemma utf8_decode_raises: "raises_only is_value_error (utf8_decode data)"
  by (auto simp: utf8_decode_def intro!: raises_or_raise)

lemma utf8_encode_raises: "raises_only is_value_error (utf8_encode s)"
  by (auto simp: utf8_encode_def)

lemma py_int_raises: "raises_only is_value_error (py_int s)"
  by (auto simp: py_int_def Let_def)

lemma char_ok_False [simp]: "char_ok False c" "list_all (char_ok False) s"
  by (simp_all add: char_ok_def list_all_iff)

lemma decode_raises: "raises_only is_value_error (decode data)"
  unfolding decode_def by (intro raises utf8_decode_raises loads_raises)

subsection \<open>Properties\<close>

lemma scan_huge: "scan_number [49,101,57,57,57] = Some (\<lparr>nt_neg = False, nt_int=[49], nt_frac=[], nt_exp = Some (False, [57,57,57])\<rparr>, [])"
  by code_simp
lemma loads_huge: "loads True [49,101,57,57,57] = Inr (JFloat (FInf False))"
proof -
  have j: "jconstant True [49,101,57,57,57] = Inr (JFloat (FInf False), [])"
    by (simp add: jconstant_def u_def jnumber_def scan_huge nt_float_huge)
  have "jvalue True (Suc (2 * length [49::nat,101,57,57,57])) [49,101,57,57,57] = Inr (JFloat (FInf False), [])"
    by (simp only: jvalue.simps j) (simp add: j)
  then show ?thesis by (simp add: loads_def skip_ws_def is_ws_def del: jvalue.simps)
qed

text \<open>What the tools write, they read: for every value without a nonfinite number, the bytes of its JSON
  decode to that value again, members in the same order, whether it is written compactly, on one line or
  indented over lines.\<close>

theorem decode_roundtrip:
  assumes "jvalid False v" "jscalar v"
  shows "decode (utf8_bytes (compact v)) = Inr v \<and> decode (utf8_bytes (dumps plain_style v)) = Inr v \<and>
    decode (utf8_bytes (pretty v)) = Inr v"
  using assms compact_bytes.roundtrip [of v] decode_dumps [OF style_ok_styles(2), of v] decode_pretty [of v]
  by (simp add: plain_style_def)

theorem decode_roundtrip_witness:
  "let v = JObj [(u ''b'', JArr [JNull, JBool True]), (u ''a'', JStr [34, 233])]
   in decode (utf8_bytes (compact v)) = Inr v \<and> decode (utf8_bytes (pretty v)) = Inr v"
  using decode_roundtrip [of "JObj [(u ''b'', JArr [JNull, JBool True]), (u ''a'', JStr [34, 233])]"]
  by (simp add: Let_def u_def is_scalar_def)

text \<open>An accepted JSON document has no duplicate member name in any object, at any depth.\<close>

theorem decode_no_duplicates: "decode data = Inr v \<Longrightarrow> distinct_keys v"
  by (rule decode_distinct)

theorem decode_no_duplicates_witness: "distinct_keys (JObj [(u ''a'', JNull)])"
proof (rule decode_no_duplicates)
  show "decode (utf8_bytes (compact (JObj [(u ''a'', JNull)]))) = Inr (JObj [(u ''a'', JNull)])"
    by (rule compact_bytes.roundtrip) (simp add: u_def is_scalar_def)
qed

text \<open>The reader refuses the constant \<open>Infinity\<close> but not a literal beyond the range of a double:
  \<open>1e999\<close> is accepted as an infinity, which \<open>dumps\<close> then writes as the text the reader refuses.\<close>

theorem decode_admits_infinity:
  "decode (utf8_bytes (u ''1e999'')) = Inr (JFloat (FInf False)) \<and>
   compact (JFloat (FInf False)) = u ''Infinity'' \<and>
   decode (utf8_bytes (u ''Infinity'')) = Inl (ValueError (u ''nonfinite JSON number''))"
proof (intro conjI)
  have huge: "u ''1e999'' = [49, 101, 57, 57, 57]" by (simp add: u_def)
  have inf: "u ''Infinity'' = [73, 110, 102, 105, 110, 105, 116, 121]" by (simp add: u_def)
  show "decode (utf8_bytes (u ''1e999'')) = Inr (JFloat (FInf False))"
    unfolding decode_def huge by (subst utf8.roundtrip) (simp_all only: rbind_simps loads_huge, simp add: is_scalar_def)
  show "compact (JFloat (FInf False)) = u ''Infinity''" by simp
  let ?e = "Inl (ValueError (u ''nonfinite JSON number''))"
  have j: "jconstant True [73, 110, 102, 105, 110, 105, 116, 121] = ?e"
    by (simp add: jconstant_def constant_hook_def) (simp add: u_def)
  have "jvalue True (Suc (2 * length [73::nat, 110, 102, 105, 110, 105, 116, 121])) [73, 110, 102, 105, 110, 105, 116, 121] = ?e"
    by (simp only: jvalue.simps) (simp add: j)
  then have "loads True (u ''Infinity'') = ?e" unfolding inf
    by (simp add: loads_def skip_ws_def is_ws_def del: jvalue.simps)
  then show "decode (utf8_bytes (u ''Infinity'')) = Inl (ValueError (u ''nonfinite JSON number''))"
    unfolding decode_def by (subst utf8.roundtrip) (simp_all only: rbind_simps, simp add: inf is_scalar_def)
qed

end
