(* ===== verification/Sha256.thy ===== *)
theory Sha256
  imports Utf8
begin

unbundle bit_operations_syntax

section \<open>SHA-256\<close>

text \<open>
  \<open>hashlib.sha256(data).hexdigest()\<close>, the fingerprint every tool pins its input by: the
  published function on 32-bit words, executable. The development relies on the shape of the
  result (64 lower-case hexadecimal digits) and on the fact that equal bytes have equal
  fingerprints; it never assumes that the function is injective.
\<close>

type_synonym w32 = "32 word"
type_synonym sha_state = "w32 \<times> w32 \<times> w32 \<times> w32 \<times> w32 \<times> w32 \<times> w32 \<times> w32"

text \<open>
  The constants are what the standard defines them to be: the first 32 bits of the fractional
  parts of the cube roots of the first 64 primes, and of the square roots of the first eight.
  \<open>root_from k n i r\<close> settles the lowest \<open>i\<close> bits of the integer \<open>k\<close>-th root of \<open>n\<close>.
\<close>

fun root_from :: "nat \<Rightarrow> int \<Rightarrow> nat \<Rightarrow> int \<Rightarrow> int" where
  "root_from k n 0 r = r"
| "root_from k n (Suc i) r = root_from k n i (if (r + 2 ^ i) ^ k \<le> n then r + 2 ^ i else r)"

definition sha_primes :: "nat list" where
  "sha_primes = filter (\<lambda>n. list_all (\<lambda>d. n mod d \<noteq> 0) [2..<n]) [2..<312]"

definition sha_k :: "w32 list" where
  "sha_k = map (\<lambda>p. of_int (root_from 3 (int p * 2 ^ 96) 40 0)) sha_primes"

definition sha_init_words :: "w32 list" where
  "sha_init_words = map (\<lambda>p. of_int (root_from 2 (int p * 2 ^ 64) 40 0)) (take 8 sha_primes)"

definition sha_init :: sha_state where
  "sha_init = (case sha_init_words of [a, b, c, d, e, f, g, h] \<Rightarrow> (a, b, c, d, e, f, g, h))"

definition rotr32 :: "nat \<Rightarrow> w32 \<Rightarrow> w32" where
  "rotr32 n x = (drop_bit n x) OR (push_bit (32 - n) x)"

definition sha_ch :: "w32 \<Rightarrow> w32 \<Rightarrow> w32 \<Rightarrow> w32" where
  "sha_ch x y z = (x AND y) XOR ((NOT x) AND z)"

definition sha_maj :: "w32 \<Rightarrow> w32 \<Rightarrow> w32 \<Rightarrow> w32" where
  "sha_maj x y z = (x AND y) XOR (x AND z) XOR (y AND z)"

definition sha_Sig0 :: "w32 \<Rightarrow> w32" where
  "sha_Sig0 x = rotr32 2 x XOR rotr32 13 x XOR rotr32 22 x"

definition sha_Sig1 :: "w32 \<Rightarrow> w32" where
  "sha_Sig1 x = rotr32 6 x XOR rotr32 11 x XOR rotr32 25 x"

definition sha_sig0 :: "w32 \<Rightarrow> w32" where
  "sha_sig0 x = rotr32 7 x XOR rotr32 18 x XOR drop_bit 3 x"

definition sha_sig1 :: "w32 \<Rightarrow> w32" where
  "sha_sig1 x = rotr32 17 x XOR rotr32 19 x XOR drop_bit 10 x"

text \<open>The message schedule, newest word first, extended \<open>n\<close> times.\<close>

fun sha_schedule :: "nat \<Rightarrow> w32 list \<Rightarrow> w32 list" where
  "sha_schedule 0 ws = ws"
| "sha_schedule (Suc n) ws =
     sha_schedule n ((sha_sig1 (ws ! 1) + ws ! 6 + sha_sig0 (ws ! 14) + ws ! 15) # ws)"

fun sha_round :: "sha_state \<Rightarrow> w32 \<times> w32 \<Rightarrow> sha_state" where
  "sha_round (a, b, c, d, e, f, g, h) (k, w) =
     (let t1 = h + sha_Sig1 e + sha_ch e f g + k + w; t2 = sha_Sig0 a + sha_maj a b c
      in (t1 + t2, a, b, c, d + t1, e, f, g))"

fun sha_add :: "sha_state \<Rightarrow> sha_state \<Rightarrow> sha_state" where
  "sha_add (a, b, c, d, e, f, g, h) (a', b', c', d', e', f', g', h') =
     (a + a', b + b', c + c', d + d', e + e', f + f', g + g', h + h')"

fun sha_words :: "bytes \<Rightarrow> w32 list" where
  "sha_words (a # b # c # d # r) =
     of_nat (((unat a * 256 + unat b) * 256 + unat c) * 256 + unat d) # sha_words r"
| "sha_words _ = []"

definition sha_block :: "sha_state \<Rightarrow> bytes \<Rightarrow> sha_state" where
  "sha_block s block =
     sha_add s (foldl sha_round s (zip sha_k (rev (sha_schedule 48 (rev (sha_words block))))))"

definition sha_pad :: "bytes \<Rightarrow> bytes" where
  "sha_pad m =
     (let n = length m; bits = 8 * n
      in m @ [128] @ replicate ((119 - n mod 64) mod 64) 0 @
         map (\<lambda>i. of_nat (bits div 256 ^ i)) [7, 6, 5, 4, 3, 2, 1, 0])"

fun sha_blocks :: "nat \<Rightarrow> sha_state \<Rightarrow> bytes \<Rightarrow> sha_state" where
  "sha_blocks 0 s m = s"
| "sha_blocks (Suc n) s m = sha_blocks n (sha_block s (take 64 m)) (drop 64 m)"

definition hex_digit :: "nat \<Rightarrow> nat" where
  "hex_digit n = (if n < 10 then 48 + n else 87 + n)"

definition sha_hex :: "w32 \<Rightarrow> ustr" where
  "sha_hex w = map (\<lambda>i. hex_digit (unat w div 16 ^ i mod 16)) [7, 6, 5, 4, 3, 2, 1, 0]"

fun sha_hexdigest :: "sha_state \<Rightarrow> ustr" where
  "sha_hexdigest (a, b, c, d, e, f, g, h) =
     sha_hex a @ sha_hex b @ sha_hex c @ sha_hex d @ sha_hex e @ sha_hex f @ sha_hex g @ sha_hex h"

definition sha :: "bytes \<Rightarrow> ustr" where
  "sha data = (let m = sha_pad data in sha_hexdigest (sha_blocks (length m div 64) sha_init m))"

subsection \<open>The shape of a fingerprint\<close>

lemma hex_digit_lower: "n < 16 \<Longrightarrow> is_hex_lower (hex_digit n)"
  by (auto simp: hex_digit_def is_hex_lower_def is_digit_def)

lemma sha_hex_lower: "list_all is_hex_lower (sha_hex w)"
  by (auto simp: sha_hex_def hex_digit_lower)

lemma re_hex64_sha [simp]: "re_hex64 (sha data)"
proof -
  have "re_hex64 (sha_hexdigest s)" for s
    by (cases s rule: sha_hexdigest.cases) (simp add: re_hex64_def sha_hex_lower, simp add: sha_hex_def)
  then show ?thesis by (simp add: sha_def Let_def)
qed

text \<open>Padding always fills whole blocks, so no byte of the message is left out.\<close>

lemma sha_pad_blocks: "length (sha_pad m) mod 64 = 0"
proof -
  have "(n + 9 + (119 - n mod 64) mod 64) mod 64 = 0" for n :: nat
  proof -
    obtain q r where n: "n = q * 64 + r" "r < 64"
      by (metis div_mult_mod_eq mod_less_divisor zero_less_numeral)
    show ?thesis
    proof (cases "r \<le> 55")
      case True
      then have "119 - r = 64 + (55 - r)" by simp
      then have "(119 - r) mod 64 = 55 - r" by (simp only: mod_add_self1) simp
      with n True show ?thesis by simp
    next
      case False
      with n have "(119 - r) mod 64 = 119 - r" by simp
      moreover have "q * 64 + r + 9 + (119 - r) = (q + 2) * 64" using n by simp
      ultimately show ?thesis using n by (simp del: add_mult_distrib)
    qed
  qed
  from this [of "length m"] show ?thesis by (simp add: sha_pad_def Let_def ac_simps)
qed

end
