(* ===== verification/TextSizes.thy ===== *)
theory TextSizes
  imports Json Sha256
begin

section \<open>Encodable texts, printable numbers and the size of documents\<close>

text \<open>
  Small facts the writers share: texts without surrogates, numbers that Python prints, and bounds on the length of
  encoded texts and of written JSON.
\<close>

lemma scalar_u [simp]: "list_all is_scalar (u s)"
proof -
  have "is_scalar (of_char c)" for c :: char
  proof -
    have "(of_char c :: nat) mod 256 = of_char c" by simp
    then have "of_char c < (256::nat)" by (metis mod_less_divisor zero_less_numeral)
    then have "of_char c < (55296::nat)" by linarith
    then show ?thesis by (simp add: is_scalar_def)
  qed
  then show ?thesis by (simp add: u_def list_all_iff)
qed

lemma scalar_ascii_text: "(\<And>c. c \<in> set s \<Longrightarrow> c < 128) \<Longrightarrow> list_all is_scalar s"
  by (auto simp: list_all_iff scalar_ascii)

lemma scalar_str_nat [simp]: "list_all is_scalar (str_nat n)"
  using str_nat_digits [of n] by (intro scalar_ascii_text) (auto simp: list_all_iff is_digit_def)

lemma scalar_hex64: "re_hex64 s \<Longrightarrow> list_all is_scalar s"
  by (intro scalar_ascii_text) (auto simp: re_hex64_def list_all_iff is_hex_lower_def is_digit_def)

lemma scalar_sha [simp]: "list_all is_scalar (sha d)"
  by (rule scalar_hex64) simp

lemma char_ok_scalar [simp]: "char_ok True = is_scalar"
  by (simp add: char_ok_def fun_eq_iff)

lemma small_printable: "n \<le> 16 * 1024 * 1024 \<Longrightarrow> int_printable (int n)"
  by (rule int_printable_bound [where k = 8]) simp_all

lemma utf8_bytes_length: "length (utf8_bytes s) \<le> 4 * length s"
proof (induction s)
  case Nil
  then show ?case by (simp add: utf8_bytes_def)
next
  case (Cons c s)
  then show ?case using utf8_bytes_append [of "[c]" s] by (simp add: utf8_bytes_def utf8_char_def)
qed

fun jweight :: "json \<Rightarrow> nat" where
  "jweight JNull = 4"
| "jweight (JBool b) = 5"
| "jweight (JInt i) = length (str_int i)"
| "jweight (JFloat x) = length (dump_float x)"
| "jweight (JStr s) = 12 * length s + 2"
| "jweight (JArr vs) = 2 + sum_list (map (\<lambda>v. jweight v + 2) vs)"
| "jweight (JObj ms) = 2 + sum_list (map (\<lambda>(k, v). 12 * length k + 6 + jweight v) ms)"

lemma dump_string_length: "length (dump_string a s) \<le> 12 * length s + 2"
proof -
  have "length (escape_char a c) \<le> 12" for c by (simp add: escape_char_def escape_unit_def)
  then have "length (concat (map (escape_char a) s)) \<le> 12 * length s"
    by (induction s) (auto simp: add.commute intro: add_mono)
  then show ?thesis by (simp add: dump_string_def)
qed

lemma join_length: "length (join sep ps) \<le> sum_list (map (\<lambda>p. length p + length sep) ps)"
  by (induction sep ps rule: join.induct) simp_all

lemma dumps_size:
  assumes "length (ds_item st) \<le> 2" "length (ds_key st) \<le> 2"
  shows "length (dumps st v) \<le> jweight v"
proof (induction v)
  case (JArr vs)
  have "sum_list (map (\<lambda>p. length p + length (ds_item st)) (map (dumps st) vs)) \<le> sum_list (map (\<lambda>v. jweight v + 2) vs)"
    unfolding map_map comp_def using JArr assms(1) by (intro sum_list_mono) (metis add_mono)
  then show ?case using join_length [of "ds_item st" "map (dumps st) vs"] by simp
next
  case (JObj ms)
  let ?f = "\<lambda>(k, v). dump_string (ds_ascii st) k @ ds_key st @ dumps st v"
  have "sum_list (map (\<lambda>p. length p + length (ds_item st)) (map ?f ms)) \<le> sum_list (map (\<lambda>(k, v). 12 * length k + 6 + jweight v) ms)"
    unfolding map_map comp_def
  proof (rule sum_list_mono)
    fix m assume "m \<in> set ms"
    moreover obtain k v where "m = (k, v)" by (cases m)
    ultimately show "length (?f m) + length (ds_item st) \<le> (case m of (k, v) \<Rightarrow> 12 * length k + 6 + jweight v)"
      using JObj [of m v] dump_string_length [of "ds_ascii st" k] assms by simp
  qed
  then show ?case using join_length [of "ds_item st" "map ?f ms"] by simp
qed (use dump_string_length in \<open>auto simp: u_def\<close>)

text \<open>The same for the indented layout, from a level of indentation.\<close>

fun iweight :: "nat \<Rightarrow> json \<Rightarrow> nat" where
  "iweight l (JArr vs) = 4 * l + 6 + sum_list (map (\<lambda>v. iweight (l + 1) v + 2 * l + 4) vs)"
| "iweight l (JObj ms) = 4 * l + 6 + sum_list (map (\<lambda>(k, v). 12 * length k + iweight (l + 1) v + 2 * l + 8) ms)"
| "iweight l v = jweight v"

lemma indent_size: "length (dumps_indent l v) \<le> iweight l v"
proof (induction v arbitrary: l)
  case (JArr vs)
  let ?sep = "44 # newline (l + 1)"
  have "sum_list (map (\<lambda>p. length p + length ?sep) (map (dumps_indent (l + 1)) vs)) \<le> sum_list (map (\<lambda>v. iweight (l + 1) v + 2 * l + 4) vs)"
    unfolding map_map comp_def using JArr by (intro sum_list_mono) (simp add: newline_def)
  then show ?case using join_length [of ?sep "map (dumps_indent (l + 1)) vs"] by (simp add: newline_def u_def)
next
  case (JObj ms)
  let ?sep = "44 # newline (l + 1)" and ?f = "\<lambda>(k, v). dump_string False k @ [58, 32] @ dumps_indent (l + 1) v"
  have "sum_list (map (\<lambda>p. length p + length ?sep) (map ?f ms)) \<le> sum_list (map (\<lambda>(k, v). 12 * length k + iweight (l + 1) v + 2 * l + 8) ms)"
    unfolding map_map comp_def
  proof (rule sum_list_mono)
    fix m assume "m \<in> set ms"
    moreover obtain k v where "m = (k, v)" by (cases m)
    ultimately show "length (?f m) + length ?sep \<le> (case m of (k, v) \<Rightarrow> 12 * length k + iweight (l + 1) v + 2 * l + 8)"
      using JObj [of m v "l + 1"] dump_string_length [of False k] by (simp add: newline_def)
  qed
  then show ?case using join_length [of ?sep "map ?f ms"] by (simp add: newline_def u_def)
next
  case (JStr s)
  then show ?case using dump_string_length [of False s] by (simp add: plain_style_def)
qed (simp_all add: u_def plain_style_def)

lemma compact_size: "length (compact v) \<le> iweight l v"
proof -
  have "jweight v \<le> iweight l v"
  proof (induction v arbitrary: l)
    case (JArr vs)
    have "jweight v + 2 \<le> iweight (l + 1) v + 2 * l + 4" if "v \<in> set vs" for v using JArr [OF that, of "l + 1"] by simp
    then have "sum_list (map (\<lambda>v. jweight v + 2) vs) \<le> sum_list (map (\<lambda>v. iweight (l + 1) v + 2 * l + 4) vs)"
      by (rule sum_list_mono)
    then show ?case by simp
  next
    case (JObj ms)
    have "(case m of (k, v) \<Rightarrow> 12 * length k + 6 + jweight v) \<le> (case m of (k, v) \<Rightarrow> 12 * length k + iweight (l + 1) v + 2 * l + 8)"
      if "m \<in> set ms" for m using JObj [OF that, of "snd m" "l + 1"] by (cases m) simp
    then have "sum_list (map (\<lambda>(k, v). 12 * length k + 6 + jweight v) ms) \<le> sum_list (map (\<lambda>(k, v). 12 * length k + iweight (l + 1) v + 2 * l + 8) ms)"
      by (rule sum_list_mono)
    then show ?case by simp
  qed simp_all
  then show ?thesis using dumps_size [of compact_style v] by (simp add: compact_style_def)
qed

lemma str_nat_size: "n < 10 ^ 10 \<Longrightarrow> length (str_nat n) \<le> 10"
  using length_str_nat [of 10 n] by simp

lemma str_int_size: "0 \<le> i \<Longrightarrow> i < 10 ^ 10 \<Longrightarrow> length (str_int i) \<le> 10"
  using str_nat_size [of "nat i"] by (simp add: str_int_def)

lemma sum_list_le: "(\<And>x. x \<in> set xs \<Longrightarrow> f x \<le> b) \<Longrightarrow> length xs \<le> n \<Longrightarrow> sum_list (map f xs) \<le> n * (b::nat)"
proof -
  assume each: "\<And>x. x \<in> set xs \<Longrightarrow> f x \<le> b" and n: "length xs \<le> n"
  have "sum_list (map f xs) \<le> length xs * b" using sum_list_mono [of xs f "\<lambda>_. b"] each by (simp add: sum_list_triv)
  also have "\<dots> \<le> n * b" using n by simp
  finally show ?thesis .
qed

end
