(* ===== verification/ReviewBundle.thy ===== *)
theory ReviewBundle
  imports TextSizes
begin

section \<open>The retained review bundle (tools/coverage_review.py)\<close>

text \<open>
  The reader every tool starts from: typed access to manifest fields (\<open>number\<close>, \<open>digest\<close>,
  \<open>relative\<close>), bounded file reading, and \<open>read_bundle\<close> (the source's \<open>bundle\<close>), which opens a review ZIP, checks the
  manifest and every bundled artifact against it, and returns the bytes of the selected report.
  The bytes of the file and the ZIP directory reader are parameters: \<open>content\<close> is what reading
  the path gives, \<open>zip_open\<close> what \<open>zipfile.ZipFile\<close> makes of the bytes, member by member
  with the result of reading each member. Nothing is assumed of either.
\<close>

definition MAX_BUNDLE :: nat where "MAX_BUNDLE = 20 * 1024 * 1024"
definition MAX_REPORT :: nat where "MAX_REPORT = 1024 * 1024"
definition MAX_OUTPUT :: nat where "MAX_OUTPUT = 16 * 1024 * 1024"
definition MAX_INT64 :: int where "MAX_INT64 = 2 ^ 63 - 1"

subsection \<open>Fields\<close>

text \<open>\<open>d.get(k)\<close> on a decoded object: a missing member and \<open>null\<close> are both \<open>None\<close>.\<close>

definition jget :: "(ustr \<times> json) list \<Rightarrow> string \<Rightarrow> json" where
  "jget d k = (case dget d (u k) of None \<Rightarrow> JNull | Some v \<Rightarrow> v)"

text \<open>\<open>set(d) == {...}\<close>\<close>

definition jkeys :: "(ustr \<times> json) list \<Rightarrow> ustr set" where
  "jkeys d = set (dkeys d)"

definition jbody :: "json \<Rightarrow> (ustr \<times> json) list option" where
  "jbody v = (case v of JObj d \<Rightarrow> Some d | _ \<Rightarrow> None)"

definition jitems :: "json \<Rightarrow> json list option" where
  "jitems v = (case v of JArr xs \<Rightarrow> Some xs | _ \<Rightarrow> None)"

lemma jbody_Some [simp]: "jbody v = Some d \<longleftrightarrow> v = JObj d"
  by (cases v) (auto simp: jbody_def)

lemma jitems_Some [simp]: "jitems v = Some xs \<longleftrightarrow> v = JArr xs"
  by (cases v) (auto simp: jitems_def)

text \<open>\<open>require(isinstance(v, dict), m)\<close> and \<open>require(isinstance(v, list), m)\<close>\<close>

definition want_dict :: "json \<Rightarrow> ustr \<Rightarrow> (ustr \<times> json) list res" where
  "want_dict v m = or_raise (ValueError m) (jbody v)"

definition want_list :: "json \<Rightarrow> ustr \<Rightarrow> json list res" where
  "want_list v m = or_raise (ValueError m) (jitems v)"

lemma want_dict_Inr [res_simps]: "want_dict v m = Inr d \<longleftrightarrow> v = JObj d"
  by (auto simp: want_dict_def res_simps)

lemma want_list_Inr [res_simps]: "want_list v m = Inr xs \<longleftrightarrow> v = JArr xs"
  by (auto simp: want_list_def res_simps)

lemma want_dict_JObj [simp]: "want_dict (JObj d) m = Inr d"
  by (simp add: want_dict_def jbody_def)

lemma want_list_JArr [simp]: "want_list (JArr xs) m = Inr xs"
  by (simp add: want_list_def jitems_def)

definition number :: "json \<Rightarrow> ustr \<Rightarrow> int \<Rightarrow> int res" where
  "number value label maximum =
     rbind
       (case value of
          JInt i \<Rightarrow> Inr i
        | JStr s \<Rightarrow> guard (re_natural s) (u ''invalid '' @ label) (py_int s)
        | _ \<Rightarrow> Inl (ValueError (u ''invalid '' @ label)))
       (\<lambda>i. guard (0 \<le> i \<and> i \<le> maximum) (u ''out of range '' @ label) (Inr i))"

definition digest :: "json \<Rightarrow> ustr res" where
  "digest value =
     (case value of
        JStr s \<Rightarrow> guard (re_hex64 s) (u ''invalid SHA-256'') (Inr s)
      | _ \<Rightarrow> Inl (ValueError (u ''invalid SHA-256'')))"

definition safe_part :: "ustr \<Rightarrow> bool" where
  "safe_part part \<longleftrightarrow> part \<noteq> [] \<and> part \<noteq> u ''.'' \<and> part \<noteq> u ''..''"

definition relative :: "json \<Rightarrow> ustr res" where
  "relative value =
     (case value of
        JStr s \<Rightarrow>
          rbind (utf8_encode s) (\<lambda>b.
          guard (0 < length b \<and> length b \<le> 4096 \<and> 92 \<notin> set s \<and> 0 \<notin> set s)
            (u ''invalid relative artifact path'')
          (guard (list_all safe_part (split_on 47 s)) (u ''unsafe relative artifact path'') (Inr s)))
      | _ \<Rightarrow> Inl (ValueError (u ''invalid relative artifact path'')))"

text \<open>\<open>stream.read(maximum + 1)\<close> of a file whose content (or read error) is given.\<close>

definition read_file :: "bytes res \<Rightarrow> nat \<Rightarrow> bytes res" where
  "read_file content maximum =
     rbind content (\<lambda>c.
       let data = take (maximum + 1) c
       in guard (length data \<le> maximum) (u ''input exceeds byte bound'') (Inr data))"

subsection \<open>The archive\<close>

record zmember =
  zm_name :: ustr
  zm_compress :: nat
  zm_flags :: nat
  zm_size :: nat
  zm_read :: "bytes res"

definition is_dir :: "zmember \<Rightarrow> bool" where
  "is_dir m = ends_with (zm_name m) (u ''/'')"

text \<open>\<open>archive.getinfo(name)\<close>: the last member of that name.\<close>

definition getinfo :: "zmember list \<Rightarrow> ustr \<Rightarrow> zmember res" where
  "getinfo members name = or_raise KeyError (find (\<lambda>m. zm_name m = name) (rev members))"

definition check_member :: "unit \<Rightarrow> zmember \<Rightarrow> unit res" where
  "check_member _ item =
     guard (zm_compress item = 0 \<and> even (zm_flags item) \<and> \<not> is_dir item)
       (u ''only unencrypted stored product bundle members are supported'')
     (guard (zm_size item \<le> 16 * 1024 * 1024) (u ''bundle member exceeds bound'') (Inr ()))"

definition check_identity :: "(ustr \<times> json) list \<Rightarrow> unit \<Rightarrow> string \<Rightarrow> unit res" where
  "check_identity binding _ key =
     (case jget binding key of
        JStr s \<Rightarrow> guard (strip s \<noteq> [] \<and> length s \<le> 4096) (u ''invalid receipt identity'') (Inr ())
      | _ \<Rightarrow> Inl (ValueError (u ''invalid receipt identity'')))"

definition check_binding :: "json \<Rightarrow> unit res" where
  "check_binding value =
     rbind (want_dict value (u ''invalid retained receipt binding'')) (\<lambda>binding.
     guard (jkeys binding = {u ''protocol_version'', u ''retention_id'', u ''workspace_id'',
         u ''approval_digest'', u ''command_digest''}) (u ''invalid retained receipt binding'')
     (guard (jget binding ''protocol_version'' = JInt 1) (u ''unsupported binding protocol'')
     (rbind (fold_res (check_identity binding) () [''retention_id'', ''workspace_id'']) (\<lambda>_.
      rbind (digest (jget binding ''approval_digest'')) (\<lambda>_.
      rbind (digest (jget binding ''command_digest'')) (\<lambda>_. Inr ()))))))"

record bundle_state =
  bs_expected :: "ustr list"
  bs_total :: int
  bs_selected :: "(bytes \<times> json) option"

text \<open>The loop body over the inventory of the manifest.\<close>

definition bundle_entry ::
  "zmember list \<Rightarrow> ustr \<Rightarrow> ustr \<Rightarrow> bundle_state \<Rightarrow> json \<Rightarrow> bundle_state res" where
  "bundle_entry members report_path report_label st entry =
     rbind (want_dict entry (u ''invalid artifact entry'')) (\<lambda>e.
     rbind (relative (jget e ''relative_path'')) (\<lambda>path.
     let member = u ''artifacts/'' @ path in
     guard (member \<notin> set (bs_expected st) \<and> jget e ''kind'' = JStr (u ''RegularFile''))
       (u ''duplicate or nonregular artifact'')
     (rbind (number (jget e ''size_bytes'') (u ''artifact size'') (16 * 1024 * 1024)) (\<lambda>size.
      let total = bs_total st + size in
      guard (total \<le> 16 * 1024 * 1024) (u ''combined artifacts exceed 16 MiB'')
      (guard (member \<in> zm_name ` set members) (u ''missing or wrong-size artifact'')
      (rbind (getinfo members member) (\<lambda>info.
       guard (int (zm_size info) = size) (u ''missing or wrong-size artifact'')
       (rbind (zm_read info) (\<lambda>data.
        rbind (digest (jget e ''fingerprint'')) (\<lambda>fingerprint.
        guard (sha data = fingerprint) (u ''artifact fingerprint mismatch: '' @ member)
        (if path = report_path then
           guard (size \<le> int MAX_REPORT) (report_label @ u '' report exceeds 1 MiB'')
             (Inr \<lparr>bs_expected = bs_expected st @ [member], bs_total = total,
                   bs_selected = Some (data, entry)\<rparr>)
         else Inr (st\<lparr>bs_expected := bs_expected st @ [member], bs_total := total\<rparr>))))))))))))"

definition bundle_start :: bundle_state where
  "bundle_start = \<lparr>bs_expected = [u ''manifest.json''], bs_total = 0, bs_selected = None\<rparr>"

definition bundle_context :: "bytes \<Rightarrow> bytes \<Rightarrow> (ustr \<times> json) list \<Rightarrow> json \<Rightarrow> (ustr \<times> json) list" where
  "bundle_context raw manifest_raw manifest selected_file =
     [(u ''bundle_sha256'', JStr (sha raw)), (u ''manifest_sha256'', JStr (sha manifest_raw)),
      (u ''binding'', jget manifest ''binding''), (u ''expires_at_ms'', jget manifest ''expires_at_ms''),
      (u ''source_file'', selected_file),
      (u ''consistency'', JStr (u ''all bundled artifact bytes verified; not authenticated''))]"

definition bundle_members :: "zmember list \<Rightarrow> bytes res" where
  "bundle_members members =
     guard (2 \<le> length members \<and> length members \<le> 201) (u ''bundle requires manifest and 1..200 files'')
     (guard (distinct (map zm_name members) \<and> u ''manifest.json'' \<in> zm_name ` set members)
        (u ''duplicate member or missing manifest'')
     (rbind (fold_res check_member () members) (\<lambda>_.
      rbind (getinfo members (u ''manifest.json'')) (\<lambda>manifest_member.
      guard (zm_size manifest_member \<le> MAX_REPORT) (u ''manifest exceeds 1 MiB'')
        (zm_read manifest_member)))))"

definition bundle_manifest :: "json \<Rightarrow> ((ustr \<times> json) list \<times> json list) res" where
  "bundle_manifest value =
     rbind (want_dict value (u ''unsupported bundle manifest'')) (\<lambda>manifest.
     guard (jget manifest ''format_version'' = JInt 1) (u ''unsupported bundle manifest'')
     (guard (jget manifest ''purpose'' = JStr (u ''Review copy only; not approval or promotion''))
        (u ''unsupported bundle purpose'')
     (rbind (check_binding (jget manifest ''binding'')) (\<lambda>_.
      rbind (number (jget manifest ''expires_at_ms'') (u ''source expiry'') MAX_INT64) (\<lambda>_.
      rbind (want_list (jget manifest ''files'') (u ''invalid bundle inventory'')) (\<lambda>files.
      guard (1 \<le> length files \<and> length files \<le> 200) (u ''invalid bundle inventory'')
        (Inr (manifest, files))))))))"

definition read_bundle ::
  "(bytes \<Rightarrow> zmember list res) \<Rightarrow> bytes res \<Rightarrow> ustr \<Rightarrow> ustr \<Rightarrow> (bytes \<times> (ustr \<times> json) list) res" where
  "read_bundle zip_open content report_path report_label =
     rbind (relative (JStr report_path)) (\<lambda>_.
     rbind (read_file content MAX_BUNDLE) (\<lambda>raw.
     rbind (zip_open raw) (\<lambda>members.
     rbind (bundle_members members) (\<lambda>manifest_raw.
     rbind (decode manifest_raw) (\<lambda>value.
     rbind (bundle_manifest value) (\<lambda>(manifest, files).
     rbind (fold_res (bundle_entry members report_path report_label) bundle_start files) (\<lambda>st.
     guard (zm_name ` set members = set (bs_expected st)) (u ''unexpected bundle member'')
     (rbind (number (jget manifest ''total_bytes'') (u ''total bytes'') MAX_INT64) (\<lambda>total_bytes.
      guard (bs_total st = total_bytes) (u ''bundle byte total mismatch'')
      (case bs_selected st of
         None \<Rightarrow> Inl (ValueError (u ''selected report not in review bundle''))
       | Some (selected, selected_file) \<Rightarrow>
           Inr (selected, bundle_context raw manifest_raw manifest selected_file)))))))))))"

subsection \<open>Fields: what an accepted value looks like\<close>

lemma re_natural_canonical: "re_natural s \<Longrightarrow> str_nat (digits_value s) = s"
proof -
  have gen: "str_nat (digits_value s) = s" if "re_digits s" "hd s \<noteq> 48" for s
    using that
  proof (induction s rule: rev_induct)
    case Nil
    then show ?case by (simp add: re_digits_def)
  next
    case (snoc c s)
    have c: "is_digit c" using snoc.prems by (simp add: re_digits_def)
    show ?case
    proof (cases "s = []")
      case True
      with c show ?thesis by (auto simp: digits_value_def str_nat.simps [of "c - 48"] is_digit_def)
    next
      case False
      then have s: "re_digits s" "hd s \<noteq> 48" using snoc.prems by (auto simp: re_digits_def)
      with snoc.IH have IH: "str_nat (digits_value s) = s" by blast
      have "digits_value s \<noteq> 0"
      proof
        assume "digits_value s = 0"
        with IH have "s = u ''0''" by (simp add: str_nat_0)
        with s(2) show False by (simp add: u_def)
      qed
      then have pos: "0 < digits_value s" by simp
      from c obtain d where d: "c = 48 + d" "d < 10"
        by (auto simp: is_digit_def le_iff_add)
      have "str_nat (10 * digits_value s + d) = str_nat (digits_value s) @ [48 + d]"
        using pos d(2) by (subst str_nat.simps) simp
      then show ?thesis using d IH by (simp add: digits_value_append mult.commute)
    qed
  qed
  have zero: "str_nat (digits_value (u ''0'')) = u ''0''"
    by (simp add: digits_value_def u_def str_nat.simps)
  assume "re_natural s"
  then show "str_nat (digits_value s) = s"
    unfolding re_natural_def using zero gen by blast
qed

lemma number_range: "number v label maximum = Inr n \<Longrightarrow> 0 \<le> n \<and> n \<le> maximum"
  by (auto simp: number_def res_simps)

lemma re_natural_unsigned: "re_natural s \<Longrightarrow> \<not> starts_with s (u ''-'')"
  by (metis re_natural_canonical starts_with_minus_str_nat)

lemma number_text: "number (JStr s) label maximum = Inr n \<Longrightarrow> s = str_nat (nat n)"
  by (auto simp: number_def res_simps py_int_def Let_def re_natural_unsigned re_natural_canonical split: if_splits)

lemma number_str_nat:
  "int n \<le> maximum \<Longrightarrow> int_printable (int n) \<Longrightarrow> number (JStr (str_nat n)) label maximum = Inr (int n)"
  by (simp add: number_def py_int_def Let_def int_printable_def)

lemma digest_Inr [res_simps]: "digest v = Inr s \<longleftrightarrow> v = JStr s \<and> re_hex64 s"
  by (cases v) (auto simp: digest_def res_simps)

lemma relative_Inr: "relative v = Inr p \<Longrightarrow> v = JStr p"
  by (cases v) (auto simp: relative_def res_simps)

lemma relative_parts: "relative v = Inr p \<Longrightarrow> list_all safe_part (split_on 47 p)"
  by (cases v) (auto simp: relative_def res_simps)

lemma getinfo_Inr: "getinfo members name = Inr m \<Longrightarrow> m \<in> set members \<and> zm_name m = name"
  by (auto simp: getinfo_def res_simps find_Some_iff) (metis nth_mem set_rev length_rev)

lemma getinfo_distinct:
  assumes "distinct (map zm_name members)" "m \<in> set members"
  shows "getinfo members (zm_name m) = Inr m"
proof -
  have "getinfo members (zm_name m) \<noteq> Inl KeyError"
    using assms(2) by (auto simp: getinfo_def res_simps find_None_iff)
  then obtain m' where m': "getinfo members (zm_name m) = Inr m'"
    by (auto simp: getinfo_def or_raise_def split: option.splits)
  from getinfo_Inr [OF this] assms have "m' = m"
    by (auto simp: distinct_map inj_on_def)
  with m' show ?thesis by simp
qed

subsection \<open>Fields, exactly\<close>

text \<open>
  What the two readers of manifest fields accept: a number as an integer or as its canonical decimal
  text, and a path that names a file below the directory it is resolved in.
\<close>

definition holds_number :: "json \<Rightarrow> int \<Rightarrow> bool" where
  "holds_number v n \<longleftrightarrow> v = JInt n \<or> v = JStr (str_nat (nat n))"

lemma number_exact:
  "number value label maximum = Inr n \<longleftrightarrow>
     0 \<le> n \<and> n \<le> maximum \<and> (value = JInt n \<or> (value = JStr (str_nat (nat n)) \<and> int_printable n))"
proof
  assume ok: "number value label maximum = Inr n"
  then have range: "0 \<le> n \<and> n \<le> maximum" by (rule number_range)
  have "value = JInt n \<or> (value = JStr (str_nat (nat n)) \<and> int_printable n)"
  proof (cases "value")
    case (JInt i)
    with ok show ?thesis by (auto simp: number_def res_simps)
  next
    case (JStr s)
    with ok have s: "s = str_nat (nat n)" using number_text by blast
    with ok JStr range have "int_printable n"
      by (auto simp: number_def res_simps py_int_def Let_def int_printable_def split: if_splits)
    with JStr s show ?thesis by simp
  qed (use ok in \<open>auto simp: number_def res_simps\<close>)
  with range show "0 \<le> n \<and> n \<le> maximum \<and> (value = JInt n \<or> (value = JStr (str_nat (nat n)) \<and> int_printable n))"
    by blast
next
  assume "0 \<le> n \<and> n \<le> maximum \<and> (value = JInt n \<or> (value = JStr (str_nat (nat n)) \<and> int_printable n))"
  then show "number value label maximum = Inr n"
    using number_str_nat [of "nat n" maximum label] by (auto simp: number_def)
qed

lemma number_holds:
  assumes "maximum \<le> MAX_INT64"
  shows "number value label maximum = Inr n \<longleftrightarrow> 0 \<le> n \<and> n \<le> maximum \<and> holds_number value n"
proof -
  have "int_printable n" if "0 \<le> n" "n \<le> maximum"
    using assms that by (intro int_printable_bound [where k = 19]) (auto simp: MAX_INT64_def)
  then show ?thesis by (auto simp: number_exact holds_number_def)
qed

definition safe_path :: "ustr \<Rightarrow> bool" where
  "safe_path p \<longleftrightarrow> list_all is_scalar p \<and> length (utf8_bytes p) \<le> 4096 \<and> 92 \<notin> set p \<and> 0 \<notin> set p \<and>
     list_all safe_part (split_on 47 p)"

lemma relative_iff: "relative value = Inr p \<longleftrightarrow> value = JStr p \<and> safe_path p"
proof -
  have "utf8_bytes s \<noteq> [] \<longleftrightarrow> s \<noteq> []" for s by (cases s) (simp_all add: utf8_bytes_def utf8_char_def)
  moreover have "s \<noteq> []" if "list_all safe_part (split_on 47 s)" for s using that by (auto simp: safe_part_def)
  ultimately show ?thesis by (cases "value") (auto simp: relative_def safe_path_def res_simps utf8_encode_def split: if_splits)
qed

lemma getinfo_iff:
  "distinct (map zm_name members) \<Longrightarrow> getinfo members name = Inr m \<longleftrightarrow> m \<in> set members \<and> zm_name m = name"
  using getinfo_Inr getinfo_distinct by metis

subsection \<open>What a review bundle is\<close>

text \<open>
  A review bundle, described without the reader: stored members of bounded size with distinct names; one
  of them is the manifest, and the others are, one by one, the artifacts of its inventory, each with
  the path, the size and the SHA-256 its entry states.
\<close>

definition artifact_name :: "ustr \<Rightarrow> ustr" where
  "artifact_name path = u ''artifacts/'' @ path"

definition describes_member :: "json \<Rightarrow> zmember \<Rightarrow> bool" where
  "describes_member entry m \<longleftrightarrow>
     (\<exists>e path data. entry = JObj e \<and> jget e ''relative_path'' = JStr path \<and> safe_path path \<and> zm_name m = artifact_name path \<and>
        jget e ''kind'' = JStr (u ''RegularFile'') \<and> holds_number (jget e ''size_bytes'') (int (zm_size m)) \<and>
        zm_read m = Inr data \<and> jget e ''fingerprint'' = JStr (sha data))"

definition receipt_binding :: "json \<Rightarrow> bool" where
  "receipt_binding value \<longleftrightarrow>
     (\<exists>b. value = JObj b \<and>
        jkeys b = {u ''protocol_version'', u ''retention_id'', u ''workspace_id'', u ''approval_digest'', u ''command_digest''} \<and>
        jget b ''protocol_version'' = JInt 1 \<and>
        list_all (\<lambda>k. \<exists>s. jget b k = JStr s \<and> strip s \<noteq> [] \<and> length s \<le> 4096) [''retention_id'', ''workspace_id''] \<and>
        list_all (\<lambda>k. \<exists>s. jget b k = JStr s \<and> re_hex64 s) [''approval_digest'', ''command_digest''])"

definition inventory_of :: "(ustr \<times> json) list \<Rightarrow> json list \<Rightarrow> bool" where
  "inventory_of manifest files \<longleftrightarrow>
     jget manifest ''format_version'' = JInt 1 \<and>
     jget manifest ''purpose'' = JStr (u ''Review copy only; not approval or promotion'') \<and>
     receipt_binding (jget manifest ''binding'') \<and>
     (\<exists>t. 0 \<le> t \<and> t \<le> MAX_INT64 \<and> holds_number (jget manifest ''expires_at_ms'') t) \<and>
     jget manifest ''files'' = JArr files \<and> 1 \<le> length files \<and> length files \<le> 200"

text \<open>The same members in some order, under distinct names.\<close>

definition consists_of :: "zmember list \<Rightarrow> zmember list \<Rightarrow> bool" where
  "consists_of members parts \<longleftrightarrow>
     set members = set parts \<and> distinct (map zm_name members) \<and> distinct (map zm_name parts)"

definition review_bundle :: "zmember list \<Rightarrow> zmember \<Rightarrow> (ustr \<times> json) list \<Rightarrow> json list \<Rightarrow> zmember list \<Rightarrow> bool" where
  "review_bundle members listing manifest files artifacts \<longleftrightarrow>
     consists_of members (listing # artifacts) \<and>
     list_all (\<lambda>m. zm_compress m = 0 \<and> even (zm_flags m) \<and> \<not> is_dir m \<and> zm_size m \<le> 16 * 1024 * 1024) members \<and>
     zm_name listing = u ''manifest.json'' \<and> zm_size listing \<le> MAX_REPORT \<and>
     inventory_of manifest files \<and> list_all2 describes_member files artifacts \<and>
     sum_list (map zm_size artifacts) \<le> 16 * 1024 * 1024 \<and>
     holds_number (jget manifest ''total_bytes'') (int (sum_list (map zm_size artifacts)))"

subsection \<open>The loop over the inventory\<close>

definition content_of :: "zmember \<Rightarrow> bytes" where
  "content_of m = (case zm_read m of Inl _ \<Rightarrow> [] | Inr data \<Rightarrow> data)"

definition entry_done :: "ustr \<Rightarrow> bundle_state \<Rightarrow> json \<times> zmember \<Rightarrow> bundle_state" where
  "entry_done report_path st em = (case em of (entry, m) \<Rightarrow>
     \<lparr>bs_expected = bs_expected st @ [zm_name m], bs_total = bs_total st + int (zm_size m),
      bs_selected = (if zm_name m = artifact_name report_path then Some (content_of m, entry) else bs_selected st)\<rparr>)"

lemma bundle_entry_iff:
  assumes "distinct (map zm_name members)"
  shows "bundle_entry members report_path report_label st entry = Inr st' \<longleftrightarrow>
    (\<exists>m \<in> set members. describes_member entry m \<and> zm_name m \<notin> set (bs_expected st) \<and> zm_size m \<le> 16 * 1024 * 1024 \<and>
       bs_total st + int (zm_size m) \<le> 16 * 1024 * 1024 \<and>
       (zm_name m = artifact_name report_path \<longrightarrow> zm_size m \<le> MAX_REPORT) \<and> st' = entry_done report_path st (entry, m))"
proof -
  have "16 * 1024 * 1024 \<le> MAX_INT64" by (simp add: MAX_INT64_def)
  note size_iff = number_holds [OF this, simplified]
  show ?thesis (is "?l \<longleftrightarrow> (\<exists>m \<in> set members. ?r m)")
  proof
    assume ?l
    then obtain e path info data fp where
      e: "entry = JObj e" "relative (jget e ''relative_path'') = Inr path" "jget e ''kind'' = JStr (u ''RegularFile'')"
        "number (jget e ''size_bytes'') (u ''artifact size'') (16 * 1024 * 1024) = Inr (int (zm_size info))"
        "getinfo members (u ''artifacts/'' @ path) = Inr info" "zm_read info = Inr data"
        "jget e ''fingerprint'' = JStr fp" "sha data = fp"
      and fresh: "u ''artifacts/'' @ path \<notin> set (bs_expected st)"
      and bound: "bs_total st + int (zm_size info) \<le> 16 * 1024 * 1024"
      and st': "(if path = report_path then
           guard (int (zm_size info) \<le> int MAX_REPORT) (report_label @ u '' report exceeds 1 MiB'')
             (Inr \<lparr>bs_expected = bs_expected st @ [u ''artifacts/'' @ path], bs_total = bs_total st + int (zm_size info),
                   bs_selected = Some (data, entry)\<rparr>)
         else Inr (st\<lparr>bs_expected := bs_expected st @ [u ''artifacts/'' @ path], bs_total := bs_total st + int (zm_size info)\<rparr>)) = Inr st'"
      by (auto simp: bundle_entry_def res_simps Let_def)
    then have m: "info \<in> set members" "zm_name info = u ''artifacts/'' @ path"
      and size: "int (zm_size info) \<le> 16 * 1024 * 1024" "holds_number (jget e ''size_bytes'') (int (zm_size info))"
      by (simp_all add: getinfo_iff [OF assms] size_iff)
    have "describes_member entry info" using e m(2) size(2) by (auto simp: describes_member_def relative_iff artifact_name_def)
    then show "\<exists>m \<in> set members. ?r m" using st' e m fresh bound size(1)
      by (intro bexI [of _ info]) (auto simp: entry_done_def content_of_def artifact_name_def res_simps split: if_splits)
  next
    assume "\<exists>m \<in> set members. ?r m"
    then obtain m where m: "m \<in> set members" and r: "?r m" by blast
    from r obtain e path data where
      e: "entry = JObj e" "jget e ''relative_path'' = JStr path" "safe_path path" "zm_name m = artifact_name path"
        "jget e ''kind'' = JStr (u ''RegularFile'')" "holds_number (jget e ''size_bytes'') (int (zm_size m))"
        "zm_read m = Inr data" "jget e ''fingerprint'' = JStr (sha data)"
      by (auto simp: describes_member_def)
    have "relative (jget e ''relative_path'') = Inr path" using e by (simp add: relative_iff)
    moreover have "number (jget e ''size_bytes'') (u ''artifact size'') (16 * 1024 * 1024) = Inr (int (zm_size m))"
      using e r by (simp add: size_iff)
    moreover have "getinfo members (artifact_name path) = Inr m" using m e by (simp add: getinfo_iff [OF assms])
    moreover have "artifact_name path \<in> zm_name ` set members" using m e(4) by (metis image_eqI)
    moreover have "digest (JStr (sha data)) = Inr (sha data)" by (simp add: digest_def)
    ultimately show ?l using e r
      by (simp add: bundle_entry_def Let_def artifact_name_def entry_done_def content_of_def)
  qed
qed

lemma bundle_loop_iff:
  assumes names: "distinct (map zm_name members)"
  shows "fold_res (bundle_entry members report_path report_label) st files = Inr st' \<longleftrightarrow>
    (\<exists>ms. list_all2 describes_member files ms \<and> set ms \<subseteq> set members \<and> distinct (map zm_name ms) \<and>
       zm_name ` set ms \<inter> set (bs_expected st) = {} \<and> list_all (\<lambda>m. zm_size m \<le> 16 * 1024 * 1024) ms \<and>
       (ms \<noteq> [] \<longrightarrow> bs_total st + int (sum_list (map zm_size ms)) \<le> 16 * 1024 * 1024) \<and>
       list_all (\<lambda>m. zm_name m = artifact_name report_path \<longrightarrow> zm_size m \<le> MAX_REPORT) ms \<and>
       st' = foldl (entry_done report_path) st (zip files ms))"
proof (induction files arbitrary: st)
  case (Cons entry files)
  have total: "bs_total (entry_done report_path st (entry, m)) = bs_total st + int (zm_size m)"
    and expected: "set (bs_expected (entry_done report_path st (entry, m))) = insert (zm_name m) (set (bs_expected st))" for m
    by (simp_all add: entry_done_def)
  have step: "fold_res (bundle_entry members report_path report_label) st (entry # files) = Inr st' \<longleftrightarrow>
    (\<exists>m \<in> set members. describes_member entry m \<and> zm_name m \<notin> set (bs_expected st) \<and> zm_size m \<le> 16 * 1024 * 1024 \<and>
       bs_total st + int (zm_size m) \<le> 16 * 1024 * 1024 \<and>
       (zm_name m = artifact_name report_path \<longrightarrow> zm_size m \<le> MAX_REPORT) \<and>
       fold_res (bundle_entry members report_path report_label) (entry_done report_path st (entry, m)) files = Inr st')"
    by (auto simp: res_simps bundle_entry_iff [OF names])
  show ?case (is "?l \<longleftrightarrow> (\<exists>ms. ?r ms)")
  proof
    assume ?l
    then obtain m where m: "m \<in> set members" "describes_member entry m" "zm_name m \<notin> set (bs_expected st)"
        "zm_size m \<le> 16 * 1024 * 1024" "bs_total st + int (zm_size m) \<le> 16 * 1024 * 1024"
        "zm_name m = artifact_name report_path \<longrightarrow> zm_size m \<le> MAX_REPORT"
      and rest: "fold_res (bundle_entry members report_path report_label) (entry_done report_path st (entry, m)) files = Inr st'"
      unfolding step by blast
    from rest obtain ms where ms: "list_all2 describes_member files ms" "set ms \<subseteq> set members" "distinct (map zm_name ms)"
        "zm_name ` set ms \<inter> insert (zm_name m) (set (bs_expected st)) = {}" "list_all (\<lambda>m. zm_size m \<le> 16 * 1024 * 1024) ms"
        "ms \<noteq> [] \<longrightarrow> bs_total st + int (zm_size m) + int (sum_list (map zm_size ms)) \<le> 16 * 1024 * 1024"
        "list_all (\<lambda>m. zm_name m = artifact_name report_path \<longrightarrow> zm_size m \<le> MAX_REPORT) ms"
        "st' = foldl (entry_done report_path) (entry_done report_path st (entry, m)) (zip files ms)"
      unfolding Cons.IH total expected by blast
    have sum: "bs_total st + int (sum_list (map zm_size (m # ms))) \<le> 16 * 1024 * 1024"
      using m(5) ms(6) by (cases ms) auto
    have "?r (m # ms)" using m ms sum by auto
    then show "\<exists>ms. ?r ms" by blast
  next
    assume "\<exists>ms. ?r ms"
    then obtain m ms where m: "describes_member entry m" and ms: "list_all2 describes_member files ms" and r: "?r (m # ms)"
      by (auto simp: list_all2_Cons1)
    have "bs_total st + int (zm_size m) \<le> 16 * 1024 * 1024" using r by simp
    moreover have "fold_res (bundle_entry members report_path report_label) (entry_done report_path st (entry, m)) files = Inr st'"
      unfolding Cons.IH total expected using r by (intro exI [of _ ms]) (auto simp: algebra_simps)
    ultimately show ?l unfolding step using m r by (intro bexI [of _ m]) auto
  qed
qed auto

lemma entries_done:
  assumes "length files = length ms"
  shows "bs_expected (foldl (entry_done rp) st (zip files ms)) = bs_expected st @ map zm_name ms"
    "bs_total (foldl (entry_done rp) st (zip files ms)) = bs_total st + int (sum_list (map zm_size ms))"
  using assms by (induction files ms arbitrary: st rule: list_induct2) (simp_all add: entry_done_def)

lemma entries_selected:
  assumes "length files = length ms" "distinct (map zm_name ms)"
  shows "bs_selected (foldl (entry_done rp) st (zip files ms)) = Some x \<longleftrightarrow>
    (\<exists>entry m. (entry, m) \<in> set (zip files ms) \<and> zm_name m = artifact_name rp \<and> x = (content_of m, entry)) \<or>
    artifact_name rp \<notin> zm_name ` set ms \<and> bs_selected st = Some x"
  using assms
proof (induction files ms arbitrary: st rule: list_induct2)
  case (Cons entry files m ms)
  have sel: "bs_selected (entry_done rp st (entry, m)) = (if zm_name m = artifact_name rp then Some (content_of m, entry) else bs_selected st)"
    by (simp add: entry_done_def)
  have "zm_name m' \<noteq> zm_name m" if "(e', m') \<in> set (zip files ms)" for e' m'
    using Cons.prems set_zip_rightD [OF that] by (metis distinct.simps(2) list.simps(9) image_eqI set_map)
  then have other: "\<exists>e'. (e', m') \<in> set (zip files ms) \<Longrightarrow> zm_name m' \<noteq> zm_name m" for m' by blast
  show ?case
  proof (cases "zm_name m = artifact_name rp")
    case True
    then show ?thesis using Cons sel other by auto
  next
    case False
    then show ?thesis using Cons sel by auto
  qed
qed simp

subsection \<open>The whole reader\<close>

lemma check_binding_iff: "check_binding value = Inr () \<longleftrightarrow> receipt_binding value"
  by (cases "value") (auto simp: check_binding_def receipt_binding_def check_identity_def res_simps split: json.splits)

lemma bundle_manifest_iff:
  "bundle_manifest value = Inr (manifest, files) \<longleftrightarrow> value = JObj manifest \<and> inventory_of manifest files"
proof -
  have "check_binding v = Inr x \<longleftrightarrow> receipt_binding v" for v x using check_binding_iff by simp
  then show ?thesis
    by (auto simp: bundle_manifest_def inventory_of_def res_simps number_holds [OF order_refl])
qed

lemma check_members_iff:
  "fold_res check_member () members = Inr x \<longleftrightarrow>
     list_all (\<lambda>m. zm_compress m = 0 \<and> even (zm_flags m) \<and> \<not> is_dir m \<and> zm_size m \<le> 16 * 1024 * 1024) members"
  by (induction members) (auto simp: check_member_def res_simps)

lemma bundle_members_iff:
  "bundle_members members = Inr manifest_raw \<longleftrightarrow>
     2 \<le> length members \<and> length members \<le> 201 \<and> distinct (map zm_name members) \<and>
     list_all (\<lambda>m. zm_compress m = 0 \<and> even (zm_flags m) \<and> \<not> is_dir m \<and> zm_size m \<le> 16 * 1024 * 1024) members \<and>
     (\<exists>listing \<in> set members. zm_name listing = u ''manifest.json'' \<and> zm_size listing \<le> MAX_REPORT \<and>
        zm_read listing = Inr manifest_raw)"
  by (auto simp: bundle_members_def res_simps getinfo_iff check_members_iff image_iff intro: sym)

lemma consists_length: "consists_of members parts \<Longrightarrow> length members = length parts"
  by (metis consists_of_def distinct_card distinct_map)

lemma members_partition:
  assumes "distinct (map zm_name members)" "listing \<in> set members" "set artifacts \<subseteq> set members"
    and "distinct (map zm_name artifacts)" "zm_name listing \<notin> zm_name ` set artifacts"
  shows "zm_name ` set members = insert (zm_name listing) (zm_name ` set artifacts) \<longleftrightarrow> consists_of members (listing # artifacts)"
proof
  assume names: "zm_name ` set members = insert (zm_name listing) (zm_name ` set artifacts)"
  have inj: "inj_on zm_name (set members)" using assms(1) by (simp add: distinct_map)
  have "zm_name ` set members = zm_name ` set (listing # artifacts)" using names by simp
  then have "set members = set (listing # artifacts)"
    using assms(2,3) by (subst (asm) inj_on_image_eq_iff [OF inj]) auto
  then show "consists_of members (listing # artifacts)" using assms by (simp add: consists_of_def)
qed (auto simp: consists_of_def)

lemma read_file_iff: "read_file content n = Inr d \<longleftrightarrow> content = Inr d \<and> length d \<le> n"
  by (auto simp: read_file_def res_simps Let_def)

lemma bundle_run_iff:
  assumes members: "distinct (map zm_name members)" "listing \<in> set members" "zm_name listing = u ''manifest.json''"
  shows "(\<exists>st. fold_res (bundle_entry members rp lab) bundle_start files = Inr st \<and>
       zm_name ` set members = set (bs_expected st) \<and> 0 \<le> bs_total st \<and> bs_total st \<le> MAX_INT64 \<and> holds_number stated (bs_total st) \<and> bs_selected st = Some (data, entry)) \<longleftrightarrow>
    (\<exists>artifacts m. consists_of members (listing # artifacts) \<and> list_all2 describes_member files artifacts \<and>
       list_all (\<lambda>m. zm_size m \<le> 16 * 1024 * 1024) artifacts \<and> sum_list (map zm_size artifacts) \<le> 16 * 1024 * 1024 \<and>
       holds_number stated (int (sum_list (map zm_size artifacts))) \<and>
       (entry, m) \<in> set (zip files artifacts) \<and> zm_name m = artifact_name rp \<and> zm_size m \<le> MAX_REPORT \<and> zm_read m = Inr data)"
  (is "(\<exists>st. ?run st) \<longleftrightarrow> (\<exists>artifacts m. ?bundle artifacts m)")
proof
  assume "\<exists>st. ?run st"
  then obtain st where st: "?run st" by blast
  from bundle_loop_iff [OF members(1), THEN iffD1, OF conjunct1 [OF st]] obtain ms where
    ms: "list_all2 describes_member files ms" "set ms \<subseteq> set members" "distinct (map zm_name ms)"
      "zm_name ` set ms \<inter> set (bs_expected bundle_start) = {}" "list_all (\<lambda>m. zm_size m \<le> 16 * 1024 * 1024) ms"
      "ms \<noteq> [] \<longrightarrow> bs_total bundle_start + int (sum_list (map zm_size ms)) \<le> 16 * 1024 * 1024"
      "list_all (\<lambda>m. zm_name m = artifact_name rp \<longrightarrow> zm_size m \<le> MAX_REPORT) ms"
    and final: "st = foldl (entry_done rp) bundle_start (zip files ms)" by blast
  note len = list_all2_lengthD [OF ms(1)]
  from st entries_selected [OF len ms(3)] obtain m where
    m: "(entry, m) \<in> set (zip files ms)" "zm_name m = artifact_name rp" "data = content_of m"
    by (auto simp: final bundle_start_def)
  have "zm_read m = Inr data" using m(1,3) ms(1) by (auto simp: list_all2_iff describes_member_def content_of_def)
  moreover have "consists_of members (listing # ms)"
    using st ms(4) members by (intro members_partition [OF members(1,2) ms(2,3), THEN iffD1])
      (auto simp: final entries_done [OF len] bundle_start_def)
  moreover have "holds_number stated (int (sum_list (map zm_size ms)))" "sum_list (map zm_size ms) \<le> 16 * 1024 * 1024"
    using st ms(6) by (auto simp: final entries_done [OF len] bundle_start_def)
  moreover have "zm_size m \<le> MAX_REPORT" using ms(7) m(2) set_zip_rightD [OF m(1)] by (auto simp: list_all_iff)
  ultimately show "\<exists>artifacts m. ?bundle artifacts m" using ms m by blast
next
  assume "\<exists>artifacts m. ?bundle artifacts m"
  then obtain ms m where b: "?bundle ms m" by blast
  then have all: "set members = set (listing # ms)" and names: "distinct (map zm_name (listing # ms))"
    by (simp_all only: consists_of_def)
  have one: "n = m" if "n \<in> set ms" "zm_name n = artifact_name rp" for n
    using names b that set_zip_rightD [of entry m files ms] by (auto simp: distinct_map inj_on_def)
  let ?st = "foldl (entry_done rp) bundle_start (zip files ms)"
  have len: "length files = length ms" using b by (auto dest: list_all2_lengthD)
  have "fold_res (bundle_entry members rp lab) bundle_start files = Inr ?st"
    using b all names members(3) one unfolding bundle_loop_iff [OF members(1)]
    by (intro exI [of _ ms]) (auto simp: bundle_start_def list_all_iff)
  moreover have "bs_selected ?st = Some (data, entry)"
    using b names by (subst entries_selected [OF len]) (auto simp: content_of_def)
  ultimately show "\<exists>st. ?run st" using b all members(3)
    by (intro exI [of _ ?st]) (simp add: entries_done [OF len] bundle_start_def MAX_INT64_def)
qed

lemma read_bundle_iff:
  "read_bundle zip_open content report_path report_label = Inr (data, ctx) \<longleftrightarrow>
    (\<exists>raw members listing manifest_raw manifest files artifacts entry m.
       content = Inr raw \<and> length raw \<le> MAX_BUNDLE \<and> zip_open raw = Inr members \<and>
       review_bundle members listing manifest files artifacts \<and>
       zm_read listing = Inr manifest_raw \<and> decode manifest_raw = Inr (JObj manifest) \<and>
       (entry, m) \<in> set (zip files artifacts) \<and> zm_name m = artifact_name report_path \<and> zm_size m \<le> MAX_REPORT \<and>
       zm_read m = Inr data \<and> ctx = bundle_context raw manifest_raw manifest entry)"
  (is "?l \<longleftrightarrow> (\<exists>raw members listing manifest_raw manifest files artifacts entry m. ?r raw members listing manifest_raw manifest files artifacts entry m)")
proof
  assume ?l
  then obtain raw members manifest_raw manifest files st entry where
    raw: "content = Inr raw" "length raw \<le> MAX_BUNDLE" and zip: "zip_open raw = Inr members"
    and mem: "bundle_members members = Inr manifest_raw" and dec: "decode manifest_raw = Inr (JObj manifest)"
    and inventory: "inventory_of manifest files"
    and run: "fold_res (bundle_entry members report_path report_label) bundle_start files = Inr st"
      "zm_name ` set members = set (bs_expected st)"
      "0 \<le> bs_total st" "bs_total st \<le> MAX_INT64" "holds_number (jget manifest ''total_bytes'') (bs_total st)"
      "bs_selected st = Some (data, entry)"
    and ctx: "ctx = bundle_context raw manifest_raw manifest entry"
    by (auto simp: read_bundle_def res_simps read_file_iff bundle_manifest_iff number_holds [OF order_refl] split: option.splits)
  from mem obtain listing where listing: "distinct (map zm_name members)" "listing \<in> set members" "zm_name listing = u ''manifest.json''"
      "zm_size listing \<le> MAX_REPORT" "zm_read listing = Inr manifest_raw"
      "list_all (\<lambda>m. zm_compress m = 0 \<and> even (zm_flags m) \<and> \<not> is_dir m \<and> zm_size m \<le> 16 * 1024 * 1024) members"
    unfolding bundle_members_iff by blast
  from bundle_run_iff [OF listing(1-3), THEN iffD1] run obtain artifacts m where
    "consists_of members (listing # artifacts)" "list_all2 describes_member files artifacts"
    "sum_list (map zm_size artifacts) \<le> 16 * 1024 * 1024"
    "holds_number (jget manifest ''total_bytes'') (int (sum_list (map zm_size artifacts)))"
    and m: "(entry, m) \<in> set (zip files artifacts)" "zm_name m = artifact_name report_path" "zm_size m \<le> MAX_REPORT" "zm_read m = Inr data"
    by blast
  then have "review_bundle members listing manifest files artifacts"
    using listing inventory by (simp add: review_bundle_def)
  then show "\<exists>raw members listing manifest_raw manifest files artifacts entry m. ?r raw members listing manifest_raw manifest files artifacts entry m"
    using raw zip dec listing(5) m ctx by blast
next
  assume "\<exists>raw members listing manifest_raw manifest files artifacts entry m. ?r raw members listing manifest_raw manifest files artifacts entry m"
  then obtain raw members listing manifest_raw manifest files artifacts entry m where
    r: "?r raw members listing manifest_raw manifest files artifacts entry m" by blast
  then have b: "review_bundle members listing manifest files artifacts" by blast
  then have parts: "consists_of members (listing # artifacts)" by (simp only: review_bundle_def)
  then have all: "set members = set (listing # artifacts)" by (simp only: consists_of_def)
  have len: "length members = Suc (length artifacts)" "length files = length artifacts"
    using consists_length [OF parts] b by (auto simp: review_bundle_def dest: list_all2_lengthD)
  have listing: "distinct (map zm_name members)" "listing \<in> set members" "zm_name listing = u ''manifest.json''"
    using b all by (auto simp: review_bundle_def consists_of_def)
  have mem: "bundle_members members = Inr manifest_raw"
    using b r all len by (auto simp: bundle_members_iff review_bundle_def inventory_of_def consists_of_def)
  have "list_all (\<lambda>m. zm_size m \<le> 16 * 1024 * 1024) artifacts" using b all by (auto simp: review_bundle_def list_all_iff)
  with bundle_run_iff [OF listing, of report_path report_label files "jget manifest ''total_bytes''" data entry] b r obtain st where
    run: "fold_res (bundle_entry members report_path report_label) bundle_start files = Inr st"
      "zm_name ` set members = set (bs_expected st)"
      "0 \<le> bs_total st" "bs_total st \<le> MAX_INT64" "holds_number (jget manifest ''total_bytes'') (bs_total st)"
      "bs_selected st = Some (data, entry)"
    unfolding review_bundle_def by blast
  have "describes_member entry m" using b r by (auto simp: review_bundle_def list_all2_iff)
  then have "safe_path report_path" using r by (auto simp: describes_member_def artifact_name_def)
  then show ?l using r mem run b
    by (auto simp: read_bundle_def res_simps read_file_iff relative_iff bundle_manifest_iff number_holds [OF order_refl] review_bundle_def)
qed

subsection \<open>What reading a bundle can raise\<close>

text \<open>The \<open>except\<close> clause of the coverage and JUnit commands, \<open>ExpatError\<close> apart.\<close>

fun review_error :: "pyerr \<Rightarrow> bool" where
  "review_error OSError = True"
| "review_error TypeError = True"
| "review_error KeyError = True"
| "review_error RecursionError = True"
| "review_error BadZipFile = True"
| "review_error NotImplementedError = True"
| "review_error e = is_value_error e"

lemma value_error_review [simp]: "is_value_error e \<Longrightarrow> review_error e"
  by (cases e) auto

text \<open>An archive reader that raises only what the commands catch.\<close>

definition archive_raises :: "(pyerr \<Rightarrow> bool) \<Rightarrow> (bytes \<Rightarrow> zmember list res) \<Rightarrow> bool" where
  "archive_raises P zip_open \<longleftrightarrow>
     (\<forall>raw. raises_only P (zip_open raw) \<and>
        (\<forall>ms. zip_open raw = Inr ms \<longrightarrow> (\<forall>m \<in> set ms. raises_only P (zm_read m))))"

lemma review_raises: "raises_only is_value_error m \<Longrightarrow> raises_only review_error m"
  by (erule raises_only_weaken) simp

lemma number_raises: "raises_only is_value_error (number v label maximum)"
  by (auto simp: number_def py_int_raises split: json.splits intro!: raises)

lemma digest_raises: "raises_only is_value_error (digest v)"
  by (auto simp: digest_def split: json.splits intro!: raises)

lemma relative_raises: "raises_only is_value_error (relative v)"
  by (auto simp: relative_def utf8_encode_raises split: json.splits intro!: raises)

lemma want_raises: "raises_only is_value_error (want_dict v m)" "raises_only is_value_error (want_list v m)"
  by (auto simp: want_dict_def want_list_def intro!: raises)

lemma check_binding_raises: "raises_only is_value_error (check_binding v)"
  unfolding check_binding_def
  by (auto simp: want_raises digest_raises check_identity_def split: json.splits intro!: raises)

lemma bundle_manifest_raises: "raises_only is_value_error (bundle_manifest v)"
  unfolding bundle_manifest_def
  by (auto simp: want_raises number_raises check_binding_raises intro!: raises)

lemma getinfo_raises: "raises_only review_error (getinfo members name)"
  by (auto simp: getinfo_def intro!: raises_or_raise)

lemma bundle_members_raises:
  "(\<And>m. m \<in> set members \<Longrightarrow> raises_only review_error (zm_read m)) \<Longrightarrow> raises_only review_error (bundle_members members)"
  unfolding bundle_members_def
  by (auto simp: check_member_def getinfo_raises intro!: raises_rbind raises_guard raises_fold_res dest: getinfo_Inr)

lemma bundle_entry_raises:
  "(\<And>m. m \<in> set members \<Longrightarrow> raises_only review_error (zm_read m)) \<Longrightarrow>
    raises_only review_error (bundle_entry members rp lab st e)"
  unfolding bundle_entry_def Let_def
  by (auto simp: getinfo_raises want_raises number_raises relative_raises digest_raises review_raises
           intro!: raises_rbind raises_guard raises_if dest: getinfo_Inr)

lemma read_bundle_raises:
  assumes "archive_raises review_error zip_open" "raises_only review_error content"
  shows "raises_only review_error (read_bundle zip_open content rp lab)"
proof -
  have mem: "raises_only review_error (zm_read m)" if "zip_open raw = Inr ms" "m \<in> set ms" for raw ms m
    using assms(1) that by (auto simp: archive_raises_def)
  have "raises_only review_error (read_file content MAX_BUNDLE)"
    using assms(2) by (auto simp: read_file_def Let_def intro!: raises)
  moreover have "raises_only review_error (zip_open raw)" for raw
    using assms(1) by (simp add: archive_raises_def)
  ultimately show ?thesis unfolding read_bundle_def
    by (auto simp: relative_raises decode_raises bundle_manifest_raises number_raises review_raises
             split: option.splits
             intro!: raises_rbind raises_guard raises_prod raises_fold_res bundle_members_raises bundle_entry_raises mem)
qed

subsection \<open>Properties\<close>

text \<open>C1: the reader accepts exactly the review bundles, as described without it, and returns exactly the bytes of
  the selected artifact with the context of their bundle: the file is within 20 MiB, its members are the
  manifest and, one by one, the artifacts of its inventory, stored, within their bounds and with the
  stated paths, sizes and SHA-256, the sizes add up to the stated total, and nothing else is in it.\<close>

theorem bundle_exact:
  "read_bundle zip_open content report_path report_label = Inr (data, ctx) \<longleftrightarrow>
    (\<exists>raw members listing manifest_raw manifest files artifacts entry m.
       content = Inr raw \<and> length raw \<le> MAX_BUNDLE \<and> zip_open raw = Inr members \<and>
       review_bundle members listing manifest files artifacts \<and>
       zm_read listing = Inr manifest_raw \<and> decode manifest_raw = Inr (JObj manifest) \<and>
       (entry, m) \<in> set (zip files artifacts) \<and> zm_name m = artifact_name report_path \<and> zm_size m \<le> MAX_REPORT \<and>
       zm_read m = Inr data \<and> ctx = bundle_context raw manifest_raw manifest entry)"
  by (rule read_bundle_iff)

text \<open>
  How an operating system walks the parts of a relative path from a directory: empty and
  \<open>.\<close> parts stay, \<open>..\<close> goes up.
\<close>

fun walk :: "ustr list \<Rightarrow> ustr list \<Rightarrow> ustr list" where
  "walk dir [] = dir"
| "walk dir (part # parts) =
     (if part = [] \<or> part = u ''.'' then walk dir parts
      else if part = u ''..'' then walk (butlast dir) parts
      else walk (dir @ [part]) parts)"

lemma walk_safe: "list_all safe_part parts \<Longrightarrow> walk dir parts = dir @ parts"
  by (induction parts arbitrary: dir) (auto simp: safe_part_def)

text \<open>C10: an artifact path the reader accepts names a file strictly below the directory it is resolved in,
  by the path as written: no part is empty, \<open>.\<close> or \<open>..\<close>, it does not start at the root, and it
  holds no backslash and no NUL.\<close>

theorem relative_confined:
  assumes "relative value = Inr p"
  shows "value = JStr p \<and> walk dir (split_on 47 p) = dir @ split_on 47 p \<and> p \<noteq> [] \<and> hd p \<noteq> 47 \<and>
    92 \<notin> set p \<and> 0 \<notin> set p"
proof -
  have p: "value = JStr p" "92 \<notin> set p" "0 \<notin> set p" "list_all safe_part (split_on 47 p)"
    using assms by (auto simp: relative_iff safe_path_def)
  then have "p \<noteq> []" "hd p \<noteq> 47" by (cases p, auto simp: safe_part_def split: list.splits)+
  with p show ?thesis by (simp add: walk_safe)
qed

lemma sample_path: "safe_path (u ''results/a'')"
  by (simp add: safe_path_def utf8_bytes_def) (simp add: u_def utf8_char_def safe_part_def)

theorem relative_confined_witness:
  "walk [u ''root''] (split_on 47 (u ''results/a'')) = u ''root'' # split_on 47 (u ''results/a'')"
  using relative_confined [of "JStr (u ''results/a'')" "u ''results/a''" "[u ''root'']"] sample_path by (simp add: relative_iff)

end
