(* ===== verification/BundleWriter.thy ===== *)
theory BundleWriter
  imports ReviewBundle
begin

section \<open>Writers of review bundles (the fixtures of scripts/)\<close>

text \<open>
  The repository's tests build their bundles with small writers: a manifest over a list of named files, and
  an uncompressed archive of the manifest and the files. What such a writer owes its reader is the
  interface \<open>manifest_writer\<close>: a manifest that lists the files, and bytes it can be decoded from. Every
  bundle of such a writer within the bounds is accepted, and each of its files comes back byte for byte.
\<close>

definition manifest_entry :: "ustr \<times> bytes \<Rightarrow> json" where
  "manifest_entry file = (case file of (name, content) \<Rightarrow> JObj
     [(u ''relative_path'', JStr name), (u ''kind'', JStr (u ''RegularFile'')),
      (u ''size_bytes'', JStr (str_nat (length content))), (u ''fingerprint'', JStr (sha content))])"

definition total_size :: "(ustr \<times> bytes) list \<Rightarrow> nat" where
  "total_size files = sum_list (map (length \<circ> snd) files)"

definition receipt :: "ustr \<Rightarrow> ustr \<Rightarrow> json" where
  "receipt retention workspace = JObj
     [(u ''protocol_version'', JInt 1), (u ''retention_id'', JStr retention), (u ''workspace_id'', JStr workspace),
      (u ''approval_digest'', JStr (replicate 64 97)), (u ''command_digest'', JStr (replicate 64 98))]"

text \<open>\<open>archive.writestr(name, content)\<close> under \<open>ZIP_STORED\<close>, as a reader of the archive sees the member.\<close>

definition stored_member :: "ustr \<Rightarrow> bytes \<Rightarrow> zmember" where
  "stored_member name content =
     \<lparr>zm_name = name, zm_compress = 0, zm_flags = 0, zm_size = length content, zm_read = Inr content\<rparr>"

definition stored_archive :: "bytes \<Rightarrow> (ustr \<times> bytes) list \<Rightarrow> zmember list" where
  "stored_archive manifest_raw files =
     stored_member (u ''manifest.json'') manifest_raw # map (\<lambda>(name, content). stored_member (artifact_name name) content) files"

subsection \<open>Archives of files\<close>

text \<open>The files a bundle can hold.\<close>

definition storable :: "(ustr \<times> bytes) list \<Rightarrow> bool" where
  "storable files \<longleftrightarrow> 1 \<le> length files \<and> length files \<le> 200 \<and> distinct (map fst files) \<and>
     list_all (\<lambda>f. safe_path (fst f)) files \<and> total_size files \<le> 16 * 1024 * 1024"

lemma stored_fields [simp]:
  "zm_name (stored_member name content) = name" "zm_compress (stored_member name content) = 0"
  "zm_flags (stored_member name content) = 0" "zm_size (stored_member name content) = length content"
  "zm_read (stored_member name content) = Inr content"
  by (simp_all add: stored_member_def)

lemma split_on_last: "split_on c (q @ [c]) = split_on c q @ [[]]"
proof (induction q)
  case (Cons x q)
  then show ?case by (cases "split_on c q") auto
qed simp

lemma safe_path_file: "safe_path p \<Longrightarrow> \<not> is_dir (stored_member (artifact_name p) content)"
  by (cases p rule: rev_cases)
    (auto simp: safe_path_def split_on_last is_dir_def ends_with_def artifact_name_def u_def safe_part_def)

lemma entry_describes: "safe_path p \<Longrightarrow> describes_member (manifest_entry (p, content)) (stored_member (artifact_name p) content)"
  by (simp add: describes_member_def manifest_entry_def holds_number_def jget_def)

lemma total_size_member: "f \<in> set files \<Longrightarrow> length (snd f) \<le> total_size files"
  unfolding total_size_def by (intro member_le_sum_list) auto

lemma archive_sizes: "map zm_size (map (\<lambda>(name, content). stored_member (artifact_name name) content) files) = map (length \<circ> snd) files"
  by (simp add: split_beta)

lemma stored_bundle:
  assumes files: "storable files" and raw: "length manifest_raw \<le> MAX_REPORT"
    and manifest: "inventory_of manifest (map manifest_entry files)" "jget manifest ''total_bytes'' = JStr (str_nat (total_size files))"
  shows "review_bundle (stored_archive manifest_raw files) (stored_member (u ''manifest.json'') manifest_raw) manifest
    (map manifest_entry files) (map (\<lambda>(name, content). stored_member (artifact_name name) content) files)"
    (is "review_bundle ?members ?listing manifest ?entries ?artifacts")
proof -
  have names: "map zm_name ?members = u ''manifest.json'' # map (\<lambda>f. artifact_name (fst f)) files"
    by (simp add: stored_archive_def split_beta)
  have "distinct (map zm_name ?members)"
    using files by (auto simp: names storable_def distinct_map inj_on_def artifact_name_def) (simp add: u_def)
  moreover have "\<not> is_dir ?listing" by (simp add: is_dir_def) (simp add: ends_with_def u_def)
  moreover have "list_all (\<lambda>m. zm_compress m = 0 \<and> even (zm_flags m) \<and> \<not> is_dir m \<and> zm_size m \<le> 16 * 1024 * 1024) ?artifacts"
    using files total_size_member [of _ files] safe_path_file by (fastforce simp: list_all_iff storable_def)
  moreover have "list_all2 describes_member ?entries ?artifacts"
    using files entry_describes by (auto simp: list_all2_map1 list_all2_map2 list.rel_refl_strong list_all_iff storable_def intro!: list.rel_refl_strong)
  moreover have "sum_list (map zm_size ?artifacts) = total_size files" by (simp only: archive_sizes total_size_def)
  ultimately show ?thesis using files raw manifest
    by (simp add: review_bundle_def consists_of_def stored_archive_def storable_def holds_number_def MAX_REPORT_def)
qed

subsection \<open>The interface of a writer\<close>

locale manifest_writer =
  fixes manifest :: "(ustr \<times> bytes) list \<Rightarrow> (ustr \<times> json) list"
    and manifest_text :: "(ustr \<times> bytes) list \<Rightarrow> bytes"
  assumes inventory: "storable files \<Longrightarrow> inventory_of (manifest files) (map manifest_entry files)"
    and total: "storable files \<Longrightarrow> jget (manifest files) ''total_bytes'' = JStr (str_nat (total_size files))"
    and decoded: "storable files \<Longrightarrow> decode (manifest_text files) = Inr (JObj (manifest files))"
begin

lemma comes_back:
  assumes files: "storable files" "length (manifest_text files) \<le> MAX_REPORT"
    and sel: "(report_path, data) \<in> set files" "length data \<le> MAX_REPORT"
    and raw: "length raw \<le> MAX_BUNDLE" "zip_open raw = Inr (stored_archive (manifest_text files) files)"
  shows "read_bundle zip_open (Inr raw) report_path label =
    Inr (data, bundle_context raw (manifest_text files) (manifest files) (manifest_entry (report_path, data)))"
proof -
  have "(manifest_entry (report_path, data), stored_member (artifact_name report_path) data) \<in>
      set (zip (map manifest_entry files) (map (\<lambda>(name, content). stored_member (artifact_name name) content) files))"
    using sel(1) by (force simp: zip_map_map zip_same_conv_map)
  then show ?thesis
    unfolding read_bundle_iff using stored_bundle [OF files(1,2) inventory total] decoded [OF files(1)] files sel raw
    by (fastforce intro: exI [of _ raw])
qed

end

subsection \<open>The writer of the SQLite tests\<close>

definition bundle_binding :: json where
  "bundle_binding = receipt (u ''saved-run'') (u ''example-workspace'')"

definition bundle_manifest_of :: "(ustr \<times> bytes) list \<Rightarrow> (ustr \<times> json) list" where
  "bundle_manifest_of files =
     [(u ''format_version'', JInt 1), (u ''purpose'', JStr (u ''Review copy only; not approval or promotion'')),
      (u ''binding'', bundle_binding), (u ''expires_at_ms'', JStr (u ''1'')),
      (u ''total_bytes'', JStr (str_nat (total_size files))), (u ''files'', JArr (map manifest_entry files))]"

definition manifest_bytes :: "(ustr \<times> bytes) list \<Rightarrow> bytes" where
  "manifest_bytes files = utf8_bytes (dumps ascii_style (JObj (bundle_manifest_of files)))"

definition make_bundle :: "(ustr \<times> bytes) list \<Rightarrow> zmember list" where
  "make_bundle files = stored_archive (manifest_bytes files) files"

definition identity_ok :: "ustr \<Rightarrow> bool" where
  "identity_ok s \<longleftrightarrow> strip s \<noteq> [] \<and> length s \<le> 4096 \<and> list_all is_scalar s"

lemma scalar_char_ok [simp]: "list_all is_scalar s \<Longrightarrow> list_all (char_ok a) s"
  by (auto simp: char_ok_def list_all_iff)

lemma receipt_ok:
  assumes "identity_ok retention" "identity_ok workspace"
  shows "receipt_binding (receipt retention workspace)" "jvalid a (receipt retention workspace)" "jscalar (receipt retention workspace)"
proof -
  have hex: "re_hex64 (replicate 64 97)" "re_hex64 (replicate 64 98)"
    by (simp_all add: re_hex64_def list_all_iff is_hex_lower_def)
  have one: "int_printable 1" using small_printable [of 1] by simp
  show "receipt_binding (receipt retention workspace)"
    using assms hex by (simp add: receipt_binding_def receipt_def identity_ok_def jkeys_def jget_def insert_commute)
  show "jvalid a (receipt retention workspace)"
    using assms one scalar_hex64 [OF hex(1)] scalar_hex64 [OF hex(2)] by (simp add: receipt_def identity_ok_def)
  show "jscalar (receipt retention workspace)"
    using assms scalar_hex64 [OF hex(1)] scalar_hex64 [OF hex(2)] by (simp add: receipt_def identity_ok_def)
qed

lemma entry_valid: "safe_path (fst f) \<Longrightarrow> jvalid a (manifest_entry f) \<and> jscalar (manifest_entry f)"
  by (cases f) (simp add: manifest_entry_def safe_path_def)

text \<open>One proof for every manifest that lists files under a receipt, whatever the order of its members.\<close>

lemma expiry_ok: "\<exists>t. 0 \<le> t \<and> t \<le> MAX_INT64 \<and> holds_number (JStr (u ''1'')) t"
proof (intro exI [of _ 1] conjI)
  have "str_nat 1 = u ''1''" by (subst str_nat.simps) (simp add: u_def)
  then show "holds_number (JStr (u ''1'')) 1" by (simp add: holds_number_def)
qed (simp_all add: MAX_INT64_def)

lemma lists_files:
  assumes "storable files" "identity_ok retention" "identity_ok workspace"
    and "jget manifest ''format_version'' = JInt 1" "jget manifest ''purpose'' = JStr (u ''Review copy only; not approval or promotion'')"
    and "jget manifest ''binding'' = receipt retention workspace" "jget manifest ''expires_at_ms'' = JStr (u ''1'')"
    and "jget manifest ''files'' = JArr (map manifest_entry files)"
  shows "inventory_of manifest (map manifest_entry files)"
  using assms expiry_ok receipt_ok(1) by (simp add: inventory_of_def storable_def)

lemma files_valid: "storable files \<Longrightarrow> jvalid a (JArr (map manifest_entry files)) \<and> jscalar (JArr (map manifest_entry files))"
  using entry_valid by (simp add: storable_def list_all_iff)

lemma fixture_identities: "identity_ok (u ''saved-run'')" "identity_ok (u ''example-workspace'')"
  by (simp_all add: identity_ok_def strip_eq_Nil) (simp_all add: u_def is_space_def)

lemma manifest_valid:
  assumes "storable files"
  shows "jvalid a (JObj (bundle_manifest_of files))" "jscalar (JObj (bundle_manifest_of files))"
  using files_valid [OF assms, of a] receipt_ok(2,3) [OF fixture_identities] small_printable [of 1]
  by (simp_all add: bundle_manifest_of_def bundle_binding_def)

interpretation sqlite_fixture: manifest_writer bundle_manifest_of manifest_bytes
proof
  fix files assume files: "storable files"
  show "inventory_of (bundle_manifest_of files) (map manifest_entry files)"
    by (rule lists_files [OF files fixture_identities]) (simp_all add: bundle_manifest_of_def bundle_binding_def jget_def)
  show "jget (bundle_manifest_of files) ''total_bytes'' = JStr (str_nat (total_size files))"
    by (simp add: bundle_manifest_of_def jget_def)
  show "decode (manifest_bytes files) = Inr (JObj (bundle_manifest_of files))"
    unfolding manifest_bytes_def
    by (rule decode_dumps) (simp_all only: manifest_valid [OF files], simp add: ascii_style_def style_ok_def)
qed

subsection \<open>Small bundles, used to exercise the properties\<close>

lemma one_file_storable: "length data \<le> 1000 \<Longrightarrow> storable [(u ''results/a'', data)]"
  using sample_path by (simp add: storable_def total_size_def)

lemma one_file_manifest:
  assumes "length data \<le> 1000"
  shows "length (manifest_bytes [(u ''results/a'', data)]) \<le> MAX_REPORT"
proof -
  let ?files = "[(u ''results/a'', data)]"
  have "length (str_int 1) = 1" by code_simp
  moreover have "length (str_nat (length data)) \<le> 4" using length_str_nat [of 4 "length data"] assms by simp
  moreover have "length (sha data) = 64" using re_hex64_sha [of data] by (simp add: re_hex64_def)
  ultimately have "jweight (JObj (bundle_manifest_of ?files)) \<le> 10000"
    by (simp add: bundle_manifest_of_def manifest_entry_def bundle_binding_def receipt_def total_size_def)
  then show ?thesis
    using utf8_bytes_length [of "dumps ascii_style (JObj (bundle_manifest_of ?files))"] dumps_size [of ascii_style "JObj (bundle_manifest_of ?files)"]
    by (simp add: manifest_bytes_def MAX_REPORT_def ascii_style_def del: dumps.simps jweight.simps)
qed

lemma one_file_read:
  assumes "length data \<le> 1000"
  shows "read_bundle (\<lambda>_. Inr (make_bundle [(u ''results/a'', data)])) (Inr []) (u ''results/a'') label =
    Inr (data, bundle_context [] (manifest_bytes [(u ''results/a'', data)]) (bundle_manifest_of [(u ''results/a'', data)])
      (manifest_entry (u ''results/a'', data)))"
  using assms
  by (intro sqlite_fixture.comes_back one_file_storable one_file_manifest) (simp_all add: make_bundle_def MAX_REPORT_def MAX_BUNDLE_def)

definition sample_files :: "(ustr \<times> bytes) list" where
  "sample_files = [(u ''results/a'', [1, 2, 3])]"

text \<open>C4: every bundle the writer of the SQLite tests makes from 1 to 200 files with safe, distinct relative
  paths and at most 16 MiB of content, under a manifest of at most 1 MiB, is accepted, and reading any of
  its files of at most 1 MiB returns that file's bytes together with the fingerprints of the bundle and
  its manifest.\<close>

theorem bundle_roundtrip:
  assumes files: "storable files" "length (manifest_bytes files) \<le> MAX_REPORT"
    and sel: "(report_path, data) \<in> set files" "length data \<le> MAX_REPORT"
    and raw: "length raw \<le> MAX_BUNDLE" "zip_open raw = Inr (make_bundle files)"
  shows "read_bundle zip_open (Inr raw) report_path report_label =
    Inr (data, bundle_context raw (manifest_bytes files) (bundle_manifest_of files) (manifest_entry (report_path, data)))"
  using assms by (intro sqlite_fixture.comes_back) (simp_all add: make_bundle_def)

theorem bundle_roundtrip_witness:
  "read_bundle (\<lambda>_. Inr (make_bundle sample_files)) (Inr []) (u ''results/a'') (u ''LCOV'') =
    Inr ([1, 2, 3], bundle_context [] (manifest_bytes sample_files) (bundle_manifest_of sample_files)
      (manifest_entry (u ''results/a'', [1, 2, 3])))"
  unfolding sample_files_def
  by (rule bundle_roundtrip) (simp_all add: one_file_storable one_file_manifest, simp_all add: MAX_REPORT_def MAX_BUNDLE_def)

end
