(* ===== verification/Commands.thy ===== *)
theory Commands
  imports BundleWriter
begin

section \<open>Commands and their outputs\<close>

text \<open>
  What the command lines of the tools share: the outcome of a run, the \<open>except\<close> clause around it,
  and merging of dictionaries.
\<close>

subsection \<open>Commands\<close>

text \<open>
  What a command leaves: the bytes on standard output with the sidecar on standard error and
  exit code 0, a refusal (exit code 1, the error printed), or an exception that escapes.
\<close>

datatype outcome = Done bytes ustr | Refused pyerr | Escaped pyerr

definition run_command :: "(pyerr \<Rightarrow> bool) \<Rightarrow> (bytes \<times> ustr) res \<Rightarrow> outcome" where
  "run_command caught body =
     (case body of
        Inr (out, sidecar) \<Rightarrow> Done out sidecar
      | Inl e \<Rightarrow> if caught e then Refused e else Escaped e)"

text \<open>\<open>d | {k: v, ...}\<close>: later members replace earlier ones of the same key in place.\<close>

definition dmerge :: "('k, 'v) dict \<Rightarrow> ('k, 'v) dict \<Rightarrow> ('k, 'v) dict" where
  "dmerge d e = foldl (\<lambda>d (k, v). dput k v d) d e"

definition counts_json :: "(ustr, nat) dict \<Rightarrow> json" where
  "counts_json counts = JObj (map (\<lambda>(k, n). (k, JInt (int n))) counts)"

end
