(* ===== verification/CsvText.thy ===== *)
theory CsvText
  imports PyText
begin

section \<open>Quoted CSV\<close>

text \<open>
  \<open>csv.writer(stream, quoting=csv.QUOTE_ALL, lineterminator='\r\n')\<close>, the only writer the
  tools use, and a reference reader for its output: a state machine over the characters that
  accepts quoted fields only. Reading back what was written gives the rows, whatever quotes,
  commas and line breaks the fields hold.
\<close>

definition csv_field :: "ustr \<Rightarrow> ustr" where
  "csv_field s = 34 # replace1 34 [34, 34] s @ [34]"

definition csv_row :: "ustr list \<Rightarrow> ustr" where
  "csv_row fields = join [44] (map csv_field fields) @ [13, 10]"

definition csv_text :: "ustr list list \<Rightarrow> ustr" where
  "csv_text rows = concat (map csv_row rows)"

datatype csv_mode = Start | Inside | Closing | Return

text \<open>The reader: the finished fields of the current row, the field being read, the mode.\<close>

fun csv_scan :: "csv_mode \<Rightarrow> ustr list \<Rightarrow> ustr \<Rightarrow> ustr \<Rightarrow> ustr list list res" where
  "csv_scan Start row f [] = (if row = [] then Inr [] else Inl (ValueError (u ''unfinished row'')))"
| "csv_scan Start row f (c # s) =
     (if c = 34 then csv_scan Inside row [] s else Inl (ValueError (u ''unquoted field'')))"
| "csv_scan Inside row f (c # s) =
     (if c = 34 then csv_scan Closing row f s else csv_scan Inside row (f @ [c]) s)"
| "csv_scan Closing row f (c # s) =
     (if c = 34 then csv_scan Inside row (f @ [34]) s
      else if c = 44 then
        (case s of [] \<Rightarrow> Inl (ValueError (u ''unfinished row'')) | _ \<Rightarrow> csv_scan Start (row @ [f]) [] s)
      else if c = 13 then csv_scan Return (row @ [f]) [] s
      else Inl (ValueError (u ''text after a quoted field'')))"
| "csv_scan Return row f (c # s) =
     (if c = 10 then rbind (csv_scan Start [] [] s) (\<lambda>rows. Inr (row # rows))
      else Inl (ValueError (u ''bare carriage return'')))"
| "csv_scan m row f [] = Inl (ValueError (u ''unfinished field''))"

definition csv_parse :: "ustr \<Rightarrow> ustr list list res" where
  "csv_parse s = csv_scan Start [] [] s"

lemma csv_scan_body:
  "csv_scan Inside row f (replace1 34 [34, 34] s @ 34 # r) = csv_scan Closing row (f @ s) r"
  by (induction s arbitrary: f) auto

lemma csv_scan_field:
  "csv_scan Start row f (csv_field s @ r) = csv_scan Closing row s r"
  by (simp add: csv_field_def csv_scan_body)

lemma csv_scan_row:
  "fields \<noteq> [] \<Longrightarrow> csv_scan Start row f (csv_row fields @ r) =
     rbind (csv_scan Start [] [] r) (\<lambda>rows. Inr ((row @ fields) # rows))"
proof (induction fields arbitrary: row f)
  case Nil
  then show ?case by simp
next
  case (Cons s fields)
  show ?case
  proof (cases fields)
    case Nil
    then show ?thesis by (simp add: csv_row_def csv_scan_field)
  next
    case (Cons s' fields')
    have "csv_row (s # fields) @ r = csv_field s @ 44 # csv_row fields @ r"
      using Cons by (simp add: csv_row_def)
    moreover obtain c q where "csv_row fields @ r = c # q"
      using Cons by (cases fields') (simp_all add: csv_row_def csv_field_def)
    moreover have "csv_scan Start (row @ [s]) [] (csv_row fields @ r) =
        rbind (csv_scan Start [] [] r) (\<lambda>rows. Inr ((row @ s # fields) # rows))"
      using Cons.IH [of "row @ [s]" "[]"] Cons by simp
    ultimately show ?thesis by (simp add: csv_scan_field)
  qed
qed

lemma csv_parse_text: "list_all (\<lambda>r. r \<noteq> []) rows \<Longrightarrow> csv_parse (csv_text rows) = Inr rows"
  unfolding csv_parse_def
  by (induction rows) (simp_all add: csv_text_def csv_scan_row)

interpretation csv: codec csv_text csv_parse "list_all (\<lambda>r. r \<noteq> [])"
  by unfold_locales (rule csv_parse_text)

end
