(* ===== verification/Lcov.thy ===== *)
theory Lcov
  imports Commands CsvText
begin

section \<open>Coverage review (tools/coverage_review.py)\<close>

text \<open>
  The LCOV reader as a state machine over physical lines (\<open>lcov_line\<close>, one branch per record
  kind), the aggregation of the observations of a coordinate, the comparison of two reports, the
  CSV and JSON outputs and the command \<open>main\<close>. A coordinate is a pair of the reported
  path and the reported line. The lemmas show that an accepted report loses, invents and merges
  no observation, and that the comparison classifies every coordinate of either side once.
\<close>

subsection \<open>The report reader\<close>

type_synonym coordinate = "ustr \<times> int"

record observation =
  ob_record :: nat
  ob_report_line :: nat
  ob_test_name :: ustr
  ob_hits :: int
  ob_checksum :: "ustr option"

record lcov_record =
  lr_path :: ustr
  lr_lines :: "(int, observation) dict"
  lr_counters :: "(ustr, int) dict"

record lcov_state =
  ls_current :: "lcov_record option"
  ls_test_name :: ustr
  ls_pending_test :: bool
  ls_records :: nat
  ls_count :: nat
  ls_groups :: "(coordinate, observation list) dict"

definition lcov_start :: lcov_state where
  "lcov_start = \<lparr>ls_current = None, ls_test_name = [], ls_pending_test = False, ls_records = 0,
     ls_count = 0, ls_groups = []\<rparr>"

definition lcov_ignored :: "ustr list" where
  "lcov_ignored = map u [''FN'', ''FNDA'', ''FNF'', ''FNH'', ''BRDA'', ''BRF'', ''BRH'']"

definition lcov_test :: "lcov_state \<Rightarrow> bool \<Rightarrow> ustr \<Rightarrow> lcov_state res" where
  "lcov_test st sep v =
     guard (sep \<and> ls_current st = None \<and> \<not> ls_pending_test st) (u ''misplaced TN'')
       (Inr (st\<lparr>ls_test_name := v, ls_pending_test := True\<rparr>))"

definition lcov_source :: "lcov_state \<Rightarrow> bool \<Rightarrow> ustr \<Rightarrow> lcov_state res" where
  "lcov_source st sep v =
     guard (sep \<and> v \<noteq> [] \<and> ls_current st = None) (u ''misplaced or empty SF'')
     (let records = ls_records st + 1
      in guard (records \<le> 1000) (u ''LCOV exceeds 1000 records'')
        (Inr (st\<lparr>ls_records := records,
                 ls_current := Some \<lparr>lr_path = v, lr_lines = [], lr_counters = []\<rparr>\<rparr>)))"

definition counter_agrees :: "lcov_record \<Rightarrow> unit \<Rightarrow> string \<times> nat \<Rightarrow> unit res" where
  "counter_agrees current _ = (\<lambda>(key, actual).
     guard (\<not> dhas (lr_counters current) (u key) \<or> dget (lr_counters current) (u key) = Some (int actual))
       (u ''LCOV '' @ u key @ u '' counter mismatch'') (Inr ()))"

definition file_row ::
  "ustr \<Rightarrow> (coordinate, observation list) dict \<Rightarrow> int \<times> observation \<Rightarrow> (coordinate, observation list) dict res" where
  "file_row path groups = (\<lambda>(source_line, row). Inr (dappend (path, source_line) row groups))"

definition lcov_end :: "lcov_state \<Rightarrow> lcov_state res" where
  "lcov_end st =
     (case ls_current st of
        None \<Rightarrow> Inl (ValueError (u ''unexpected record terminator''))
      | Some current \<Rightarrow>
          let observations = lr_lines current in
          rbind (fold_res (counter_agrees current) ()
            [(''LF'', length observations),
             (''LH'', length (filter (\<lambda>(k, row). 0 < ob_hits row) observations))]) (\<lambda>_.
          rbind (fold_res (file_row (lr_path current)) (ls_groups st) observations) (\<lambda>groups.
            Inr (st\<lparr>ls_groups := groups, ls_current := None, ls_test_name := [], ls_pending_test := False\<rparr>))))"

definition lcov_observe :: "lcov_state \<Rightarrow> lcov_record \<Rightarrow> nat \<Rightarrow> ustr \<Rightarrow> lcov_state res" where
  "lcov_observe st current physical_line v =
     (let fields = split_on 44 v in
      guard (2 \<le> length fields \<and> length fields \<le> 3 \<and> list_all re_digits (take 2 fields))
        (u ''invalid DA observation'')
      (rbind (py_int (fields ! 0)) (\<lambda>source_line.
       rbind (py_int (fields ! 1)) (\<lambda>hits.
       guard (1 \<le> source_line \<and> source_line \<le> 2147483647 \<and> 0 \<le> hits \<and> hits \<le> 2147483647)
         (u ''DA number outside range'')
       (guard (\<not> dhas (lr_lines current) source_line) (u ''duplicate DA source line within record'')
       (guard (length fields = 2 \<or> fields ! 2 \<noteq> []) (u ''empty DA checksum'')
       (let count = ls_count st + 1 in
        guard (count \<le> 10000) (u ''LCOV exceeds 10000 line observations'')
        (let row = \<lparr>ob_record = ls_records st, ob_report_line = physical_line,
               ob_test_name = ls_test_name st, ob_hits = hits,
               ob_checksum = (if length fields = 3 then Some (fields ! 2) else None)\<rparr>
         in Inr (st\<lparr>ls_count := count,
              ls_current := Some (current\<lparr>lr_lines := dput source_line row (lr_lines current)\<rparr>)\<rparr>)))))))))"

definition lcov_counter :: "lcov_state \<Rightarrow> lcov_record \<Rightarrow> ustr \<Rightarrow> ustr \<Rightarrow> lcov_state res" where
  "lcov_counter st current tag v =
     guard (\<not> dhas (lr_counters current) tag \<and> re_digits v) (u ''invalid or duplicate LCOV counter'')
     (rbind (py_int v) (\<lambda>n.
       Inr (st\<lparr>ls_current := Some (current\<lparr>lr_counters := dput tag n (lr_counters current)\<rparr>)\<rparr>)))"

definition lcov_data :: "lcov_state \<Rightarrow> nat \<Rightarrow> ustr \<Rightarrow> bool \<Rightarrow> ustr \<Rightarrow> lcov_state res" where
  "lcov_data st physical_line tag sep v =
     (case ls_current st of
        None \<Rightarrow> Inl (ValueError (u ''unknown or misplaced LCOV record''))
      | Some current \<Rightarrow>
          guard sep (u ''unknown or misplaced LCOV record'')
          (if tag = u ''DA'' then lcov_observe st current physical_line v
           else if tag = u ''LF'' \<or> tag = u ''LH'' then lcov_counter st current tag v
           else guard (tag \<in> set lcov_ignored) (u ''unsupported LCOV tag: '' @ tag) (Inr st)))"

definition lcov_line :: "lcov_state \<Rightarrow> nat \<times> ustr \<Rightarrow> lcov_state res" where
  "lcov_line st = (\<lambda>(physical_line, line).
     guard (length line \<le> 16384 \<and> line \<noteq> []) (u ''empty or oversized LCOV line'')
     (case partition_on 58 line of (tag, sep, v) \<Rightarrow>
        if tag = u ''TN'' then lcov_test st sep v
        else if tag = u ''SF'' then lcov_source st sep v
        else if line = u ''end_of_record'' then lcov_end st
        else lcov_data st physical_line tag sep v))"

definition lcov_lines :: "ustr \<Rightarrow> ustr list" where
  "lcov_lines s =
     (let lines = split_on 10 (replace_crlf [10] s)
      in if last lines = [] then butlast lines else lines)"

record lcov_stats =
  st_record_count :: nat
  st_line_observation_count :: nat
  st_coordinate_count :: nat

definition lcov :: "bytes \<Rightarrow> ((coordinate, observation list) dict \<times> lcov_stats) res" where
  "lcov data =
     guard (length data \<le> MAX_REPORT) (u ''LCOV exceeds 1 MiB'')
     (rbind (utf8_decode data) (\<lambda>s.
      guard (0 \<notin> set s \<and> 13 \<notin> set (replace_crlf [] s)) (u ''LCOV requires LF or CRLF text without NUL'')
      (rbind (fold_res lcov_line lcov_start (List.enumerate 1 (lcov_lines s))) (\<lambda>st.
       guard (ls_current st = None \<and> \<not> ls_pending_test st \<and> 0 < ls_records st)
         (u ''incomplete or empty LCOV report'')
       (Inr (ls_groups st,
         \<lparr>st_record_count = ls_records st, st_line_observation_count = ls_count st,
          st_coordinate_count = length (ls_groups st)\<rparr>))))))"

subsection \<open>Aggregation and comparison\<close>

record aggregated =
  ag_covered :: bool
  ag_hits_sum :: int
  ag_checksums :: "ustr list"
  ag_missing :: nat
  ag_observations :: "observation list"

definition aggregate :: "observation list option \<Rightarrow> aggregated option" where
  "aggregate observations =
     (case observations of None \<Rightarrow> None
      | Some rows \<Rightarrow> Some
         \<lparr>ag_covered = list_ex (\<lambda>row. 0 < ob_hits row) rows,
          ag_hits_sum = sum_list (map ob_hits rows),
          ag_checksums = sort (remdups (List.map_filter ob_checksum rows)),
          ag_missing = length (filter (\<lambda>row. ob_checksum row = None) rows),
          ag_observations = rows\<rparr>)"

text \<open>
  Truth of the parts of an aggregate the comparison reads; a side is read only where the
  coordinate is present on it, so absence counts as nothing.
\<close>

definition covered :: "aggregated option \<Rightarrow> bool" where
  "covered v = (case v of None \<Rightarrow> False | Some a \<Rightarrow> ag_covered a)"

definition checksums :: "aggregated option \<Rightarrow> ustr list" where
  "checksums v = (case v of None \<Rightarrow> [] | Some a \<Rightarrow> ag_checksums a)"

definition missing :: "aggregated option \<Rightarrow> nat" where
  "missing v = (case v of None \<Rightarrow> 0 | Some a \<Rightarrow> ag_missing a)"

definition transition :: "aggregated option \<Rightarrow> aggregated option \<Rightarrow> ustr" where
  "transition old new =
     (if old = None then (if covered new then u ''added-covered'' else u ''added-uncovered'')
      else if new = None then (if covered old then u ''removed-covered'' else u ''removed-uncovered'')
      else if covered old \<and> \<not> covered new then u ''covered-to-uncovered''
      else if \<not> covered old \<and> covered new then u ''uncovered-to-covered''
      else if covered new then u ''still-covered'' else u ''still-uncovered'')"

definition comparison :: "aggregated option \<Rightarrow> aggregated option \<Rightarrow> ustr \<times> ustr" where
  "comparison old new =
     (let conflict = 1 < length (checksums old) \<or> 1 < length (checksums new);
          both = old \<noteq> None \<and> new \<noteq> None \<and> checksums old \<noteq> [] \<and> checksums new \<noteq> [];
          mismatch = both \<and> checksums old \<noteq> checksums new
      in if conflict then (u ''checksum-conflict'', u ''inconsistent-reported-source'')
         else if mismatch then (u ''source-changed'', u ''different-reported-checksum'')
         else (transition old new,
               if both \<and> missing old = 0 \<and> missing new = 0 then u ''same-reported-checksum''
               else u ''coordinate-only''))"

record coverage_row =
  cr_source_path :: ustr
  cr_source_line :: int
  cr_status :: ustr
  cr_basis :: ustr
  cr_before :: "aggregated option"
  cr_after :: "aggregated option"

type_synonym coverage_groups = "(coordinate, observation list) dict"

definition compare_step ::
  "coverage_groups \<Rightarrow> coverage_groups \<Rightarrow> bool \<Rightarrow> coverage_row list \<times> (ustr, nat) dict \<Rightarrow> coordinate \<Rightarrow>
   coverage_row list \<times> (ustr, nat) dict" where
  "compare_step before after changes_only acc key =
     (case (acc, key) of ((result, counts), (path, line)) \<Rightarrow>
      let old = aggregate (dget before (path, line)); new = aggregate (dget after (path, line));
          (status, basis) = comparison old new;
          row = \<lparr>cr_source_path = path, cr_source_line = line, cr_status = status, cr_basis = basis,
                 cr_before = old, cr_after = new\<rparr>
      in (if \<not> changes_only \<or> \<not> starts_with status (u ''still-'') then result @ [row] else result,
          bump status counts))"

definition compare :: "coverage_groups \<Rightarrow> coverage_groups \<Rightarrow> bool \<Rightarrow> coverage_row list \<times> (ustr, nat) dict" where
  "compare before after changes_only =
     foldl (compare_step before after changes_only) ([], []) (sorted_union (dkeys before) (dkeys after))"

subsection \<open>Output\<close>

definition checksum_json :: "ustr option \<Rightarrow> json" where
  "checksum_json c = (case c of None \<Rightarrow> JNull | Some s \<Rightarrow> JStr s)"

definition observation_json :: "observation \<Rightarrow> json" where
  "observation_json row = JObj
     [(u ''record'', JInt (int (ob_record row))), (u ''report_line'', JInt (int (ob_report_line row))),
      (u ''test_name'', JStr (ob_test_name row)), (u ''hits'', JInt (ob_hits row)),
      (u ''checksum'', checksum_json (ob_checksum row))]"

definition aggregate_json :: "aggregated option \<Rightarrow> json" where
  "aggregate_json v = (case v of None \<Rightarrow> JNull | Some a \<Rightarrow> JObj
     [(u ''covered'', JBool (ag_covered a)), (u ''reported_hits_sum'', JInt (ag_hits_sum a)),
      (u ''checksums'', JArr (map JStr (ag_checksums a))),
      (u ''missing_checksum_count'', JInt (int (ag_missing a))),
      (u ''observations'', JArr (map observation_json (ag_observations a)))])"

definition coverage_row_json :: "coverage_row \<Rightarrow> json" where
  "coverage_row_json row = JObj
     [(u ''source_path'', JStr (cr_source_path row)), (u ''source_line'', JInt (cr_source_line row)),
      (u ''status'', JStr (cr_status row)), (u ''comparison_basis'', JStr (cr_basis row)),
      (u ''before'', aggregate_json (cr_before row)), (u ''after'', aggregate_json (cr_after row))]"

definition coverage_csv_header :: "ustr list" where
  "coverage_csv_header = map u [''source_path'', ''source_line'', ''status'', ''comparison_basis'', ''before_json'', ''after_json'']"

definition coverage_csv_row :: "coverage_row \<Rightarrow> ustr list" where
  "coverage_csv_row row =
     [cr_source_path row, str_int (cr_source_line row), cr_status row, cr_basis row,
      compact (aggregate_json (cr_before row)), compact (aggregate_json (cr_after row))]"

definition csv_output :: "coverage_row list \<Rightarrow> ustr" where
  "csv_output rows = csv_text (coverage_csv_header # map coverage_csv_row rows)"

record coverage_args =
  ca_report :: ustr
  ca_after_report :: "ustr option"
  ca_changes_only :: bool
  ca_csv :: bool

definition after_report :: "coverage_args \<Rightarrow> ustr" where
  "after_report args = (case ca_after_report args of
     None \<Rightarrow> ca_report args | Some r \<Rightarrow> if r = [] then ca_report args else r)"

definition stats_json :: "lcov_stats \<Rightarrow> (ustr \<times> json) list" where
  "stats_json st =
     [(u ''record_count'', JInt (int (st_record_count st))),
      (u ''line_observation_count'', JInt (int (st_line_observation_count st))),
      (u ''coordinate_count'', JInt (int (st_coordinate_count st)))]"

definition coverage_meaning :: ustr where
  "coverage_meaning = u ''Reported line observations at opaque path/line coordinates; not code-equivalent regression proof, test execution, acceptance, or promotion.''"

definition coverage_body ::
  "(bytes \<Rightarrow> zmember list res) \<Rightarrow> bytes res \<Rightarrow> bytes res \<Rightarrow> coverage_args \<Rightarrow> (bytes \<times> ustr) res" where
  "coverage_body zip_open before_file after_file args =
     rbind (read_bundle zip_open before_file (ca_report args) (u ''LCOV'')) (\<lambda>(before_bytes, before_context).
     rbind (read_bundle zip_open after_file (after_report args) (u ''LCOV'')) (\<lambda>(after_bytes, after_context).
     rbind (lcov before_bytes) (\<lambda>(before, before_stats).
     rbind (lcov after_bytes) (\<lambda>(after, after_stats).
     let (rows, counts) = compare before after (ca_changes_only args);
         context =
           [(u ''schema'', JStr (u ''moonfort.coverage-review.v1'')),
            (u ''before'', JObj (dmerge before_context (stats_json before_stats))),
            (u ''after'', JObj (dmerge after_context (stats_json after_stats))),
            (u ''status_counts'', counts_json counts), (u ''row_count'', JInt (int (length rows))),
            (u ''changes_only'', JBool (ca_changes_only args)), (u ''meaning'', JStr coverage_meaning)]
     in rbind (utf8_encode
          (if ca_csv args then csv_output rows
           else pretty (JObj (dmerge context [(u ''rows'', JArr (map coverage_row_json rows))])))) (\<lambda>output.
        guard (length output \<le> MAX_OUTPUT) (u ''comparison exceeds 16 MiB output limit'')
        (Inr (output, pretty (JObj (dmerge context
           [(u ''candidate_sha256'', JStr (sha output)),
            (u ''candidate_size_bytes'', JInt (int (length output)))])))))))))"

definition coverage_main ::
  "(bytes \<Rightarrow> zmember list res) \<Rightarrow> bytes res \<Rightarrow> bytes res \<Rightarrow> coverage_args \<Rightarrow> outcome" where
  "coverage_main zip_open before_file after_file args =
     run_command review_error (coverage_body zip_open before_file after_file args)"

subsection \<open>The reader as a step relation\<close>

text \<open>
  One rule per kind of line that the reader accepts; a line without a rule is refused. The text of an
  observation and the totals of a record are stated directly. \<open>lcov_line_step\<close> says that the reader makes
  exactly these steps; the proofs about accepted reports are by cases on the rules.
\<close>

lemma end_partition: "partition_on 58 (u ''end_of_record'') = (u ''end_of_record'', False, [])"
  by (simp add: u_def)

definition decimal :: "ustr \<Rightarrow> int \<Rightarrow> bool" where
  "decimal s i \<longleftrightarrow> re_digits s \<and> length s \<le> 4300 \<and> i = int (digits_value s)"

lemma py_int_decimal: "re_digits s \<Longrightarrow> py_int s = Inr i \<longleftrightarrow> decimal s i"
  by (cases s) (auto simp: decimal_def py_int_def re_digits_def Let_def is_digit_def u_def)

lemma digits_free: "re_digits s \<Longrightarrow> \<not> is_digit c \<Longrightarrow> c \<notin> set s"
  by (auto simp: re_digits_def list_all_iff)

definition observation_text :: "ustr \<Rightarrow> int \<Rightarrow> int \<Rightarrow> ustr option \<Rightarrow> bool" where
  "observation_text v l h checksum \<longleftrightarrow>
     (\<exists>a b. v = a @ 44 # b @ (case checksum of None \<Rightarrow> [] | Some s \<Rightarrow> 44 # s) \<and> decimal a l \<and> decimal b h) \<and>
     1 \<le> l \<and> l \<le> 2147483647 \<and> h \<le> 2147483647 \<and> (\<forall>s. checksum = Some s \<longrightarrow> s \<noteq> [] \<and> 44 \<notin> set s)"

lemma checksum_split:
  assumes "44 \<notin> set a" "44 \<notin> set b"
  shows "v = a @ 44 # b @ (case checksum of None \<Rightarrow> [] | Some s \<Rightarrow> 44 # s) \<and> (\<forall>s. checksum = Some s \<longrightarrow> 44 \<notin> set s) \<longleftrightarrow>
    split_on 44 v = a # b # (case checksum of None \<Rightarrow> [] | Some s \<Rightarrow> [s])" (is "?whole \<longleftrightarrow> ?parts")
proof
  assume ?whole
  with assms show ?parts by (cases checksum) (auto simp: split_on_append split_on_free)
next
  assume s: ?parts
  have "v = join [44] (split_on 44 v)" by (simp add: join_split_on)
  with s split_on_parts [of _ 44 v] show ?whole by (cases checksum) auto
qed

lemma observation_split:
  "observation_text v l h checksum \<longleftrightarrow>
     (\<exists>a b. split_on 44 v = a # b # (case checksum of None \<Rightarrow> [] | Some s \<Rightarrow> [s]) \<and> decimal a l \<and> decimal b h) \<and>
     1 \<le> l \<and> l \<le> 2147483647 \<and> h \<le> 2147483647 \<and> checksum \<noteq> Some []"
proof -
  have free: "decimal a i \<Longrightarrow> 44 \<notin> set a" for a i by (rule digits_free) (simp_all add: decimal_def is_digit_def)
  have "(\<exists>a b. (v = a @ 44 # b @ (case checksum of None \<Rightarrow> [] | Some s \<Rightarrow> 44 # s) \<and> (\<forall>s. checksum = Some s \<longrightarrow> 44 \<notin> set s)) \<and>
      decimal a l \<and> decimal b h) \<longleftrightarrow>
    (\<exists>a b. split_on 44 v = a # b # (case checksum of None \<Rightarrow> [] | Some s \<Rightarrow> [s]) \<and> decimal a l \<and> decimal b h)"
  proof (intro iff_exI)
    fix a b
    show "(v = a @ 44 # b @ (case checksum of None \<Rightarrow> [] | Some s \<Rightarrow> 44 # s) \<and> (\<forall>s. checksum = Some s \<longrightarrow> 44 \<notin> set s)) \<and>
      decimal a l \<and> decimal b h \<longleftrightarrow>
      split_on 44 v = a # b # (case checksum of None \<Rightarrow> [] | Some s \<Rightarrow> [s]) \<and> decimal a l \<and> decimal b h"
      using checksum_split [of a b v checksum] free [of a l] free [of b h] by argo
  qed
  then show ?thesis unfolding observation_text_def by (cases checksum) auto
qed

definition observed :: "lcov_state \<Rightarrow> nat \<Rightarrow> int \<Rightarrow> ustr option \<Rightarrow> observation" where
  "observed st n hits checksum = \<lparr>ob_record = ls_records st, ob_report_line = n, ob_test_name = ls_test_name st,
     ob_hits = hits, ob_checksum = checksum\<rparr>"

lemma lcov_observe_iff:
  "lcov_observe st c n v = Inr st' \<longleftrightarrow>
     (\<exists>l h checksum. observation_text v l h checksum \<and> \<not> dhas (lr_lines c) l \<and> ls_count st < 10000 \<and>
        st' = st\<lparr>ls_count := Suc (ls_count st), ls_current := Some (c\<lparr>lr_lines := lr_lines c @ [(l, observed st n h checksum)]\<rparr>)\<rparr>)"
  (is "?run \<longleftrightarrow> ?obs")
proof
  assume ?run
  then obtain l h where f: "2 \<le> length (split_on 44 v)" "length (split_on 44 v) \<le> 3" "list_all re_digits (take 2 (split_on 44 v))"
    and l: "py_int (split_on 44 v ! 0) = Inr l" and h: "py_int (split_on 44 v ! 1) = Inr h"
    and rest: "1 \<le> l" "l \<le> 2147483647" "0 \<le> h" "h \<le> 2147483647" "\<not> dhas (lr_lines c) l" "ls_count st < 10000"
      "length (split_on 44 v) = 2 \<or> split_on 44 v ! 2 \<noteq> []"
      "st' = st\<lparr>ls_count := Suc (ls_count st), ls_current := Some (c\<lparr>lr_lines := dput l
        (observed st n h (if length (split_on 44 v) = 3 then Some (split_on 44 v ! 2) else None)) (lr_lines c)\<rparr>)\<rparr>"
    by (auto simp: lcov_observe_def res_simps Let_def observed_def)
  from f obtain a b xs where s: "split_on 44 v = a # b # xs" "length xs \<le> 1"
    by (cases "split_on 44 v"; cases "tl (split_on 44 v)") auto
  with f l h have "decimal a l" "decimal b h" by (simp_all add: py_int_decimal)
  moreover define checksum where "checksum = (if length (split_on 44 v) = 3 then Some (split_on 44 v ! 2) else None)"
  moreover have "xs = (case checksum of None \<Rightarrow> [] | Some s \<Rightarrow> [s])" "checksum \<noteq> Some []"
    using s rest(7) by (cases xs; simp add: checksum_def)+
  ultimately have "observation_text v l h checksum" using s(1) rest(1-4) by (simp add: observation_split)
  with rest(5,6,8) show ?obs unfolding checksum_def [symmetric] by (auto simp: dput_fresh)
next
  assume ?obs
  then obtain l h checksum where o: "observation_text v l h checksum" and rest: "\<not> dhas (lr_lines c) l" "ls_count st < 10000"
    "st' = st\<lparr>ls_count := Suc (ls_count st), ls_current := Some (c\<lparr>lr_lines := lr_lines c @ [(l, observed st n h checksum)]\<rparr>)\<rparr>" by blast
  from o obtain a b where "split_on 44 v = a # b # (case checksum of None \<Rightarrow> [] | Some s \<Rightarrow> [s])" "decimal a l" "decimal b h"
    "1 \<le> l" "l \<le> 2147483647" "h \<le> 2147483647" "checksum \<noteq> Some []" by (auto simp: observation_split)
  moreover from this have "re_digits a" "re_digits b" "py_int a = Inr l" "py_int b = Inr h" "0 \<le> h"
    by (auto simp: decimal_def py_int_decimal)
  ultimately show ?run using rest
    by (cases checksum) (auto simp: lcov_observe_def Let_def observed_def dput_fresh)
qed

lemma partition_on_parts: "partition_on c s = (h, sep, t) \<Longrightarrow> c \<notin> set h \<and> (if sep then s = h @ c # t else s = h \<and> t = [])"
  by (induction s arbitrary: h) (auto split: if_splits prod.splits)

text \<open>\<open>groups.setdefault(key, []).append(row)\<close> for a list of rows.\<close>

definition filed :: "(coordinate, observation list) dict \<Rightarrow> (coordinate \<times> observation) list \<Rightarrow> (coordinate, observation list) dict" where
  "filed = foldl (\<lambda>groups (key, row). dappend key row groups)"

definition rows_of :: "lcov_record \<Rightarrow> (coordinate \<times> observation) list" where
  "rows_of c = map (\<lambda>(l, row). ((lr_path c, l), row)) (lr_lines c)"

lemma file_rows_filed: "fold_res (file_row path) groups xs = Inr (filed groups (map (\<lambda>(l, row). ((path, l), row)) xs))"
  by (induction xs arbitrary: groups) (auto simp: filed_def file_row_def)

definition totals_right :: "(int \<times> int) list \<Rightarrow> (ustr, int) dict \<Rightarrow> bool" where
  "totals_right obs counters \<longleftrightarrow>
     (\<forall>i. dget counters (u ''LF'') = Some i \<longrightarrow> i = int (length obs)) \<and>
     (\<forall>i. dget counters (u ''LH'') = Some i \<longrightarrow> i = int (length (filter (\<lambda>(l, h). 0 < h) obs)))"

definition hits_of :: "lcov_record \<Rightarrow> (int \<times> int) list" where
  "hits_of c = map (\<lambda>(l, row). (l, ob_hits row)) (lr_lines c)"

lemma counters_agree_iff:
  "fold_res (counter_agrees c) () [(''LF'', length (lr_lines c)), (''LH'', length (filter (\<lambda>(k, row). 0 < ob_hits row) (lr_lines c)))] = Inr () \<longleftrightarrow>
   totals_right (hits_of c) (lr_counters c)"
  by (cases "dget (lr_counters c) (u ''LF'')"; cases "dget (lr_counters c) (u ''LH'')")
     (auto simp: counter_agrees_def totals_right_def hits_of_def guard_eq_Inr rbind_eq_Inr dhas_iff filter_map comp_def case_prod_unfold)

inductive lcov_step :: "lcov_state \<Rightarrow> nat \<Rightarrow> ustr \<Rightarrow> lcov_state \<Rightarrow> bool" for st n line where
  test: "line = u ''TN'' @ 58 # v \<Longrightarrow> ls_current st = None \<Longrightarrow> \<not> ls_pending_test st \<Longrightarrow>
    lcov_step st n line (st\<lparr>ls_test_name := v, ls_pending_test := True\<rparr>)"
| source: "line = u ''SF'' @ 58 # v \<Longrightarrow> v \<noteq> [] \<Longrightarrow> ls_current st = None \<Longrightarrow> ls_records st < 1000 \<Longrightarrow>
    lcov_step st n line (st\<lparr>ls_records := Suc (ls_records st), ls_current := Some \<lparr>lr_path = v, lr_lines = [], lr_counters = []\<rparr>\<rparr>)"
| finish: "line = u ''end_of_record'' \<Longrightarrow> ls_current st = Some c \<Longrightarrow> totals_right (hits_of c) (lr_counters c) \<Longrightarrow>
    lcov_step st n line (st\<lparr>ls_groups := filed (ls_groups st) (rows_of c), ls_current := None, ls_test_name := [], ls_pending_test := False\<rparr>)"
| observe: "line = u ''DA'' @ 58 # v \<Longrightarrow> ls_current st = Some c \<Longrightarrow> observation_text v l h checksum \<Longrightarrow>
    \<not> dhas (lr_lines c) l \<Longrightarrow> ls_count st < 10000 \<Longrightarrow>
    lcov_step st n line (st\<lparr>ls_count := Suc (ls_count st),
      ls_current := Some (c\<lparr>lr_lines := lr_lines c @ [(l, observed st n h checksum)]\<rparr>)\<rparr>)"
| counter: "line = tag @ 58 # v \<Longrightarrow> tag = u ''LF'' \<or> tag = u ''LH'' \<Longrightarrow> ls_current st = Some c \<Longrightarrow>
    \<not> dhas (lr_counters c) tag \<Longrightarrow> decimal v m \<Longrightarrow>
    lcov_step st n line (st\<lparr>ls_current := Some (c\<lparr>lr_counters := lr_counters c @ [(tag, m)]\<rparr>)\<rparr>)"
| ignored: "line = tag @ 58 # v \<Longrightarrow> tag \<in> set lcov_ignored \<Longrightarrow> ls_current st = Some c \<Longrightarrow> lcov_step st n line st"

lemma lcov_test_iff:
  "lcov_test st sep v = Inr st' \<longleftrightarrow> sep \<and> ls_current st = None \<and> \<not> ls_pending_test st \<and> st' = st\<lparr>ls_test_name := v, ls_pending_test := True\<rparr>"
  by (auto simp: lcov_test_def res_simps)

lemma lcov_source_iff:
  "lcov_source st sep v = Inr st' \<longleftrightarrow> sep \<and> v \<noteq> [] \<and> ls_current st = None \<and> ls_records st < 1000 \<and>
     st' = st\<lparr>ls_records := Suc (ls_records st), ls_current := Some \<lparr>lr_path = v, lr_lines = [], lr_counters = []\<rparr>\<rparr>"
  by (auto simp: lcov_source_def res_simps Let_def)

lemma lcov_end_iff:
  "lcov_end st = Inr st' \<longleftrightarrow> (\<exists>c. ls_current st = Some c \<and> totals_right (hits_of c) (lr_counters c) \<and>
     st' = st\<lparr>ls_groups := filed (ls_groups st) (rows_of c), ls_current := None, ls_test_name := [], ls_pending_test := False\<rparr>)"
  by (cases "ls_current st")
     (auto simp: lcov_end_def Let_def rbind_eq_Inr file_rows_filed rows_of_def counters_agree_iff [symmetric] simp del: fold_res.simps)

lemma lcov_counter_iff:
  "lcov_counter st c tag v = Inr st' \<longleftrightarrow> \<not> dhas (lr_counters c) tag \<and>
     (\<exists>m. decimal v m \<and> st' = st\<lparr>ls_current := Some (c\<lparr>lr_counters := lr_counters c @ [(tag, m)]\<rparr>)\<rparr>)"
proof -
  have "decimal v m \<Longrightarrow> re_digits v" for m by (simp add: decimal_def)
  then show ?thesis by (auto simp: lcov_counter_def res_simps dput_fresh py_int_decimal)
qed

lemma partition_tag [simp]:
  "partition_on 58 (u ''TN'' @ 58 # v) = (u ''TN'', True, v)" "partition_on 58 (u ''SF'' @ 58 # v) = (u ''SF'', True, v)"
  "partition_on 58 (u ''DA'' @ 58 # v) = (u ''DA'', True, v)" "partition_on 58 (u ''LF'' @ 58 # v) = (u ''LF'', True, v)"
  "partition_on 58 (u ''LH'' @ 58 # v) = (u ''LH'', True, v)"
  "tag \<in> set lcov_ignored \<Longrightarrow> partition_on 58 (tag @ 58 # v) = (tag, True, v)"
  by (auto simp: lcov_ignored_def intro!: partition_on_found) (simp_all add: u_def)

lemma tagged_not_end: "tag @ 58 # v \<noteq> u ''end_of_record''"
proof
  assume "tag @ 58 # v = u ''end_of_record''"
  then have "58 \<in> set (u ''end_of_record'')" by (metis in_set_conv_decomp)
  then show False by (simp add: u_def)
qed

lemma lcov_step_line:
  assumes "lcov_step st n line st'" "length line \<le> 16384"
  shows "lcov_line st (n, line) = Inr st'"
  using assms
  by (cases rule: lcov_step.cases)
     (auto simp: lcov_line_def lcov_test_iff lcov_source_iff lcov_end_iff lcov_data_def lcov_observe_iff lcov_counter_iff
       end_partition tagged_not_end lcov_ignored_def)

lemma lcov_data_step:
  assumes "lcov_data st n tag True v = Inr st'"
  shows "lcov_step st n (tag @ 58 # v) st'"
proof -
  from assms obtain c where c: "ls_current st = Some c"
    and kind: "(if tag = u ''DA'' then lcov_observe st c n v
           else if tag = u ''LF'' \<or> tag = u ''LH'' then lcov_counter st c tag v
           else guard (tag \<in> set lcov_ignored) (u ''unsupported LCOV tag: '' @ tag) (Inr st)) = Inr st'"
    by (auto simp: lcov_data_def split: option.splits)
  consider "tag = u ''DA''" | "tag = u ''LF'' \<or> tag = u ''LH''" "tag \<noteq> u ''DA''"
    | "tag \<noteq> u ''DA''" "\<not> (tag = u ''LF'' \<or> tag = u ''LH'')" by blast
  then show ?thesis
  proof cases
    case 1
    with kind c show ?thesis by (auto simp: lcov_observe_iff intro: lcov_step.observe)
  next
    case 2
    with kind c show ?thesis by (auto simp: lcov_counter_iff intro: lcov_step.counter)
  next
    case 3
    with kind c show ?thesis by (auto simp: guard_eq_Inr intro: lcov_step.ignored)
  qed
qed

text \<open>The reader makes exactly the steps of the rules, on lines of at most 16384 characters.\<close>

lemma lcov_line_step: "lcov_line st (n, line) = Inr st' \<longleftrightarrow> length line \<le> 16384 \<and> lcov_step st n line st'"
proof
  assume run: "lcov_line st (n, line) = Inr st'"
  obtain tag sep v where p: "partition_on 58 line = (tag, sep, v)" by (cases "partition_on 58 line") auto
  from partition_on_parts [OF this] have line: "line = (if sep then tag @ 58 # v else tag)" by (simp split: if_splits)
  from run p have len: "length line \<le> 16384"
    and kind: "(if tag = u ''TN'' then lcov_test st sep v else if tag = u ''SF'' then lcov_source st sep v
        else if line = u ''end_of_record'' then lcov_end st else lcov_data st n tag sep v) = Inr st'"
    by (simp_all add: lcov_line_def guard_eq_Inr)
  have "sep" if "lcov_data st n tag sep v = Inr st'" using that by (auto simp: lcov_data_def res_simps split: option.splits)
  then have "lcov_step st n line st'" using kind line
    by (auto simp: lcov_test_iff lcov_source_iff lcov_end_iff split: if_splits intro: lcov_step.intros lcov_data_step)
  with len show "length line \<le> 16384 \<and> lcov_step st n line st'" ..
qed (blast intro: lcov_step_line)

subsection \<open>The reader against a reference reading\<close>

text \<open>
  The reference reading checks nothing: it walks the lines with the path, record number and test
  name in force and lists one fact per \<open>DA\<close> line. An accepted report is one whose groups hold
  exactly these facts, per coordinate and in report order.
\<close>

type_synonym lcov_context = "ustr \<times> nat \<times> ustr"

definition next_context :: "lcov_context \<Rightarrow> ustr \<Rightarrow> lcov_context" where
  "next_context ctx line =
     (case (ctx, partition_on 58 line) of ((path, rec_no, test), (tag, sep, v)) \<Rightarrow>
        if tag = u ''TN'' then (path, rec_no, v)
        else if tag = u ''SF'' then (v, rec_no + 1, test)
        else if line = u ''end_of_record'' then (path, rec_no, [])
        else ctx)"

definition line_fact :: "lcov_context \<Rightarrow> nat \<Rightarrow> ustr \<Rightarrow> (coordinate \<times> observation) list" where
  "line_fact ctx n line =
     (case (ctx, partition_on 58 line) of ((path, rec_no, test), (tag, sep, v)) \<Rightarrow>
        if tag = u ''DA'' then
          (let fields = split_on 44 v in
           [((path, int (digits_value (fields ! 0))),
             \<lparr>ob_record = rec_no, ob_report_line = n, ob_test_name = test,
              ob_hits = int (digits_value (fields ! 1)),
              ob_checksum = (if length fields = 3 then Some (fields ! 2) else None)\<rparr>)])
        else [])"

fun reported :: "lcov_context \<Rightarrow> nat \<Rightarrow> ustr list \<Rightarrow> (coordinate \<times> observation) list" where
  "reported ctx n [] = []"
| "reported ctx n (line # rest) = line_fact ctx n line @ reported (next_context ctx line) (n + 1) rest"

definition report_facts :: "ustr \<Rightarrow> (coordinate \<times> observation) list" where
  "report_facts s = reported ([], 0, []) 1 (lcov_lines s)"

definition source_records :: "ustr \<Rightarrow> nat" where
  "source_records s = length (filter (\<lambda>line. fst (partition_on 58 line) = u ''SF'') (lcov_lines s))"

interpretation filing: collector "file_row path" dmembers "\<lambda>x. (path, fst x)" snd for path
  by unfold_locales (auto simp: file_row_def dmembers_dappend split: if_splits)

lemma py_int_digits: "re_digits s \<Longrightarrow> py_int s = Inr i \<Longrightarrow> i = int (digits_value s)"
  by (cases s) (auto simp: py_int_def re_digits_def Let_def is_digit_def u_def split: if_splits)

lemma file_rows_dict_ok:
  "fold_res (file_row path) d xs = Inr d' \<Longrightarrow> dict_ok d \<Longrightarrow> dict_ok d'"
  by (erule fold_res_keeps) (auto simp: file_row_def intro: dict_ok_dappend)

lemma file_rows_keys:
  "fold_res (file_row path) d xs = Inr d' \<Longrightarrow> set (dkeys d') = set (dkeys d) \<union> Pair path ` fst ` set xs"
proof (induction xs arbitrary: d)
  case Nil
  then show ?case by simp
next
  case (Cons x xs)
  then have "set (dkeys d') = set (dkeys (dappend (path, fst x) (snd x) d)) \<union> Pair path ` fst ` set xs"
    by (simp add: file_row_def split_beta)
  then show ?case by (auto simp: dkeys_dappend)
qed

text \<open>What the reader has gathered under a coordinate: the finished records, then the open one.\<close>

definition gathered :: "lcov_state \<Rightarrow> coordinate \<Rightarrow> observation list" where
  "gathered st k = dmembers (ls_groups st) k @
     (case ls_current st of None \<Rightarrow> []
      | Some c \<Rightarrow> map snd (filter (\<lambda>x. k = (lr_path c, fst x)) (lr_lines c)))"

definition context_of :: "lcov_state \<Rightarrow> lcov_context \<Rightarrow> bool" where
  "context_of st ctx \<longleftrightarrow> (case ctx of (path, rec_no, test) \<Rightarrow>
     (\<forall>c. ls_current st = Some c \<longrightarrow> path = lr_path c) \<and> rec_no = ls_records st \<and> test = ls_test_name st)"

lemma observation_fields:
  assumes "observation_text v l h checksum"
  shows "l = int (digits_value (split_on 44 v ! 0))" "h = int (digits_value (split_on 44 v ! 1))"
    "checksum = (if length (split_on 44 v) = 3 then Some (split_on 44 v ! 2) else None)"
    "1 \<le> l" "l \<le> 2147483647" "0 \<le> h" "h \<le> 2147483647"
  using assms by (auto simp: observation_split decimal_def split: option.splits)

lemma filed_rows_members: "dmembers (filed groups (rows_of c)) k = dmembers groups k @ map snd (filter (\<lambda>x. k = (lr_path c, fst x)) (lr_lines c))"
  using filing.run_members [OF file_rows_filed [of "lr_path c" groups "lr_lines c"], of k] by (simp add: rows_of_def)

lemma lcov_line_gathers:
  assumes "lcov_line st (n, line) = Inr st'" and "context_of st ctx"
  shows "context_of st' (next_context ctx line) \<and>
    gathered st' k = gathered st k @ map snd (filter (\<lambda>f. fst f = k) (line_fact ctx n line)) \<and>
    ls_count st' = ls_count st + length (line_fact ctx n line) \<and>
    ls_records st' = ls_records st + (if fst (partition_on 58 line) = u ''SF'' then 1 else 0)"
proof -
  obtain path r t where ctx: "ctx = (path, r, t)" by (cases ctx)
  with assms(2) have rt: "r = ls_records st" "t = ls_test_name st"
    and path: "\<And>c. ls_current st = Some c \<Longrightarrow> path = lr_path c" by (auto simp: context_of_def)
  note defs = context_of_def next_context_def line_fact_def gathered_def
  from assms(1) have "lcov_step st n line st'" by (simp add: lcov_line_step)
  then show ?thesis
  proof cases
    case (finish c)
    with ctx rt show ?thesis by (simp add: defs end_partition filed_rows_members)
  next
    case (observe v c l h checksum)
    with ctx rt path observation_fields [OF observe(4)] show ?thesis
      by (auto simp: defs Let_def tagged_not_end observed_def)
  next
    case (counter tag v c m)
    with ctx rt path show ?thesis by (auto simp: defs tagged_not_end)
  next
    case (ignored tag v c)
    with ctx rt path show ?thesis by (auto simp: defs tagged_not_end lcov_ignored_def)
  qed (use ctx rt in \<open>simp_all add: defs\<close>)
qed

lemma lcov_run_gathers:
  assumes "fold_res lcov_line st (List.enumerate n lines) = Inr st'" and "context_of st ctx"
  shows "gathered st' k = gathered st k @ map snd (filter (\<lambda>f. fst f = k) (reported ctx n lines)) \<and>
    ls_count st' = ls_count st + length (reported ctx n lines) \<and>
    ls_records st' = ls_records st + length (filter (\<lambda>line. fst (partition_on 58 line) = u ''SF'') lines)"
  using assms
proof (induction lines arbitrary: st n ctx)
  case Nil
  then show ?case by simp
next
  case (Cons line lines)
  from Cons.prems obtain st1 where one: "lcov_line st (n, line) = Inr st1"
    and run: "fold_res lcov_line st1 (List.enumerate (Suc n) lines) = Inr st'"
    by (auto simp: res_simps)
  note step = lcov_line_gathers [OF one Cons.prems(2), of k]
  note rest = Cons.IH [OF run, of "next_context ctx line"]
  from step rest show ?case by simp
qed

text \<open>The shape of the reader's state: what later code relies on.\<close>

definition lcov_inv :: "lcov_state \<Rightarrow> bool" where
  "lcov_inv st \<longleftrightarrow>
     dict_ok (ls_groups st) \<and> ls_records st \<le> 1000 \<and> ls_count st \<le> 10000 \<and>
     (\<forall>k \<in> set (dkeys (ls_groups st)). dmembers (ls_groups st) k \<noteq> []) \<and>
     (\<forall>k. sorted_wrt (<) (map ob_record (gathered st k))) \<and>
     (\<forall>k. \<forall>row \<in> set (gathered st k). 1 \<le> snd k \<and> snd k \<le> 2147483647 \<and>
        0 \<le> ob_hits row \<and> ob_hits row \<le> 2147483647 \<and> ob_record row \<le> ls_records st) \<and>
     (\<forall>c. ls_current st = Some c \<longrightarrow> dict_ok (lr_lines c) \<and>
        (\<forall>k. \<forall>row \<in> set (dmembers (ls_groups st) k). ob_record row < ls_records st))"

lemma lcov_inv_start: "lcov_inv lcov_start"
  by (simp add: lcov_inv_def lcov_start_def gathered_def)

lemma gathered_fresh:
  "ls_current st = Some c \<Longrightarrow> \<not> dhas (lr_lines c) l \<Longrightarrow> gathered st (lr_path c, l) = dmembers (ls_groups st) (lr_path c, l)"
  by (auto simp: gathered_def dhas_def dkeys_def filter_empty_conv image_iff)

lemma file_rows_members_nonempty:
  assumes "fold_res (file_row path) d xs = Inr d'" "\<forall>k \<in> set (dkeys d). dmembers d k \<noteq> []"
  shows "\<forall>k \<in> set (dkeys d'). dmembers d' k \<noteq> []"
proof
  fix k assume "k \<in> set (dkeys d')"
  then have "k \<in> set (dkeys d) \<or> (\<exists>x \<in> set xs. k = (path, fst x))" using file_rows_keys [OF assms(1)] by auto
  then show "dmembers d' k \<noteq> []" using filing.run_members [OF assms(1), of k] assms(2)
    by (auto simp: filter_empty_conv)
qed

lemma lcov_line_inv:
  assumes "lcov_line st (n, line) = Inr st'" and "lcov_inv st"
  shows "lcov_inv st'"
proof -
  from assms(1) have "lcov_step st n line st'" by (simp add: lcov_line_step)
  then show ?thesis
  proof cases
    case (test v)
    then have "gathered st' = gathered st" by (simp add: gathered_def fun_eq_iff)
    with test assms(2) show ?thesis by (simp add: lcov_inv_def)
  next
    case (source v)
    then have "gathered st' = gathered st" "gathered st = dmembers (ls_groups st)" by (simp_all add: gathered_def fun_eq_iff)
    with source assms(2) show ?thesis by (auto simp: lcov_inv_def le_Suc_eq less_Suc_eq_le)
  next
    case (finish c)
    note run = file_rows_filed [of "lr_path c" "ls_groups st" "lr_lines c", folded rows_of_def]
    have "gathered st' k = gathered st k" for k
      using finish by (simp add: gathered_def filed_rows_members)
    moreover have "dict_ok (filed (ls_groups st) (rows_of c))"
      using file_rows_dict_ok [OF run] assms(2) by (simp add: lcov_inv_def)
    moreover have "\<forall>k \<in> set (dkeys (filed (ls_groups st) (rows_of c))). dmembers (filed (ls_groups st) (rows_of c)) k \<noteq> []"
      using file_rows_members_nonempty [OF run] assms(2) by (simp add: lcov_inv_def)
    ultimately show ?thesis using finish assms(2) by (simp add: lcov_inv_def)
  next
    case (observe v c l h checksum)
    define row where "row = observed st n h checksum"
    have row: "ob_record row = ls_records st" "0 \<le> ob_hits row" "ob_hits row \<le> 2147483647" and l: "1 \<le> l" "l \<le> 2147483647"
      using observation_fields [OF observe(4)] by (simp_all add: row_def observed_def)
    note st' = observe(1) [folded row_def] and obs = observe(3,5,6)
    have g: "gathered st' k = (if k = (lr_path c, l) then gathered st k @ [row] else gathered st k)" for k
      using obs st' by (auto simp: gathered_def)
    have "gathered st (lr_path c, l) = dmembers (ls_groups st) (lr_path c, l)"
      using obs by (intro gathered_fresh)
    then have "\<forall>r \<in> set (gathered st (lr_path c, l)). ob_record r < ls_records st"
      using assms(2) obs(1) by (simp add: lcov_inv_def)
    then have "sorted_wrt (<) (map ob_record (gathered st' k))" for k
      using assms(2) row(1) by (cases k) (auto simp: g lcov_inv_def sorted_wrt_append)
    moreover have "dict_ok (lr_lines c @ [(l, row)])"
      using assms(2) obs by (auto simp: lcov_inv_def dict_ok_def dkeys_def dhas_def)
    moreover have "\<forall>k. \<forall>row \<in> set (gathered st' k). 1 \<le> snd k \<and> snd k \<le> 2147483647 \<and>
          0 \<le> ob_hits row \<and> ob_hits row \<le> 2147483647 \<and> ob_record row \<le> ls_records st"
      using assms(2) row l by (cases st) (simp add: lcov_inv_def g)
    ultimately show ?thesis using obs st' assms(2) by (simp add: lcov_inv_def)
  next
    case (counter tag v c m)
    then have "gathered st' = gathered st" by (simp add: gathered_def fun_eq_iff)
    with counter assms(2) show ?thesis by (simp add: lcov_inv_def)
  qed (use assms(2) in simp)
qed

lemma lcov_run_inv:
  "fold_res lcov_line st xs = Inr st' \<Longrightarrow> lcov_inv st \<Longrightarrow> lcov_inv st'"
  by (erule fold_res_keeps) (auto intro: lcov_line_inv)

lemma lcov_Inr:
  assumes "lcov data = Inr (groups, stats)"
  obtains s st where "utf8_decode data = Inr s" "length data \<le> MAX_REPORT"
    "fold_res lcov_line lcov_start (List.enumerate 1 (lcov_lines s)) = Inr st"
    "ls_current st = None" "ls_groups st = groups" "st_record_count stats = ls_records st" "0 < ls_records st"
    "st_line_observation_count stats = ls_count st" "st_coordinate_count stats = length groups"
  using assms by (auto simp: lcov_def res_simps)

lemma dict_key_members:
  "(\<forall>k \<in> set (dkeys d). dmembers d k \<noteq> []) \<Longrightarrow> k \<in> set (dkeys d) \<longleftrightarrow> dmembers d k \<noteq> []"
  using dget_None_iff [of d k] by (auto simp: dmembers_def)

lemma lcov_exact:
  assumes "lcov data = Inr (groups, stats)" and "utf8_decode data = Inr s"
  shows "dmembers groups k = map snd (filter (\<lambda>f. fst f = k) (report_facts s))"
    and "set (dkeys groups) = fst ` set (report_facts s)"
    and "st_line_observation_count stats = length (report_facts s)"
    and "st_record_count stats = source_records s"
    and "dict_ok groups" and "lcov_inv \<lparr>ls_current = None, ls_test_name = [], ls_pending_test = False,
      ls_records = st_record_count stats, ls_count = st_line_observation_count stats, ls_groups = groups\<rparr>"
    and "st_coordinate_count stats = length groups"
proof -
  obtain st where run: "fold_res lcov_line lcov_start (List.enumerate 1 (lcov_lines s)) = Inr st"
    and st: "ls_current st = None" "ls_groups st = groups" "st_record_count stats = ls_records st"
      "st_line_observation_count stats = ls_count st" "st_coordinate_count stats = length groups"
    using lcov_Inr [OF assms(1)] assms(2) by (metis sum.inject(2))
  have ctx: "context_of lcov_start ([], 0, [])" by (simp add: context_of_def lcov_start_def)
  have inv: "lcov_inv st" using lcov_run_inv [OF run lcov_inv_start] .
  have all: "dmembers groups k = map snd (filter (\<lambda>f. fst f = k) (report_facts s))" for k
    using lcov_run_gathers [OF run ctx, of k] st(1,2)
    by (simp add: gathered_def lcov_start_def report_facts_def)
  then show "dmembers groups k = map snd (filter (\<lambda>f. fst f = k) (report_facts s))" .
  have "k \<in> set (dkeys groups) \<longleftrightarrow> dmembers groups k \<noteq> []" for k
    using inv st by (intro dict_key_members) (auto simp: lcov_inv_def)
  then have "k \<in> set (dkeys groups) \<longleftrightarrow> k \<in> fst ` set (report_facts s)" for k
    by (simp add: all filter_empty_conv image_iff) metis
  then show "set (dkeys groups) = fst ` set (report_facts s)" by blast
  show "st_line_observation_count stats = length (report_facts s)" "st_record_count stats = source_records s"
    using lcov_run_gathers [OF run ctx, of undefined] st
    by (simp_all add: lcov_start_def report_facts_def source_records_def)
  show "dict_ok groups" using inv st by (simp add: lcov_inv_def)
  show "lcov_inv \<lparr>ls_current = None, ls_test_name = [], ls_pending_test = False,
      ls_records = st_record_count stats, ls_count = st_line_observation_count stats, ls_groups = groups\<rparr>"
    using inv st by (simp add: lcov_inv_def gathered_def)
  show "st_coordinate_count stats = length groups" by fact
qed

lemma length_filter_sum:
  "length xs = (\<Sum>k \<in> fst ` set xs. length (filter (\<lambda>f. fst f = k) xs))"
proof -
  have "length xs = (\<Sum>k \<in> A. length (filter (\<lambda>f. fst f = k) xs))" if "finite A" "fst ` set xs \<subseteq> A" for A
    using that(2)
  proof (induction xs)
    case Nil
    then show ?case by simp
  next
    case (Cons x xs)
    have "(\<Sum>k \<in> A. length (filter (\<lambda>f. fst f = k) (x # xs))) =
        (\<Sum>k \<in> A. length (filter (\<lambda>f. fst f = k) xs) + (if fst x = k then 1 else 0))"
      by (rule sum.cong) auto
    also have "\<dots> = length xs + 1" using Cons that(1) by (simp add: sum.distrib)
    finally show ?case by simp
  qed
  from this [of "fst ` set xs"] show ?thesis by simp
qed

subsection \<open>The comparison classifies every coordinate once\<close>

definition compare_row :: "coverage_groups \<Rightarrow> coverage_groups \<Rightarrow> coordinate \<Rightarrow> coverage_row" where
  "compare_row before after key =
     (let old = aggregate (dget before key); new = aggregate (dget after key)
      in \<lparr>cr_source_path = fst key, cr_source_line = snd key, cr_status = fst (comparison old new),
          cr_basis = snd (comparison old new), cr_before = old, cr_after = new\<rparr>)"

definition row_key :: "coverage_row \<Rightarrow> coordinate" where
  "row_key row = (cr_source_path row, cr_source_line row)"

definition unchanged :: "coverage_row \<Rightarrow> bool" where
  "unchanged row = starts_with (cr_status row) (u ''still-'')"

lemma row_key_compare_row [simp]: "row_key (compare_row before after key) = key"
  by (simp add: row_key_def compare_row_def Let_def)

lemma compare_step_eq:
  "compare_step before after changes_only (result, counts) key =
     (let row = compare_row before after key
      in (if \<not> changes_only \<or> \<not> unchanged row then result @ [row] else result, bump (cr_status row) counts))"
  by (cases key) (simp add: compare_step_def compare_row_def unchanged_def Let_def split_beta)

lemma compare_steps:
  "foldl (compare_step before after changes_only) (result, counts) keys =
     (result @ filter (\<lambda>row. \<not> changes_only \<or> \<not> unchanged row) (map (compare_row before after) keys),
      foldl (\<lambda>d k. bump k d) counts (map cr_status (map (compare_row before after) keys)))"
  by (induction keys arbitrary: result counts) (simp_all add: compare_step_eq Let_def)

lemma compare_eq:
  "compare before after changes_only =
     (let rows = map (compare_row before after) (sorted_union (dkeys before) (dkeys after))
      in (filter (\<lambda>row. \<not> changes_only \<or> \<not> unchanged row) rows, tally (map cr_status rows)))"
  by (simp add: compare_def compare_steps tally_def Let_def)

definition compare_statuses :: "coverage_groups \<Rightarrow> coverage_groups \<Rightarrow> (coordinate \<times> (ustr \<times> ustr)) list" where
  "compare_statuses before after =
     map (\<lambda>row. (row_key row, (cr_status row, cr_basis row))) (fst (compare before after False))"

interpretation coverage: sided_diff compare_statuses "\<lambda>v w. comparison (aggregate v) (aggregate w)"
  by unfold_locales (simp add: compare_statuses_def compare_eq Let_def comp_def, simp add: compare_row_def Let_def)

text \<open>Reading the two reports in the other order mirrors every status and keeps every basis.\<close>

definition mirror_status :: "ustr \<Rightarrow> ustr" where
  "mirror_status s =
     (if s = u ''added-covered'' then u ''removed-covered'' else if s = u ''removed-covered'' then u ''added-covered''
      else if s = u ''added-uncovered'' then u ''removed-uncovered''
      else if s = u ''removed-uncovered'' then u ''added-uncovered''
      else if s = u ''covered-to-uncovered'' then u ''uncovered-to-covered''
      else if s = u ''uncovered-to-covered'' then u ''covered-to-uncovered'' else s)"

lemma mirror_simps [simp]:
  "mirror_status (u ''added-covered'') = u ''removed-covered''"
  "mirror_status (u ''removed-covered'') = u ''added-covered''"
  "mirror_status (u ''added-uncovered'') = u ''removed-uncovered''"
  "mirror_status (u ''removed-uncovered'') = u ''added-uncovered''"
  "mirror_status (u ''covered-to-uncovered'') = u ''uncovered-to-covered''"
  "mirror_status (u ''uncovered-to-covered'') = u ''covered-to-uncovered''"
  "mirror_status (u ''still-covered'') = u ''still-covered''"
  "mirror_status (u ''still-uncovered'') = u ''still-uncovered''"
  "mirror_status (u ''checksum-conflict'') = u ''checksum-conflict''"
  "mirror_status (u ''source-changed'') = u ''source-changed''"
  by (simp_all add: mirror_status_def)

lemma transition_swap: "old \<noteq> None \<or> new \<noteq> None \<Longrightarrow> transition new old = mirror_status (transition old new)"
  by (cases old; cases new; cases "covered old"; cases "covered new") (simp_all add: transition_def)

lemma comparison_swap:
  assumes "old \<noteq> None \<or> new \<noteq> None"
  shows "comparison new old = (\<lambda>(s, b). (mirror_status s, b)) (comparison old new)"
proof -
  have "(checksums new \<noteq> checksums old) = (checksums old \<noteq> checksums new)" by auto
  then show ?thesis unfolding comparison_def Let_def transition_swap [OF assms]
    by (simp add: conj_ac disj_commute)
qed

lemma aggregate_None_iff [simp]: "aggregate v = None \<longleftrightarrow> v = None"
  by (simp add: aggregate_def split: option.splits)

lemma comparison_same:
  "length (checksums v) \<le> 1 \<Longrightarrow> v \<noteq> None \<Longrightarrow> fst (comparison v v) = (if covered v then u ''still-covered'' else u ''still-uncovered'')"
  by (auto simp: comparison_def transition_def Let_def)

subsection \<open>What the declared counters of a record guarantee\<close>

text \<open>The lines of each finished record, its terminator left out.\<close>

fun record_sections :: "ustr list \<Rightarrow> ustr list \<Rightarrow> ustr list list" where
  "record_sections cur [] = []"
| "record_sections cur (line # rest) =
     (if line = u ''end_of_record'' then cur # record_sections [] rest
      else record_sections (cur @ [line]) rest)"

definition tagged :: "string \<Rightarrow> ustr list \<Rightarrow> ustr list" where
  "tagged tag ls = map (\<lambda>line. snd (snd (partition_on 58 line))) (filter (\<lambda>line. fst (partition_on 58 line) = u tag) ls)"

definition da_hits :: "ustr \<Rightarrow> nat" where
  "da_hits v = digits_value (split_on 44 v ! 1)"

text \<open>Each declared counter is stated once and equals what the record's \<open>DA\<close> lines amount to.\<close>

definition counters_right :: "ustr list \<Rightarrow> bool" where
  "counters_right ls \<longleftrightarrow>
     (\<forall>v \<in> set (tagged ''LF'' ls). digits_value v = length (tagged ''DA'' ls)) \<and>
     (\<forall>v \<in> set (tagged ''LH'' ls). digits_value v = length (filter (\<lambda>v. 0 < da_hits v) (tagged ''DA'' ls)))"

lemma tagged_append [simp]: "tagged t (xs @ ys) = tagged t xs @ tagged t ys"
  by (simp add: tagged_def)

text \<open>The open record mirrors the lines read since the last terminator.\<close>

definition section_of :: "lcov_state \<Rightarrow> ustr list \<Rightarrow> bool" where
  "section_of st cur \<longleftrightarrow>
     (case ls_current st of
        None \<Rightarrow> tagged ''DA'' cur = [] \<and> tagged ''LF'' cur = [] \<and> tagged ''LH'' cur = []
      | Some c \<Rightarrow>
          map (ob_hits \<circ> snd) (lr_lines c) = map (\<lambda>v. int (da_hits v)) (tagged ''DA'' cur) \<and>
          (\<forall>v \<in> set (tagged ''LF'' cur). dget (lr_counters c) (u ''LF'') = Some (int (digits_value v))) \<and>
          (\<forall>v \<in> set (tagged ''LH'' cur). dget (lr_counters c) (u ''LH'') = Some (int (digits_value v))))"

lemma tagged_one: "partition_on 58 line = (tag, sep, v) \<Longrightarrow> tagged t [line] = (if tag = u t then [v] else [])"
  by (simp add: tagged_def)

lemma lcov_line_section:
  assumes "lcov_line st (n, line) = Inr st'" and "section_of st cur"
  shows "if line = u ''end_of_record'' then counters_right cur \<and> section_of st' []
    else section_of st' (cur @ [line])"
proof -
  from assms(1) have "lcov_step st n line st'" by (simp add: lcov_line_step)
  then show ?thesis
  proof cases
    case (finish c)
    have s: "map (ob_hits \<circ> snd) (lr_lines c) = map (\<lambda>v. int (da_hits v)) (tagged ''DA'' cur)"
      "\<forall>v \<in> set (tagged ''LF'' cur). dget (lr_counters c) (u ''LF'') = Some (int (digits_value v))"
      "\<forall>v \<in> set (tagged ''LH'' cur). dget (lr_counters c) (u ''LH'') = Some (int (digits_value v))"
      using assms(2) finish(3) by (auto simp: section_of_def)
    have len: "length (hits_of c) = length (tagged ''DA'' cur)" using s(1) by (metis length_map hits_of_def)
    have "length (filter (\<lambda>h. 0 < h) (map (ob_hits \<circ> snd) (lr_lines c))) =
        length (filter (\<lambda>h. 0 < h) (map (\<lambda>v. int (da_hits v)) (tagged ''DA'' cur)))" using s(1) by simp
    then have hit: "length (filter (\<lambda>(l, h). 0 < h) (hits_of c)) = length (filter (\<lambda>v. 0 < da_hits v) (tagged ''DA'' cur))"
      by (simp add: hits_of_def filter_map comp_def case_prod_unfold)
    have "counters_right cur"
      unfolding counters_right_def using s(2,3) finish(4) len hit by (auto simp: totals_right_def)
    then show ?thesis using finish by (simp add: section_of_def tagged_def)
  next
    case (observe v c l h checksum)
    with assms(2) observation_fields [OF observe(4)] show ?thesis
      by (simp add: section_of_def tagged_one tagged_not_end da_hits_def observed_def)
  next
    case (counter tag v c m)
    then have "m = int (digits_value v)" by (simp add: decimal_def)
    with counter assms(2) show ?thesis
      by (auto simp: section_of_def tagged_one tagged_not_end dhas_iff dput_fresh [symmetric] dget_dput)
  next
    case (ignored tag v c)
    with assms(2) show ?thesis by (auto simp: section_of_def tagged_one tagged_not_end lcov_ignored_def)
  qed (use assms(2) in \<open>simp_all add: section_of_def tagged_one tagged_not_end\<close>)
qed

lemma lcov_run_sections:
  assumes "fold_res lcov_line st (List.enumerate n lines) = Inr st'" and "section_of st cur"
  shows "list_all counters_right (record_sections cur lines)"
  using assms
proof (induction lines arbitrary: st n cur)
  case Nil
  then show ?case by simp
next
  case (Cons line lines)
  from Cons.prems obtain st1 where one: "lcov_line st (n, line) = Inr st1"
    and run: "fold_res lcov_line st1 (List.enumerate (Suc n) lines) = Inr st'"
    by (auto simp: res_simps)
  from lcov_line_section [OF one Cons.prems(2)] Cons.IH [OF run] show ?case by (auto split: if_splits)
qed

subsection \<open>Properties\<close>

text \<open>A report of one record with two observed lines.\<close>

definition sample_report :: ustr where
  "sample_report = join [10] [u ''SF:f'', u ''DA:1,2'', u ''DA:3,0,x'', u ''LF:2'', u ''end_of_record'', []]"

definition sample_groups :: coverage_groups where
  "sample_groups =
     [((u ''f'', 1), [\<lparr>ob_record = 1, ob_report_line = 2, ob_test_name = [], ob_hits = 2, ob_checksum = None\<rparr>]),
      ((u ''f'', 3), [\<lparr>ob_record = 1, ob_report_line = 3, ob_test_name = [], ob_hits = 0, ob_checksum = Some (u ''x'')\<rparr>])]"

lemma sample_lcov:
  "lcov (utf8_bytes sample_report) =
     Inr (sample_groups, \<lparr>st_record_count = 1, st_line_observation_count = 2, st_coordinate_count = 2\<rparr>)"
proof -
  have lines: "lcov_lines sample_report = [u ''SF:f'', u ''DA:1,2'', u ''DA:3,0,x'', u ''LF:2'', u ''end_of_record'']"
    by (simp add: sample_report_def lcov_lines_def u_def)
  have scalar: "list_all is_scalar sample_report" by (simp add: sample_report_def) (simp add: is_scalar_def)
  have clean: "0 \<notin> set sample_report \<and> 13 \<notin> set (replace_crlf [] sample_report)"
    by (simp add: sample_report_def u_def)
  have "length sample_report \<le> 100" by (simp add: sample_report_def)
  then have len: "length (utf8_bytes sample_report) \<le> MAX_REPORT"
    using utf8_bytes_length [of sample_report] by (simp add: MAX_REPORT_def)
  have run: "fold_res lcov_line lcov_start (List.enumerate 1 (lcov_lines sample_report)) =
      Inr \<lparr>ls_current = None, ls_test_name = [], ls_pending_test = False, ls_records = 1, ls_count = 2, ls_groups = sample_groups\<rparr>"
    unfolding lines
    by (simp add: lcov_line_def lcov_start_def lcov_source_def lcov_data_def lcov_observe_def lcov_counter_def
        lcov_end_def counter_agrees_def file_row_def dappend_def dhas_def py_int_def digits_value_def
        re_digits_def is_digit_def Let_def u_def sample_groups_def)
  show ?thesis using clean
    by (simp add: lcov_def len utf8.roundtrip [OF scalar] run [simplified]) (simp add: sample_groups_def)
qed

text \<open>Reading an accepted report loses, invents and merges nothing: the groups hold, per coordinate and
  in report order, exactly the observations of the \<open>DA\<close> lines, each with the path and record it
  stands in, its test name, hits, checksum and physical line; and the groups have no other key.\<close>

theorem lcov_reads_exactly:
  assumes "lcov data = Inr (groups, stats)"
  shows "\<exists>s. utf8_decode data = Inr s \<and>
    (\<forall>k. dmembers groups k = map snd (filter (\<lambda>f. fst f = k) (report_facts s))) \<and>
    set (dkeys groups) = fst ` set (report_facts s) \<and> dict_ok groups"
proof -
  obtain s where s: "utf8_decode data = Inr s" using lcov_Inr [OF assms] by metis
  show ?thesis using s lcov_exact(1,2,5) [OF assms s] by blast
qed

theorem lcov_reads_exactly_witness:
  "\<exists>s. utf8_decode (utf8_bytes sample_report) = Inr s \<and> set (dkeys sample_groups) = fst ` set (report_facts s)"
  using lcov_reads_exactly [OF sample_lcov] by blast

lemma lcov_limits:
  assumes "lcov data = Inr (groups, stats)"
  shows "length data \<le> MAX_REPORT \<and> 0 < st_record_count stats \<and> st_record_count stats \<le> 1000 \<and>
    st_line_observation_count stats = sum_list (map (length \<circ> snd) groups) \<and>
    st_line_observation_count stats \<le> 10000 \<and> st_coordinate_count stats = card (set (dkeys groups)) \<and>
    list_all (\<lambda>(k, rows). rows \<noteq> [] \<and> 1 \<le> snd k \<and> snd k \<le> 2147483647 \<and>
      sorted_wrt (<) (map ob_record rows) \<and>
      list_all (\<lambda>row. 0 \<le> ob_hits row \<and> ob_hits row \<le> 2147483647 \<and> ob_record row \<le> st_record_count stats) rows) groups"
proof -
  obtain s where s: "utf8_decode data = Inr s" and len: "length data \<le> MAX_REPORT" and pos: "0 < st_record_count stats"
    using lcov_Inr [OF assms] by metis
  note exact = lcov_exact [OF assms s]
  note inv = exact(6) [unfolded lcov_inv_def gathered_def, simplified]
  have distinct: "distinct (map fst groups)" using exact(5) by (simp add: dict_ok_def dkeys_def)
  have card: "length groups = card (set (dkeys groups))"
    using distinct distinct_card [of "dkeys groups"] by (simp add: dkeys_def)
  have member: "dmembers groups k = rows" if "(k, rows) \<in> set groups" for k rows
    using distinct that by (simp add: dmembers_def map_of_is_SomeI)
  have "length (report_facts s) = (\<Sum>k \<in> set (dkeys groups). length (filter (\<lambda>f. fst f = k) (report_facts s)))"
    unfolding exact(2) by (rule length_filter_sum)
  also have "\<dots> = (\<Sum>k \<in> set (map fst groups). length (dmembers groups k))"
    by (simp add: exact(1) dkeys_def)
  also have "\<dots> = sum_list (map (\<lambda>k. length (dmembers groups k)) (map fst groups))"
    by (rule sum_list_distinct_conv_sum_set [symmetric, OF distinct])
  also have "\<dots> = sum_list (map (length \<circ> snd) groups)"
    unfolding map_map by (rule arg_cong [where f = sum_list]) (auto simp: member)
  finally have sum: "st_line_observation_count stats = sum_list (map (length \<circ> snd) groups)" using exact(3) by simp
  have each: "rows \<noteq> [] \<and> 1 \<le> snd k \<and> snd k \<le> 2147483647 \<and> sorted_wrt (<) (map ob_record rows) \<and>
      list_all (\<lambda>row. 0 \<le> ob_hits row \<and> ob_hits row \<le> 2147483647 \<and> ob_record row \<le> st_record_count stats) rows"
    if "(k, rows) \<in> set groups" for k rows
  proof -
    have rows: "dmembers groups k = rows" by (rule member [OF that])
    then have "rows \<noteq> []" using inv that by (force simp: dkeys_def)
    then obtain r where "r \<in> set rows" by (cases rows) auto
    with inv rows \<open>rows \<noteq> []\<close> show ?thesis by (cases k) (auto simp: list_all_iff)
  qed
  then show ?thesis using len pos inv sum card exact(7) by (auto simp: list_all_iff)
qed

text \<open>C7: the bounds of an accepted report: 1 to 1000 records and at most 10000 observations, counted
  exactly; as many coordinates as the statistics say; line numbers from 1 and hits from 0 up to
  \<open>2147483647\<close>; and the observations of one coordinate come from different records, in record order.\<close>

theorem lcov_bounds:
  assumes "lcov data = Inr (groups, stats)"
  shows "length data \<le> MAX_REPORT \<and> 0 < st_record_count stats \<and> st_record_count stats \<le> 1000 \<and>
    st_line_observation_count stats = sum_list (map (length \<circ> snd) groups) \<and>
    st_line_observation_count stats \<le> 10000 \<and> st_coordinate_count stats = card (set (dkeys groups)) \<and>
    list_all (\<lambda>(k, rows). rows \<noteq> [] \<and> 1 \<le> snd k \<and> snd k \<le> 2147483647 \<and>
      sorted_wrt (<) (map ob_record rows) \<and>
      list_all (\<lambda>row. 0 \<le> ob_hits row \<and> ob_hits row \<le> 2147483647 \<and> ob_record row \<le> st_record_count stats) rows) groups"
  using assms by (rule lcov_limits)

theorem lcov_bounds_witness: "sum_list (map (length \<circ> snd) sample_groups) \<le> 10000"
  using lcov_bounds [OF sample_lcov] by simp

text \<open>In an accepted report the declared totals of every record are right: each \<open>LF\<close> equals the
  number of its \<open>DA\<close> lines, and each \<open>LH\<close> the number of those with a positive hit count.\<close>

theorem lcov_counters:
  assumes "lcov data = Inr (groups, stats)"
  shows "\<exists>s. utf8_decode data = Inr s \<and> list_all counters_right (record_sections [] (lcov_lines s))"
proof -
  obtain s st where s: "utf8_decode data = Inr s"
    and run: "fold_res lcov_line lcov_start (List.enumerate 1 (lcov_lines s)) = Inr st"
    using lcov_Inr [OF assms] by metis
  have "section_of lcov_start []" by (simp add: section_of_def lcov_start_def tagged_def)
  with s lcov_run_sections [OF run] show ?thesis by blast
qed

theorem lcov_counters_witness:
  "\<exists>s. utf8_decode (utf8_bytes sample_report) = Inr s \<and> list_all counters_right (record_sections [] (lcov_lines s))"
  by (rule lcov_counters [OF sample_lcov])

subsection \<open>Properties of the comparison and its outputs\<close>

definition reported_checksums :: "observation list \<Rightarrow> ustr set" where
  "reported_checksums rows = {c. Some c \<in> ob_checksum ` set rows}"

lemma set_map_filter: "set (List.map_filter f xs) = {y. \<exists>x \<in> set xs. f x = Some y}"
  by (induction xs) (auto simp: List.map_filter_simps split: option.splits)

lemma aggregate_Some:
  "covered (aggregate (Some rows)) \<longleftrightarrow> (\<exists>row \<in> set rows. 0 < ob_hits row)"
  "checksums (aggregate (Some rows)) = sorted_list_of_set (reported_checksums rows)"
  "missing (aggregate (Some rows)) = 0 \<longleftrightarrow> None \<notin> ob_checksum ` set rows"
proof -
  have "(\<exists>row \<in> set rows. ob_checksum row = Some c) \<longleftrightarrow> Some c \<in> ob_checksum ` set rows" for c
    by (metis image_iff)
  then have "set (List.map_filter ob_checksum rows) = reported_checksums rows"
    by (simp add: reported_checksums_def set_map_filter)
  then show "checksums (aggregate (Some rows)) = sorted_list_of_set (reported_checksums rows)"
    by (simp add: checksums_def aggregate_def sorted_list_of_set_sort_remdups [symmetric])
  have "(\<forall>row \<in> set rows. ob_checksum row \<noteq> None) \<longleftrightarrow> None \<notin> ob_checksum ` set rows"
    by (metis image_iff)
  then show "missing (aggregate (Some rows)) = 0 \<longleftrightarrow> None \<notin> ob_checksum ` set rows"
    by (simp only: missing_def aggregate_def option.simps aggregated.select_convs length_0_conv filter_empty_conv simp_thms)
qed (simp add: covered_def aggregate_def list_ex_iff)

lemma finite_reported_checksums [simp]: "finite (reported_checksums rows)"
proof -
  have "reported_checksums rows \<subseteq> the ` ob_checksum ` set rows" by (auto simp: reported_checksums_def) (metis imageI option.sel)
  then show ?thesis by (rule finite_subset) simp
qed

lemma sorted_list_of_set_eq_iff: "finite A \<Longrightarrow> finite B \<Longrightarrow> sorted_list_of_set A = sorted_list_of_set B \<longleftrightarrow> A = B"
  by (metis set_sorted_list_of_set)

text \<open>C8: the comparison lists every coordinate of either report exactly once, in path and line order; with
  \<open>changes_only\<close> it drops exactly the rows whose status starts with \<open>still-\<close>; and the status counts
  cover all coordinates whether or not rows were dropped.\<close>

theorem compare_complete:
  "map row_key (fst (compare before after False)) = sorted_union (dkeys before) (dkeys after) \<and>
   fst (compare before after True) = filter (\<lambda>row. \<not> unchanged row) (fst (compare before after False)) \<and>
   snd (compare before after changes_only) = tally (map cr_status (fst (compare before after False))) \<and>
   dsum (snd (compare before after changes_only)) = card (set (dkeys before) \<union> set (dkeys after))"
  by (simp add: compare_eq Let_def comp_def dsum_tally length_sorted_union)

text \<open>C3: a row is reported as losing coverage exactly when both reports observe the coordinate, the
  earlier one with a positive hit count and the later one with none, and the reported checksums do
  not contradict that it is the same source line.\<close>

theorem compare_regression:
  assumes "row \<in> set (fst (compare before after changes_only))"
  shows "cr_status row = u ''covered-to-uncovered'' \<longleftrightarrow>
    (\<exists>old new. dget before (row_key row) = Some old \<and> dget after (row_key row) = Some new \<and>
       (\<exists>ob \<in> set old. 0 < ob_hits ob) \<and> (\<forall>ob \<in> set new. ob_hits ob \<le> 0) \<and>
       card (reported_checksums old) \<le> 1 \<and> card (reported_checksums new) \<le> 1 \<and>
       (reported_checksums old = {} \<or> reported_checksums new = {} \<or> reported_checksums old = reported_checksums new))"
proof -
  have row: "row = compare_row before after (row_key row)"
    using assms by (auto simp: compare_eq Let_def split: if_splits)
  let ?old = "dget before (row_key row)" and ?new = "dget after (row_key row)"
  have status: "cr_status row = fst (comparison (aggregate ?old) (aggregate ?new))"
    by (subst row) (simp add: compare_row_def Let_def)
  show ?thesis
  proof (cases "?old = None \<or> ?new = None")
    case True
    then have "fst (comparison (aggregate ?old) (aggregate ?new)) \<noteq> u ''covered-to-uncovered''"
      by (auto simp: comparison_def transition_def Let_def)
    with True status show ?thesis by auto
  next
    case False
    then obtain old new where on: "?old = Some old" "?new = Some new" by auto
    have len: "length (checksums (aggregate (Some r))) = card (reported_checksums r)" for r
      by (simp add: aggregate_Some)
    have emp: "checksums (aggregate (Some r)) \<noteq> [] \<longleftrightarrow> reported_checksums r \<noteq> {}" for r
      by (simp add: aggregate_Some)
    have eq: "checksums (aggregate (Some r)) = checksums (aggregate (Some r')) \<longleftrightarrow> reported_checksums r = reported_checksums r'" for r r'
      by (simp add: aggregate_Some sorted_list_of_set_eq_iff)
    have "cr_status row = u ''covered-to-uncovered'' \<longleftrightarrow>
        \<not> (1 < card (reported_checksums old) \<or> 1 < card (reported_checksums new)) \<and>
        \<not> (reported_checksums old \<noteq> {} \<and> reported_checksums new \<noteq> {} \<and> reported_checksums old \<noteq> reported_checksums new) \<and>
        covered (aggregate (Some old)) \<and> \<not> covered (aggregate (Some new))"
      unfolding status on comparison_def Let_def len emp eq transition_def by simp
    then show ?thesis by (auto simp: on aggregate_Some(1) not_less)
  qed
qed

text \<open>Reading the two reports in the other order gives the same coordinates with every status mirrored
  (added and removed, gained and lost) and every comparison basis unchanged.\<close>

theorem compare_mirror:
  "compare_statuses after before =
     map (\<lambda>(k, (status, basis)). (k, (mirror_status status, basis))) (compare_statuses before after)"
proof -
  have "compare_statuses after before =
      map (\<lambda>(k, s). (k, (\<lambda>(status, basis). (mirror_status status, basis)) s)) (compare_statuses before after)"
    by (rule coverage.diff_swap) (simp add: comparison_swap)
  then show ?thesis by (simp add: case_prod_unfold)
qed

text \<open>Where both sides report one checksum each and they differ, the basis is
  \<open>different-reported-checksum\<close> even when some of the observations report no checksum.\<close>

theorem compare_basis_ignores_missing:
  "\<exists>before after row. fst (compare before after False) = [row] \<and>
     cr_basis row = u ''different-reported-checksum'' \<and> 0 < missing (cr_before row)"
proof -
  let ?ob = "\<lambda>c. \<lparr>ob_record = 1, ob_report_line = 2, ob_test_name = [], ob_hits = 1, ob_checksum = c\<rparr>"
  let ?before = "[((u ''f'', 1), [?ob None, ?ob (Some (u ''x''))])]" and ?after = "[((u ''f'', 1), [?ob (Some (u ''y''))])]"
  have "fst (compare ?before ?after False) = [compare_row ?before ?after (u ''f'', 1)]"
    by (simp add: compare_eq Let_def sorted_union_def)
  moreover have "cr_basis (compare_row ?before ?after (u ''f'', 1)) = u ''different-reported-checksum''"
    "0 < missing (cr_before (compare_row ?before ?after (u ''f'', 1)))"
    by (simp_all add: compare_row_def Let_def comparison_def aggregate_def checksums_def missing_def List.map_filter_simps)
  ultimately show ?thesis by blast
qed

theorem compare_regression_witness:
  "cr_status (compare_row sample_groups [((u ''f'', 1), [\<lparr>ob_record = 1, ob_report_line = 2, ob_test_name = [],
       ob_hits = 0, ob_checksum = None\<rparr>])] (u ''f'', 1)) = u ''covered-to-uncovered''"
proof -
  let ?after = "[((u ''f'', 1), [\<lparr>ob_record = 1, ob_report_line = 2, ob_test_name = [], ob_hits = 0, ob_checksum = None\<rparr>])]"
  let ?row = "compare_row sample_groups ?after (u ''f'', 1)"
  have row: "?row \<in> set (fst (compare sample_groups ?after False))"
    by (simp add: compare_eq Let_def sample_groups_def)
  show ?thesis unfolding compare_regression [OF row]
    by (simp add: sample_groups_def reported_checksums_def)
qed

text \<open>Reading a row of the CSV back: the JSON cells are parsed.\<close>

definition coverage_csv_read :: "ustr list \<Rightarrow> (coordinate \<times> ustr \<times> ustr \<times> json \<times> json) res" where
  "coverage_csv_read cells =
     rbind (py_int (cells ! 1)) (\<lambda>line.
     rbind (loads False (cells ! 4)) (\<lambda>before.
     rbind (loads False (cells ! 5)) (\<lambda>after.
       Inr ((cells ! 0, line), cells ! 2, cells ! 3, before, after))))"

definition row_content :: "coverage_row \<Rightarrow> coordinate \<times> ustr \<times> ustr \<times> json \<times> json" where
  "row_content row = (row_key row, cr_status row, cr_basis row, aggregate_json (cr_before row), aggregate_json (cr_after row))"

definition row_printable :: "coverage_row \<Rightarrow> bool" where
  "row_printable row \<longleftrightarrow> int_printable (cr_source_line row) \<and>
     jvalid False (aggregate_json (cr_before row)) \<and> jvalid False (aggregate_json (cr_after row))"

lemma coverage_csv_read_row: "row_printable row \<Longrightarrow> coverage_csv_read (coverage_csv_row row) = Inr (row_content row)"
  by (simp add: coverage_csv_read_def coverage_csv_row_def row_printable_def row_content_def row_key_def
      py_int_str_int compact_text.roundtrip numeral_eq_Suc del: dumps.simps)

lemma csv_output_parse: "csv_parse (csv_output rows) = Inr (coverage_csv_header # map coverage_csv_row rows)"
  unfolding csv_output_def
  by (rule csv.roundtrip) (simp add: coverage_csv_header_def coverage_csv_row_def list_all_iff)

text \<open>Aggregates of an accepted report hold small numbers only.\<close>

lemma observation_printable:
  assumes "0 \<le> ob_hits row" "ob_hits row \<le> 2147483647" "ob_record row \<le> 1000" "int_printable (int (ob_report_line row))"
  shows "jvalid False (observation_json row)"
proof -
  have "int_printable (ob_hits row)" using assms by (intro int_printable_bound [where k = 10]) auto
  moreover have "int_printable (int (ob_record row))" using assms by (intro int_printable_bound [where k = 10]) auto
  ultimately show ?thesis using assms(4)
    by (simp add: observation_json_def checksum_json_def split: option.splits)
qed

lemma aggregate_printable:
  assumes "length rows \<le> 10000"
    and "\<And>row. row \<in> set rows \<Longrightarrow> 0 \<le> ob_hits row \<and> ob_hits row \<le> 2147483647 \<and> ob_record row \<le> 1000 \<and>
      int_printable (int (ob_report_line row))"
  shows "jvalid False (aggregate_json (aggregate (Some rows)))"
proof -
  have sum: "0 \<le> sum_list (map ob_hits xs) \<and> sum_list (map ob_hits xs) \<le> int (length xs) * 2147483647"
    if "\<And>row. row \<in> set xs \<Longrightarrow> 0 \<le> ob_hits row \<and> ob_hits row \<le> 2147483647" for xs
    using that
  proof (induction xs)
    case Nil
    then show ?case by simp
  next
    case (Cons a xs)
    have "0 \<le> ob_hits a \<and> ob_hits a \<le> 2147483647" using Cons.prems by simp
    moreover have "0 \<le> sum_list (map ob_hits xs) \<and> sum_list (map ob_hits xs) \<le> int (length xs) * 2147483647"
      using Cons by simp
    ultimately show ?case by (simp add: algebra_simps)
  qed
  have "sum_list (map ob_hits rows) \<le> int (length rows) * 2147483647" "0 \<le> sum_list (map ob_hits rows)"
    using sum [of rows] assms(2) by auto
  moreover have "int (length rows) * 2147483647 \<le> 10000 * 2147483647" using assms(1) by (intro mult_right_mono) auto
  ultimately have "nat \<bar>sum_list (map ob_hits rows)\<bar> < 10 ^ 14" by simp
  then have "int_printable (sum_list (map ob_hits rows))" by (rule int_printable_bound) simp_all
  moreover have "int_printable (int (length (filter p rows)))" for p
  proof -
    have "length (filter p rows) \<le> 10000" by (rule order_trans [OF length_filter_le assms(1)])
    then show ?thesis by (intro int_printable_bound [where k = 10]) auto
  qed
  moreover have "list_all (jvalid False) (map observation_json rows)"
    using assms(2) by (auto simp: list_all_iff intro!: observation_printable)
  ultimately show ?thesis by (simp add: aggregate_json_def aggregate_def list_all_iff)
qed

lemma report_line_bound:
  "f \<in> set (reported ctx n lines) \<Longrightarrow> ob_report_line (snd f) < n + length lines"
proof (induction lines arbitrary: ctx n)
  case Nil
  then show ?case by simp
next
  case (Cons line lines)
  have "ob_report_line (snd f) = n" if "f \<in> set (line_fact ctx n line)"
    using that by (auto simp: line_fact_def Let_def split: prod.splits if_splits)
  with Cons.prems Cons.IH [of "next_context ctx line" "n + 1"] show ?case by fastforce
qed

lemma split_on_length: "length (split_on c s) \<le> Suc (length s)"
proof (induction s)
  case (Cons x s)
  then show ?case by (cases "split_on c s") auto
qed simp

lemma replace_crlf_length: "length (replace_crlf [10] s) \<le> length s"
  by (induction "[10::nat]" s rule: replace_crlf.induct) auto

lemma utf8_decode_length: "utf8_decode data = Inr s \<Longrightarrow> length s \<le> length data"
proof -
  have long: "length s \<le> length (concat (map utf8_char s))"
  proof (induction s)
    case (Cons c s)
    have "1 \<le> length (utf8_char c)" by (simp add: utf8_char_def)
    with Cons show ?case by simp
  qed simp
  assume "utf8_decode data = Inr s"
  then have "utf8_encode s = Inr data" by (rule utf8_decode_sound)
  then have "data = utf8_bytes s" by (simp add: utf8_encode_def split: if_splits)
  with long show "length s \<le> length data" by (simp add: utf8_bytes_def)
qed

lemma lcov_lines_length: "length (lcov_lines s) \<le> Suc (length s)"
  using split_on_length [of 10 "replace_crlf [10] s"] replace_crlf_length [of s]
  by (auto simp: lcov_lines_def Let_def)

lemma lcov_aggregate_printable:
  assumes "lcov data = Inr (groups, stats)"
  shows "jvalid False (aggregate_json (aggregate (dget groups k)))"
proof (cases "dget groups k")
  case None
  then show ?thesis by (simp add: aggregate_def aggregate_json_def)
next
  case (Some rows)
  obtain s where s: "utf8_decode data = Inr s" and len: "length data \<le> MAX_REPORT"
    using lcov_Inr [OF assms] by metis
  note exact = lcov_exact [OF assms s]
  note inv = exact(6) [unfolded lcov_inv_def gathered_def, simplified]
  have rows: "rows = dmembers groups k" using Some by (simp add: dmembers_def)
  have facts: "rows = map snd (filter (\<lambda>f. fst f = k) (report_facts s))" using rows exact(1) by simp
  have "length rows \<le> length (report_facts s)" unfolding facts by simp
  then have small: "length rows \<le> 10000" using exact(3) inv by linarith
  show ?thesis unfolding Some
  proof (rule aggregate_printable [OF small])
    fix row assume row: "row \<in> set rows"
    then obtain f where "f \<in> set (report_facts s)" "row = snd f" using facts by auto
    then have "ob_report_line row < 1 + length (lcov_lines s)"
      using report_line_bound [of f "([], 0, [])" 1 "lcov_lines s"] by (simp add: report_facts_def)
    then have "ob_report_line row \<le> 1048578"
      using lcov_lines_length [of s] utf8_decode_length [OF s] len by (simp add: MAX_REPORT_def)
    then have "int_printable (int (ob_report_line row))" by (intro int_printable_bound [where k = 10]) auto
    with row rows inv show "0 \<le> ob_hits row \<and> ob_hits row \<le> 2147483647 \<and> ob_record row \<le> 1000 \<and>
      int_printable (int (ob_report_line row))" by (cases k) fastforce
  qed
qed

lemma compare_rows_printable:
  assumes "lcov before_data = Inr (before, before_stats)" "lcov after_data = Inr (after, after_stats)"
    and "row \<in> set (fst (compare before after changes_only))"
  shows "row_printable row"
proof -
  let ?k = "row_key row"
  have row: "row = compare_row before after ?k" and k: "?k \<in> set (dkeys before) \<union> set (dkeys after)"
    using assms(3) by (auto simp: compare_eq Let_def split: if_splits)
  have bound: "1 \<le> snd k \<and> snd k \<le> 2147483647"
    if report: "lcov data = Inr (groups, stats)" and "k \<in> set (dkeys groups)" for data groups stats k
  proof -
    obtain s where s: "utf8_decode data = Inr s" using lcov_Inr [OF report] by metis
    note inv = lcov_exact(6) [OF report s, unfolded lcov_inv_def gathered_def, simplified]
    from that(2) inv obtain r where "r \<in> set (dmembers groups k)"
      by (metis hd_in_set prod.collapse)
    with inv show ?thesis by (cases k) auto
  qed
  have "1 \<le> snd ?k \<and> snd ?k \<le> 2147483647"
    using k bound [OF assms(1), of ?k] bound [OF assms(2), of ?k] by blast
  then have "int_printable (snd ?k)" by (intro int_printable_bound [where k = 10]) auto
  then have "row_printable (compare_row before after ?k)"
    using lcov_aggregate_printable [OF assms(1)] lcov_aggregate_printable [OF assms(2)]
    by (simp add: row_printable_def compare_row_def Let_def)
  then show ?thesis using row by simp
qed

text \<open>The CSV of a comparison of two accepted reports loses nothing: parsed as quoted CSV with its two
  JSON cells read back, its rows are the rows of the comparison, whatever quotes, commas or line
  breaks the paths, test names and checksums hold.\<close>

theorem coverage_csv_exact:
  assumes "lcov before_data = Inr (before, before_stats)" "lcov after_data = Inr (after, after_stats)"
  shows "rbind (csv_parse (csv_output (fst (compare before after changes_only)))) (\<lambda>t. map_res coverage_csv_read (tl t)) =
    Inr (map row_content (fst (compare before after changes_only)))"
proof -
  have "map_res coverage_csv_read (map coverage_csv_row rows) = Inr (map row_content rows)"
    if "list_all row_printable rows" for rows
    using that by (induction rows) (simp_all add: coverage_csv_read_row)
  moreover have "list_all row_printable (fst (compare before after changes_only))"
    using compare_rows_printable [OF assms] by (simp add: list_all_iff)
  ultimately show ?thesis by (simp add: csv_output_parse)
qed

theorem coverage_csv_exact_witness:
  "rbind (csv_parse (csv_output (fst (compare sample_groups sample_groups True)))) (\<lambda>t. map_res coverage_csv_read (tl t)) =
    Inr (map row_content (fst (compare sample_groups sample_groups True)))"
  by (rule coverage_csv_exact [OF sample_lcov sample_lcov])

lemma lcov_raises: "raises_only is_value_error (lcov data)"
proof -
  have line: "raises_only is_value_error (lcov_line st x)" for st x
    unfolding lcov_line_def lcov_test_def lcov_source_def lcov_end_def lcov_data_def lcov_observe_def lcov_counter_def
      counter_agrees_def file_row_def Let_def
    by (auto simp: py_int_raises split: option.splits intro!: raises)
  show ?thesis unfolding lcov_def
    by (intro raises utf8_decode_raises line) simp_all
qed

lemma coverage_body_raises:
  assumes "archive_raises review_error zip_open" "raises_only review_error before_file" "raises_only review_error after_file"
  shows "raises_only review_error (coverage_body zip_open before_file after_file args)"
  unfolding coverage_body_def Let_def
  by (intro raises_rbind raises_prod raises_guard read_bundle_raises assms review_raises [OF lcov_raises]
      review_raises [OF utf8_encode_raises]) simp_all

lemma coverage_body_bound: "yields (\<lambda>(out, sidecar). length out \<le> MAX_OUTPUT) (coverage_body zip_open before_file after_file args)"
  unfolding coverage_body_def Let_def by (intro yields_intros) simp



end
