(* ===== verification/LcovLanguage.thy ===== *)
theory LcovLanguage
  imports Lcov
begin

section \<open>The language of accepted coverage reports\<close>

text \<open>
  Which texts the coverage reader accepts, by a grammar over lines instead of a state: a report is a
  sequence of records, each an optional title, a source line, observations, counters and ignored lines
  in any order, and a terminator. The theorem says that the reader accepts exactly these reports and
  returns exactly the observations of the text, filed by coordinate.
\<close>

subsection \<open>Reports\<close>

text \<open>
  \<open>accepted r n ls\<close>: \<open>ls\<close> holds \<open>r\<close> records with \<open>n\<close> observations together; \<open>titled r n ls\<close>: it ends with the title
  of a further record; \<open>inside r n obs counters ls\<close>: record \<open>r\<close> is open, with the source lines and hits
  observed in it and the counters it declared.
\<close>

definition fits :: "ustr \<Rightarrow> bool" where
  "fits line \<longleftrightarrow> length line \<le> 16384"

inductive accepted :: "nat \<Rightarrow> nat \<Rightarrow> ustr list \<Rightarrow> bool"
  and titled :: "nat \<Rightarrow> nat \<Rightarrow> ustr list \<Rightarrow> bool"
  and inside :: "nat \<Rightarrow> nat \<Rightarrow> (int \<times> int) list \<Rightarrow> (ustr, int) dict \<Rightarrow> ustr list \<Rightarrow> bool"
where
  none: "accepted 0 0 []"
| ended: "inside r n obs counters ls \<Longrightarrow> totals_right obs counters \<Longrightarrow> accepted r n (ls @ [u ''end_of_record''])"
| title: "accepted r n ls \<Longrightarrow> fits (u ''TN'' @ 58 # v) \<Longrightarrow> titled r n (ls @ [u ''TN'' @ 58 # v])"
| untitled_source: "accepted r n ls \<Longrightarrow> r < 1000 \<Longrightarrow> v \<noteq> [] \<Longrightarrow> fits (u ''SF'' @ 58 # v) \<Longrightarrow> inside (Suc r) n [] [] (ls @ [u ''SF'' @ 58 # v])"
| titled_source: "titled r n ls \<Longrightarrow> r < 1000 \<Longrightarrow> v \<noteq> [] \<Longrightarrow> fits (u ''SF'' @ 58 # v) \<Longrightarrow> inside (Suc r) n [] [] (ls @ [u ''SF'' @ 58 # v])"
| observation: "inside r n obs counters ls \<Longrightarrow> n < 10000 \<Longrightarrow> observation_text v l h checksum \<Longrightarrow> l \<notin> fst ` set obs \<Longrightarrow>
    fits (u ''DA'' @ 58 # v) \<Longrightarrow> inside r (Suc n) (obs @ [(l, h)]) counters (ls @ [u ''DA'' @ 58 # v])"
| declared: "inside r n obs counters ls \<Longrightarrow> tag = u ''LF'' \<or> tag = u ''LH'' \<Longrightarrow> tag \<notin> fst ` set counters \<Longrightarrow> decimal v m \<Longrightarrow>
    fits (tag @ 58 # v) \<Longrightarrow> inside r n obs (counters @ [(tag, m)]) (ls @ [tag @ 58 # v])"
| other: "inside r n obs counters ls \<Longrightarrow> tag \<in> set lcov_ignored \<Longrightarrow> fits (tag @ 58 # v) \<Longrightarrow>
    inside r n obs counters (ls @ [tag @ 58 # v])"

subsection \<open>The reader follows the grammar\<close>

definition reads_to :: "ustr list \<Rightarrow> lcov_state \<Rightarrow> bool" where
  "reads_to ls st \<longleftrightarrow> fold_res lcov_line lcov_start (List.enumerate 1 ls) = Inr st"

lemma reads_to_Nil: "reads_to [] st \<longleftrightarrow> st = lcov_start"
  by (auto simp: reads_to_def)

lemma reads_to_snoc: "reads_to (ls @ [line]) st' \<longleftrightarrow> (\<exists>st. reads_to ls st \<and> fits line \<and> lcov_step st (Suc (length ls)) line st')"
  by (auto simp: reads_to_def enumerate_append_eq fold_res_append rbind_eq_Inr lcov_line_step fits_def)

lemma hits_of_simps [simp]:
  "hits_of \<lparr>lr_path = p, lr_lines = [], lr_counters = d\<rparr> = []"
  "hits_of (c\<lparr>lr_lines := lr_lines c @ [(l, row)]\<rparr>) = hits_of c @ [(l, ob_hits row)]"
  "hits_of (c\<lparr>lr_counters := d\<rparr>) = hits_of c"
  by (simp_all add: hits_of_def)

lemma hits_keys: "fst ` set (hits_of c) = set (dkeys (lr_lines c))"
  by (force simp: hits_of_def dkeys_def)

definition describes :: "lcov_state \<Rightarrow> ustr list \<Rightarrow> bool" where
  "describes st ls \<longleftrightarrow>
     (case ls_current st of
        None \<Rightarrow> if ls_pending_test st then titled (ls_records st) (ls_count st) ls else accepted (ls_records st) (ls_count st) ls
      | Some c \<Rightarrow> inside (ls_records st) (ls_count st) (hits_of c) (lr_counters c) ls)"

lemma describes_step:
  assumes "lcov_step st n line st'" "fits line" "describes st ls"
  shows "describes st' (ls @ [line])"
  using assms(1)
proof cases
  case (source v)
  with assms show ?thesis
    by (auto simp: describes_def split: if_splits intro: accepted_titled_inside.intros)
next
  case (observe v c l h checksum)
  then have "l \<notin> fst ` set (hits_of c)" by (simp add: hits_keys dhas_def)
  with observe assms(2,3) show ?thesis
    by (auto simp: describes_def observed_def intro!: accepted_titled_inside.observation)
next
  case (counter tag v c m)
  then have "tag \<notin> fst ` set (lr_counters c)" by (simp add: dhas_def dkeys_def)
  with counter assms(2,3) show ?thesis
    by (auto simp: describes_def intro: accepted_titled_inside.declared)
qed (use assms(2,3) in \<open>auto simp: describes_def intro: accepted_titled_inside.intros\<close>)

lemma describes_run: "reads_to ls st \<Longrightarrow> describes st ls"
proof (induction ls arbitrary: st rule: rev_induct)
  case Nil
  then show ?case by (simp add: reads_to_Nil describes_def lcov_start_def accepted_titled_inside.none)
next
  case (snoc line ls)
  then show ?case by (auto simp: reads_to_snoc intro: describes_step)
qed

text \<open>Every text of the grammar is read.\<close>

definition no_record :: "nat \<Rightarrow> nat \<Rightarrow> bool \<Rightarrow> ustr list \<Rightarrow> bool" where
  "no_record r n pending ls \<longleftrightarrow> (\<exists>st. reads_to ls st \<and> ls_current st = None \<and> ls_pending_test st = pending \<and>
     ls_records st = r \<and> ls_count st = n)"

definition in_record :: "nat \<Rightarrow> nat \<Rightarrow> (int \<times> int) list \<Rightarrow> (ustr, int) dict \<Rightarrow> ustr list \<Rightarrow> bool" where
  "in_record r n obs counters ls \<longleftrightarrow> (\<exists>st c. reads_to ls st \<and> ls_current st = Some c \<and> hits_of c = obs \<and> lr_counters c = counters \<and>
     ls_records st = r \<and> ls_count st = n)"

lemma grammar_run:
  "accepted r n ls \<Longrightarrow> no_record r n False ls"
  "titled r n ls \<Longrightarrow> no_record r n True ls"
  "inside r n obs counters ls \<Longrightarrow> in_record r n obs counters ls"
proof (induction rule: accepted_titled_inside.inducts)
  case none
  show ?case by (auto simp: no_record_def reads_to_Nil lcov_start_def)
next
  case (ended r n obs counters ls)
  have "fits (u ''end_of_record'')" by (simp add: fits_def)
  with ended show ?case by (force simp: no_record_def in_record_def reads_to_snoc intro: lcov_step.finish)
next
  case (title r n ls v)
  then show ?case by (force simp: no_record_def reads_to_snoc intro: lcov_step.test)
next
  case (untitled_source r n ls v)
  then show ?case by (force simp: no_record_def in_record_def reads_to_snoc intro: lcov_step.source)
next
  case (titled_source r n ls v)
  then show ?case by (force simp: no_record_def in_record_def reads_to_snoc intro: lcov_step.source)
next
  case (observation r n obs counters ls v l h checksum)
  then obtain st c where st: "reads_to ls st" "ls_current st = Some c" "hits_of c = obs" "lr_counters c = counters"
    "ls_records st = r" "ls_count st = n" by (auto simp: in_record_def)
  with observation have "\<not> dhas (lr_lines c) l" by (auto simp: dhas_def hits_keys [symmetric])
  with observation st lcov_step.observe [of _ v st c l h checksum "Suc (length ls)"] show ?case
    by (force simp: in_record_def reads_to_snoc observed_def)
next
  case (declared r n obs counters ls tag v m)
  then obtain st c where st: "reads_to ls st" "ls_current st = Some c" "hits_of c = obs" "lr_counters c = counters"
    "ls_records st = r" "ls_count st = n" by (auto simp: in_record_def)
  with declared have "\<not> dhas (lr_counters c) tag" by (auto simp: dhas_def dkeys_def)
  with declared st lcov_step.counter [of _ tag v st c m "Suc (length ls)"] show ?case
    by (force simp: in_record_def reads_to_snoc)
next
  case (other r n obs counters ls tag v)
  then show ?case by (force simp: in_record_def reads_to_snoc intro: lcov_step.ignored)
qed

subsection \<open>What it returns\<close>

definition open_rows :: "lcov_state \<Rightarrow> (coordinate \<times> observation) list" where
  "open_rows st = (case ls_current st of None \<Rightarrow> [] | Some c \<Rightarrow> rows_of c)"

lemma filed_append: "filed (filed groups xs) ys = filed groups (xs @ ys)"
  by (simp add: filed_def)

lemma filed_Nil [simp]: "filed groups [] = groups"
  by (simp add: filed_def)

lemma lcov_line_files:
  assumes "lcov_line st (n, line) = Inr st'" "context_of st ctx"
  shows "filed (ls_groups st') (open_rows st') = filed (ls_groups st) (open_rows st @ line_fact ctx n line)"
proof -
  obtain path r t where ctx: "ctx = (path, r, t)" by (cases ctx)
  with assms(2) have rt: "r = ls_records st" "t = ls_test_name st"
    and path: "\<And>c. ls_current st = Some c \<Longrightarrow> path = lr_path c" by (auto simp: context_of_def)
  from assms(1) have "lcov_step st n line st'" by (simp add: lcov_line_step)
  then show ?thesis
  proof cases
    case (finish c)
    then show ?thesis by (simp add: ctx open_rows_def line_fact_def end_partition)
  next
    case (observe v c l h checksum)
    with ctx rt path observation_fields [OF observe(4)] show ?thesis
      by (simp add: open_rows_def rows_of_def line_fact_def Let_def observed_def)
  next
    case (counter tag v c m)
    then show ?thesis by (auto simp: ctx open_rows_def rows_of_def line_fact_def)
  next
    case (ignored tag v c)
    then show ?thesis by (auto simp: ctx open_rows_def line_fact_def lcov_ignored_def)
  qed (simp_all add: ctx open_rows_def rows_of_def line_fact_def)
qed

lemma lcov_run_files:
  assumes "fold_res lcov_line st (List.enumerate n lines) = Inr st'" "context_of st ctx"
  shows "filed (ls_groups st') (open_rows st') = filed (ls_groups st) (open_rows st @ reported ctx n lines)"
  using assms
proof (induction lines arbitrary: st n ctx)
  case (Cons line lines)
  from Cons.prems obtain st1 where one: "lcov_line st (n, line) = Inr st1"
    and run: "fold_res lcov_line st1 (List.enumerate (Suc n) lines) = Inr st'"
    by (auto simp: res_simps)
  note step = lcov_line_files [OF one Cons.prems(2)]
  from lcov_line_gathers [OF one Cons.prems(2)] have "context_of st1 (next_context ctx line)" by blast
  from Cons.IH [OF run this] have "filed (ls_groups st') (open_rows st') =
      filed (filed (ls_groups st1) (open_rows st1)) (reported (next_context ctx line) (Suc n) lines)" by (simp add: filed_append)
  also have "\<dots> = filed (ls_groups st) (open_rows st @ reported ctx n (line # lines))" by (simp add: step filed_append)
  finally show ?case .
qed simp

lemma sample_decodes: "utf8_decode (utf8_bytes sample_report) = Inr sample_report"
  by (rule utf8.roundtrip) (simp add: sample_report_def, simp add: is_scalar_def)

text \<open>C2: the coverage reader accepts exactly the reports of the grammar, 1 to 1000 complete records with at most
  10000 observations, in UTF-8 text of at most 1 MiB without NUL or lone carriage returns; and it returns
  exactly the observations of their \<open>DA\<close> lines, in report order, filed under the path of their record and
  their source line, with the numbers of records, observations and coordinates.\<close>

theorem lcov_language:
  "lcov data = Inr (groups, stats) \<longleftrightarrow>
     (\<exists>s. length data \<le> MAX_REPORT \<and> utf8_decode data = Inr s \<and> 0 \<notin> set s \<and> 13 \<notin> set (replace_crlf [] s) \<and>
        accepted (st_record_count stats) (st_line_observation_count stats) (lcov_lines s) \<and> 0 < st_record_count stats \<and>
        groups = filed [] (report_facts s) \<and> st_coordinate_count stats = length groups)"
  (is "?reads \<longleftrightarrow> (\<exists>s. ?short \<and> ?decodes s \<and> ?no_nul s \<and> ?no_return s \<and> ?language s)")
proof
  assume ?reads
  then obtain s st where whole: "?short" "?decodes s" "?no_nul s" "?no_return s" and run: "reads_to (lcov_lines s) st" and closed: "ls_current st = None" "\<not> ls_pending_test st"
    and result: "0 < ls_records st" "groups = ls_groups st" "stats = \<lparr>st_record_count = ls_records st,
      st_line_observation_count = ls_count st, st_coordinate_count = length (ls_groups st)\<rparr>"
    by (auto simp: lcov_def res_simps reads_to_def)
  have "context_of lcov_start ([], 0, [])" by (simp add: context_of_def lcov_start_def)
  from lcov_run_files [OF run [unfolded reads_to_def] this] closed
  have "ls_groups st = filed [] (report_facts s)" by (simp add: open_rows_def lcov_start_def report_facts_def)
  with whole result describes_run [OF run] closed show "\<exists>s. ?short \<and> ?decodes s \<and> ?no_nul s \<and> ?no_return s \<and> ?language s" by (auto simp: describes_def)
next
  assume "\<exists>s. ?short \<and> ?decodes s \<and> ?no_nul s \<and> ?no_return s \<and> ?language s"
  then obtain s where whole: "?short" "?decodes s" "?no_nul s" "?no_return s" and language: "?language s" by blast
  from grammar_run(1) [OF conjunct1 [OF language]] obtain st where run: "reads_to (lcov_lines s) st"
    and closed: "ls_current st = None" "\<not> ls_pending_test st"
    and counts: "ls_records st = st_record_count stats" "ls_count st = st_line_observation_count stats"
    by (auto simp: no_record_def)
  have "context_of lcov_start ([], 0, [])" by (simp add: context_of_def lcov_start_def)
  from lcov_run_files [OF run [unfolded reads_to_def] this] closed
  have "ls_groups st = groups" using language by (simp add: open_rows_def lcov_start_def report_facts_def)
  with whole language run closed counts show ?reads by (simp add: lcov_def reads_to_def)
qed

text \<open>The report of \<open>sample_report\<close> is in the language, and one whose record is not closed is refused.\<close>

theorem lcov_language_witness:
  "accepted 1 2 (lcov_lines sample_report) \<and> sample_groups = filed [] (report_facts sample_report)"
  using lcov_language [of "utf8_bytes sample_report", THEN iffD1, OF sample_lcov] sample_decodes by auto

end
