(* ===== verification/JsonReread.thy ===== *)
theory JsonReread
  imports Json
begin

section \<open>Values that were read\<close>

text \<open>
  A value that the JSON reader delivered can be written and read again: its integers are printable, its
  floats are canonical and its objects have distinct keys. The tools rely on it when they pass a
  part of a request on as bytes of its own. \<open>json.dumps(v, allow_nan=False)\<close> refuses what the strict
  reader would, and encoding as UTF-8 refuses surrogates; what is left round-trips.
\<close>

subsection \<open>What the reader delivers\<close>

text \<open>What the reader delivers, in either mode.\<close>

fun jread :: "json \<Rightarrow> bool" where
  "jread (JInt i) = int_printable i"
| "jread (JFloat x) = fcanon x"
| "jread (JArr vs) = list_all jread vs"
| "jread (JObj ms) = (distinct (map fst ms) \<and> list_all (\<lambda>(k, v). jread v) ms)"
| "jread _ = True"

lemma jvalid_read: "jread v \<Longrightarrow> jfinite v \<Longrightarrow> jvalid False v"
proof (induction v)
  case (JObj ms)
  then show ?case by (force simp: list_all_iff)
qed (auto simp: list_all_iff)

lemma jvalid_ascii: "jvalid False v \<Longrightarrow> jscalar v \<Longrightarrow> jvalid a v"
proof (induction v)
  case (JObj ms)
  then show ?case by (force simp: list_all_iff char_ok_def)
qed (auto simp: list_all_iff char_ok_def)

subsection \<open>Numbers\<close>

lemma round_even_lower: "of_nat n \<le> q \<Longrightarrow> n \<le> round_even q"
proof -
  assume "of_nat n \<le> q"
  then have "int n \<le> floor q" by (simp add: le_floor_iff)
  then show ?thesis by (auto simp: round_even_def Let_def)
qed

lemma round_even_upper: "0 \<le> q \<Longrightarrow> q < of_nat n \<Longrightarrow> round_even q \<le> n"
proof -
  assume "0 \<le> q" "q < of_nat n"
  then have "floor q < int n" "0 \<le> floor q" by (simp_all add: floor_less_iff)
  then have "nat (floor q) + 1 \<le> n" by linarith
  then show ?thesis by (simp add: round_even_def Let_def)
qed

lemma fcanon_fround: "fcanon (fround s q)"
proof (cases "q \<le> 0")
  case True
  then show ?thesis by (simp add: fround_def)
next
  case False
  then have pos: "0 < q" by simp
  define e where "e = max (- 1074) (log2_rat q - 52)"
  define m where "m = round_even (q * 2 powi (- e))"
  have "q * 2 powi (- e) < 2 powi (log2_rat q + 1) * 2 powi (- e)" using log2_rat_spec [OF pos] by simp
  also have "\<dots> = 2 powi (log2_rat q + 1 - e)" by (simp add: power_int_add [symmetric])
  also have "\<dots> \<le> (2::rat) powi 53" by (rule power_int_increasing) (simp_all add: e_def)
  finally have up: "q * 2 powi (- e) < of_nat (2 ^ 53)" by simp
  then have m: "m \<le> 2 ^ 53" unfolding m_def by (rule round_even_upper [rotated]) (use pos in simp)
  have low: "2 ^ 52 \<le> m \<or> e = - 1074"
  proof (cases "e = - 1074")
    case False
    then have e: "e = log2_rat q - 52" by (simp add: e_def max_def split: if_splits)
    have "of_nat (2 ^ 52) = (2::rat) powi (log2_rat q) * 2 powi (- e)" by (simp add: power_int_add [symmetric] e)
    also have "\<dots> \<le> q * 2 powi (- e)" using log2_rat_spec [OF pos] by simp
    finally show ?thesis unfolding m_def by (blast dest: round_even_lower)
  qed simp
  have "- 1074 \<le> e" by (simp add: e_def)
  with m low False show ?thesis by (auto simp: fround_def Let_def e_def [symmetric] m_def [symmetric])
qed

lemma digits_value_bound: "list_all is_digit s \<Longrightarrow> digits_value s < 10 ^ length s"
proof (induction s rule: rev_induct)
  case (snoc c s)
  then have "digits_value s < 10 ^ length s" "c - 48 \<le> 9" by (auto simp: is_digit_def)
  then show ?case by (simp add: digits_value_append)
qed (simp add: digits_value_def)

lemma py_int_printable:
  assumes "py_int s = Inr i" "list_all is_digit (if starts_with s (u ''-'') then tl s else s)"
    "(if starts_with s (u ''-'') then tl s else s) \<noteq> []"
  shows "int_printable i"
proof -
  define t where "t = (if starts_with s (u ''-'') then tl s else s)"
  have t: "length t \<le> 4300" "nat \<bar>i\<bar> = digits_value t" using assms(1) by (auto simp: py_int_def Let_def t_def split: if_splits)
  from digits_value_bound [of t] assms(2,3) show ?thesis
    by (intro int_printable_bound [where k = "length t"]) (simp_all add: t t_def [symmetric])
qed

lemma leading_digits [simp]: "list_all is_digit (takeWhile is_digit s)"
  by (auto simp: list_all_iff dest: set_takeWhileD)

lemma scan_int_digits: "scan_int s = Some (ip, r) \<Longrightarrow> list_all is_digit ip \<and> ip \<noteq> []"
  by (cases s) (auto simp: scan_int_def is_digit_def split: if_splits)

lemma scan_number_int: "scan_number s = Some (t, r) \<Longrightarrow> list_all is_digit (nt_int t) \<and> nt_int t \<noteq> []"
  by (auto simp: scan_number_def Let_def split: option.splits prod.splits dest: scan_int_digits)

lemma digit_minus: "list_all is_digit s \<Longrightarrow> \<not> starts_with s (u ''-'')"
  by (auto simp: starts_with_iff u_def is_digit_def)

lemma jnumber_read: "jnumber s = Inr (v, r) \<Longrightarrow> jread v"
proof -
  assume a: "jnumber s = Inr (v, r)"
  then obtain t q where t: "scan_number s = Some (t, q)" by (auto simp: jnumber_def split: option.splits)
  from scan_number_int [OF this] have d: "list_all is_digit (nt_int t)" "nt_int t \<noteq> []" by auto
  have "int_printable i" if "py_int ((if nt_neg t then [45] else []) @ nt_int t) = Inr i" for i
    using py_int_printable [OF that] d digit_minus [OF d(1)] by (simp add: u_def split: if_splits)
  with a t show ?thesis by (auto simp: jnumber_def res_simps nt_float_def fcanon_fround split: if_splits)
qed

lemma jconstant_read: "jconstant strict s = Inr (v, r) \<Longrightarrow> jread v"
  by (auto simp: jconstant_def constant_hook_def res_simps split: if_splits dest: jnumber_read)

subsection \<open>Documents\<close>

lemma dput_run_keys:
  "dict_ok d \<Longrightarrow> dict_ok (foldl (\<lambda>d (k, v). dput k v d) d items)"
  by (induction items arbitrary: d) auto

lemma dput_members: "set (dput k v d) \<subseteq> insert (k, v) (set d)"
  by (induction d) (auto split: if_splits)

lemma dput_run_members: "set (foldl (\<lambda>d (k, v). dput k v d) d items) \<subseteq> set d \<union> set items"
proof (induction items arbitrary: d)
  case (Cons it items)
  obtain k v where it: "it = (k, v)" by (cases it)
  from Cons.IH [of "dput k v d"] dput_members [of k v d] show ?case by (auto simp: it)
qed simp

lemma object_hook_read:
  assumes "object_hook strict items = Inr d" "list_all (\<lambda>(k, v). jread v) items"
  shows "jread (JObj d)"
proof (cases strict)
  case True
  with assms show ?thesis by (auto dest: object_hook_strict)
next
  case False
  then have d: "d = foldl (\<lambda>d (k, v). dput k v d) [] items" using assms(1) by (simp add: object_hook_def)
  have "distinct (map fst d)" using dput_run_keys [of "[]" items] by (simp add: d dict_ok_def dkeys_def)
  moreover have "set d \<subseteq> set items" using dput_run_members [of "[]" items] by (simp add: d)
  ultimately show ?thesis using assms(2) by (auto simp: list_all_iff)
qed

lemma reader_read:
  "jvalue strict n s = Inr (v, r) \<Longrightarrow> jread v"
  "jelements strict n s = Inr (vs, r) \<Longrightarrow> list_all jread vs"
  "jmembers strict n s = Inr (ms, r) \<Longrightarrow> list_all (\<lambda>(k, v). jread v) ms"
proof (induction n arbitrary: s v vs ms r)
  case 0
  { case 1 then show ?case by simp next case 2 then show ?case by simp next case 3 then show ?case by simp }
next
  case (Suc n)
  note IH = Suc.IH
  {
    case 1
    then obtain c q where s: "s = c # q" by (cases s) auto
    show ?case
    proof (cases "c = 34 \<or> c = 123 \<or> c = 91")
      case False
      with 1 s show ?thesis by (auto dest: jconstant_read)
    next
      case True
      have empty: "object_hook strict [] = Inr d \<Longrightarrow> jread (JObj d)" for d by (erule object_hook_read) simp
      from True 1 s show ?thesis
        by (auto simp: res_simps simp del: jread.simps(4) split: option.splits dest: object_hook_read [OF _ IH(3)] empty)
           (auto dest: IH(2))
    qed
  next
    case 2
    then obtain w q where v: "jvalue strict n s = Inr (w, q)" by (auto simp: res_simps)
    have "list_all jread vs" if "jread w"
      using 2 v that by (cases "expect 93 (skip_ws q)") (auto simp: res_simps split: option.splits dest: IH(2))
    with IH(1) [OF v] show ?case by blast
  next
    case 3
    then obtain k q1 q2 q3 w q where s: "expect 34 s = Some q1" "jstring q1 = Inr (k, q2)"
        "expect 58 (skip_ws q2) = Some q3" and v: "jvalue strict n (skip_ws q3) = Inr (w, q)"
      by (auto simp: res_simps split: option.splits)
    have "list_all (\<lambda>(k, v). jread v) ms" if "jread w"
      using 3 s v that by (cases "expect 125 (skip_ws q)") (auto simp: res_simps split: option.splits dest: IH(3))
    with IH(1) [OF v] show ?case by blast
  }
qed

lemma loads_read: "loads strict s = Inr v \<Longrightarrow> jread v"
  by (auto simp: loads_def res_simps simp del: jvalue.simps split: if_splits dest!: reader_read(1))

subsection \<open>What can be encoded\<close>

lemma scalar_escape: "text_scalar (escape_char False c) \<Longrightarrow> is_scalar c"
  by (auto simp: escape_char_def is_scalar_def split: if_splits)

lemma scalar_dump_string: "text_scalar (dump_string False s) \<Longrightarrow> list_all is_scalar s"
  by (induction s) (auto simp: dump_string_def dest: scalar_escape)

lemma scalar_join: "text_scalar (join sep ps) \<Longrightarrow> list_all text_scalar ps"
  by (induction sep ps rule: join.induct) auto

lemma scalar_dumps: "\<not> ds_ascii st \<Longrightarrow> text_scalar (dumps st v) \<Longrightarrow> jscalar v"
proof (induction v)
  case (JArr vs)
  then have "list_all text_scalar (map (dumps st) vs)" by (auto dest: scalar_join)
  with JArr show ?case by (auto simp: list_all_iff)
next
  case (JObj ms)
  then have "list_all text_scalar (map (\<lambda>(k, v). dump_string (ds_ascii st) k @ ds_key st @ dumps st v) ms)" by (auto dest: scalar_join)
  with JObj show ?case by (force simp: list_all_iff dest: scalar_dump_string [unfolded list_all_iff])
qed (auto dest: scalar_dump_string)

text \<open>A value that was read and could be written without nonfinite numbers and encoded is read back as it is.\<close>

lemma read_again:
  assumes "jread v" "finite_text v (dumps plain_style) = Inr t" "utf8_encode t = Inr raw"
  shows "decode raw = Inr v" "jvalid False v" "jscalar v"
proof -
  have t: "t = dumps plain_style v" "jfinite v" using assms(2) by (auto simp: finite_text_def res_simps)
  show valid: "jvalid False v" using assms(1) t(2) by (rule jvalid_read)
  have raw: "text_scalar t" "raw = utf8_bytes t" using assms(3) by (auto simp: utf8_encode_def text_scalar_def split: if_splits)
  then show scalar: "jscalar v" using scalar_dumps [of plain_style v] by (simp add: t plain_style_def)
  have "jvalid (ds_ascii plain_style) v" using valid by (simp add: plain_style_def)
  from decode_dumps [OF _ this scalar] show "decode raw = Inr v" by (simp add: raw t(1))
qed

lemma read_member: "jread (JObj d) \<Longrightarrow> dget d k = Some v \<Longrightarrow> jread v"
  by (auto simp: list_all_iff dest: map_of_SomeD)

lemma decode_read: "decode raw = Inr v \<Longrightarrow> jread v"
  by (auto simp: decode_def rbind_eq_Inr dest: loads_read)

end
