(* ===== verification/Documents.thy ===== *)
theory Documents
  imports Commands JsonReread
begin

section \<open>Documents the commands put together\<close>

text \<open>
  Every JSON document the tools write is a context merged with further members. The lemmas say what a
  reader of such a document finds in it: the members of the last part as they are, and the whole
  document, once its text has been encoded and decoded again.
\<close>

subsection \<open>Merging\<close>

lemma dget_dmerge: "dget (dmerge d e) k = (case map_of (rev e) k of Some v \<Rightarrow> Some v | None \<Rightarrow> dget d k)"
proof (induction e arbitrary: d)
  case Nil
  then show ?case by (simp add: dmerge_def)
next
  case (Cons p e)
  obtain k' v where p: "p = (k', v)" by (cases p)
  have "dmerge d (p # e) = dmerge (dput k' v d) e" by (simp add: dmerge_def p)
  then show ?case by (simp add: Cons p dget_dput map_add_def split: option.splits)
qed

lemma dget_dmerge_same: "k \<in> fst ` set e \<Longrightarrow> dget (dmerge d e) k = dget (dmerge d' e) k"
proof -
  assume "k \<in> fst ` set e"
  then have "map_of (rev e) k \<noteq> None" by (simp add: map_of_eq_None_iff)
  then show ?thesis by (auto simp: dget_dmerge)
qed

subsection \<open>Documents that can be read\<close>

lemma valid_parts: "jvalid False v \<longleftrightarrow> jread v \<and> jfinite v"
proof
  show "jvalid False v \<Longrightarrow> jread v \<and> jfinite v"
  proof (induction v)
    case (JObj ms)
    then show ?case by (force simp: list_all_iff)
  qed (auto simp: list_all_iff)
qed (blast intro: jvalid_read)

lemma valid_dmerge:
  assumes "jvalid False (JObj d)" "list_all (\<lambda>(k, v). jvalid False v) e"
  shows "jvalid False (JObj (dmerge d e))"
proof -
  have "distinct (map fst (dmerge d e))"
    using assms(1) dput_run_keys [of d e] by (simp add: dict_ok_def dkeys_def dmerge_def)
  moreover have "set (dmerge d e) \<subseteq> set d \<union> set e" unfolding dmerge_def by (rule dput_run_members)
  ultimately show ?thesis using assms by (auto simp: list_all_iff)
qed

lemma valid_counts:
  assumes "dict_ok counts" "dsum counts \<le> 16 * 1024 * 1024"
  shows "jvalid False (counts_json counts)"
proof -
  have "n \<le> dsum counts" if "(k, n) \<in> set counts" for k n
    using member_le_sum_list [of n "map snd counts"] that by (force simp: dsum_def)
  then have "list_all (\<lambda>(k, n). int_printable (int n)) counts"
    using assms(2) by (fastforce simp: list_all_iff intro!: small_printable)
  then show ?thesis using assms(1) by (simp add: counts_json_def dict_ok_def dkeys_def list_all_iff comp_def case_prod_beta)
qed

lemma dict_ok_tally [simp]: "dict_ok (tally ks)"
proof -
  have "dict_ok d \<Longrightarrow> dict_ok (foldl (\<lambda>d k. bump k d) d ks)" for d by (induction ks arbitrary: d) (auto simp: bump_def)
  then show ?thesis by (simp add: tally_def)
qed

lemma written_document:
  assumes "utf8_encode (pretty v) = Inr raw" "jvalid False v"
  shows "decode raw = Inr v"
  using utf8_encode_decode [OF assms(1)] pretty_text.roundtrip [OF assms(2), of True] by (simp add: decode_def)

subsection \<open>What was read from a bundle\<close>

lemma read_get: "jread (JObj d) \<Longrightarrow> jread (jget d k)"
  by (auto simp: jget_def simp del: jread.simps(4) split: option.splits dest: read_member)

lemma source_read:
  assumes "read_bundle zip_open archive artifact m = Inr (data, source)"
  shows "jread (JObj source)"
proof -
  from assms [unfolded read_bundle_iff] obtain raw members listing manifest_raw manifest files artifacts entry m where
    whole: "review_bundle members listing manifest files artifacts" and d: "decode manifest_raw = Inr (JObj manifest)"
    and e: "entry \<in> set files" and s: "source = bundle_context raw manifest_raw manifest entry"
    by (auto dest: set_zip_leftD)
  from whole have files: "jget manifest ''files'' = JArr files" by (simp add: review_bundle_def inventory_of_def)
  note manifest = read_get [OF decode_read [OF d]]
  have "jread entry" using manifest [of "''files''"] e by (simp add: files list_all_iff)
  with manifest show ?thesis by (simp add: s bundle_context_def)
qed

end
