(* ===== verification/CoverageReport.thy ===== *)
theory CoverageReport
  imports Lcov Documents
begin

section \<open>What a coverage review says\<close>

text \<open>
  The coverage command from its two files to the bytes it writes: the bundles, the two readers, the
  comparison and its two formats composed. The lemmas show that whoever reads the output back, as JSON or
  as CSV, gets the rows of the comparison of the two selected reports, and that the sidecar names them
  and their digest.
\<close>

subsection \<open>Documents of a comparison\<close>

lemma row_valid: "row_printable row \<Longrightarrow> jvalid False (coverage_row_json row)"
  by (simp add: row_printable_def coverage_row_json_def)

lemma report_size:
  assumes "lcov data = Inr (groups, stats)"
  shows "card (set (dkeys groups)) \<le> 10000"
proof -
  note limits = lcov_limits [OF assms]
  have "length groups \<le> sum_list (map (length \<circ> snd) groups)"
  proof -
    have "sum_list (map (\<lambda>_. 1) groups) \<le> sum_list (map (length \<circ> snd) groups)"
      using limits by (intro sum_list_mono) (fastforce simp: list_all_iff Suc_le_eq)
    then show ?thesis by (simp add: sum_list_triv)
  qed
  moreover have "card (set (dkeys groups)) \<le> length groups" using card_length [of "dkeys groups"] by (simp add: dkeys_def)
  ultimately show ?thesis using limits by linarith
qed

lemma compare_counts:
  assumes "lcov before_data = Inr (before, before_stats)" "lcov after_data = Inr (after, after_stats)"
    and "compare before after changes_only = (rows, counts)"
  shows "dict_ok counts" "dsum counts \<le> 20000" "length rows \<le> 20000"
proof -
  let ?all = "map (compare_row before after) (sorted_union (dkeys before) (dkeys after))"
  have rows: "rows = filter (\<lambda>row. \<not> changes_only \<or> \<not> unchanged row) ?all" and counts: "counts = tally (map cr_status ?all)"
    using assms(3) by (simp_all add: compare_eq Let_def)
  have "length ?all \<le> card (set (dkeys before)) + card (set (dkeys after))"
    by (simp add: length_sorted_union card_Un_le)
  also have "\<dots> \<le> 20000" using report_size [OF assms(1)] report_size [OF assms(2)] by linarith
  finally have all: "length ?all \<le> 20000" .
  show "dict_ok counts" by (simp add: counts)
  show "dsum counts \<le> 20000" using all by (simp add: counts dsum_tally)
  show "length rows \<le> 20000" unfolding rows using length_filter_le [of _ ?all] all by (rule order_trans)
qed

lemma stats_valid:
  assumes "lcov data = Inr (groups, stats)" "jread (JObj source)" "jfinite (JObj source)"
  shows "jvalid False (JObj (dmerge source (stats_json stats)))"
proof (rule valid_dmerge)
  show "jvalid False (JObj source)" using assms(2,3) by (simp only: valid_parts)
  note limits = lcov_limits [OF assms(1)]
  have "st_record_count stats \<le> 1000" "st_line_observation_count stats \<le> 10000" "st_coordinate_count stats \<le> 10000"
    using limits report_size [OF assms(1)] by linarith+
  then show "list_all (\<lambda>(k, v). jvalid False v) (stats_json stats)" by (simp add: stats_json_def small_printable)
qed

lemma coverage_rows_valid:
  assumes "lcov before_data = Inr (before, before_stats)" "lcov after_data = Inr (after, after_stats)"
    and "compare before after changes_only = (rows, counts)"
  shows "jvalid False (JArr (map coverage_row_json rows))"
  using compare_rows_printable [OF assms(1,2), of _ changes_only] assms(3) by (simp add: list_all_iff row_valid)

subsection \<open>The output and the sidecar\<close>

text \<open>What is read back from the bytes of an output in the CSV format.\<close>

definition csv_rows_read :: "bytes \<Rightarrow> (coordinate \<times> ustr \<times> ustr \<times> json \<times> json) list res" where
  "csv_rows_read out = rbind (rbind (utf8_decode out) csv_parse) (\<lambda>t. map_res coverage_csv_read (tl t))"

lemma csv_rows_read:
  assumes "utf8_encode (csv_output rows) = Inr out" "list_all row_printable rows"
  shows "csv_rows_read out = Inr (map row_content rows)"
proof -
  have "map_res coverage_csv_read (map coverage_csv_row rows) = Inr (map row_content rows)"
    using assms(2) by (induction rows) (simp_all add: coverage_csv_read_row)
  with utf8_encode_decode [OF assms(1)] show ?thesis by (simp add: csv_rows_read_def csv_output_parse)
qed

lemma coverage_main_Done:
  assumes "coverage_main zip_open before_file after_file args = Done out sidecar"
  obtains before_bytes before_source after_bytes after_source before bs after as rows counts where
    "read_bundle zip_open before_file (ca_report args) (u ''LCOV'') = Inr (before_bytes, before_source)"
    "read_bundle zip_open after_file (after_report args) (u ''LCOV'') = Inr (after_bytes, after_source)"
    "lcov before_bytes = Inr (before, bs)" "lcov after_bytes = Inr (after, as)"
    "compare before after (ca_changes_only args) = (rows, counts)"
proof -
  have "coverage_body zip_open before_file after_file args = Inr (out, sidecar)"
    using assms by (auto simp: coverage_main_def run_command_def split: sum.splits if_splits)
  then obtain bb bsrc ab asrc before bs after as where
    "read_bundle zip_open before_file (ca_report args) (u ''LCOV'') = Inr (bb, bsrc)"
    "read_bundle zip_open after_file (after_report args) (u ''LCOV'') = Inr (ab, asrc)"
    "lcov bb = Inr (before, bs)" "lcov ab = Inr (after, as)"
    unfolding coverage_body_def rbind_eq_Inr split_paired_Ex prod.case by blast
  then show thesis using that by (cases "compare before after (ca_changes_only args)") blast
qed

lemma coverage_result:
  assumes run: "coverage_main zip_open before_file after_file args = Done out sidecar"
    and bundles: "read_bundle zip_open before_file (ca_report args) (u ''LCOV'') = Inr (before_bytes, before_source)"
      "read_bundle zip_open after_file (after_report args) (u ''LCOV'') = Inr (after_bytes, after_source)"
    and reports: "lcov before_bytes = Inr (before, before_stats)" "lcov after_bytes = Inr (after, after_stats)"
    and rows: "compare before after (ca_changes_only args) = (rows, counts)"
  obtains document side where
    "ca_csv args \<Longrightarrow> utf8_encode (csv_output rows) = Inr out" "ca_csv args \<Longrightarrow> csv_rows_read out = Inr (map row_content rows)"
    "\<lbrakk>jfinite (JObj before_source); jfinite (JObj after_source); \<not> ca_csv args\<rbrakk> \<Longrightarrow> decode out = Inr (JObj document)"
    "jget document ''rows'' = JArr (map coverage_row_json rows)" "jget document ''status_counts'' = counts_json counts"
    "jget document ''before'' = JObj (dmerge before_source (stats_json before_stats))"
    "jget document ''after'' = JObj (dmerge after_source (stats_json after_stats))"
    "\<lbrakk>jfinite (JObj before_source); jfinite (JObj after_source)\<rbrakk> \<Longrightarrow> loads True sidecar = Inr (JObj side)"
    "jget side ''status_counts'' = counts_json counts" "jget side ''candidate_sha256'' = JStr (sha out)"
    "jget side ''candidate_size_bytes'' = JInt (int (length out))"
    "jget side ''before'' = JObj (dmerge before_source (stats_json before_stats))"
    "jget side ''after'' = JObj (dmerge after_source (stats_json after_stats))"
    "jget side ''changes_only'' = JBool (ca_changes_only args)"
proof -
  let ?start = "[(u ''schema'', JStr (u ''moonfort.coverage-review.v1'')),
            (u ''before'', JObj (dmerge before_source (stats_json before_stats))),
            (u ''after'', JObj (dmerge after_source (stats_json after_stats))),
            (u ''status_counts'', counts_json counts), (u ''row_count'', JInt (int (length rows))),
            (u ''changes_only'', JBool (ca_changes_only args)), (u ''meaning'', JStr coverage_meaning)]"
  let ?document = "dmerge ?start [(u ''rows'', JArr (map coverage_row_json rows))]"
  let ?side = "dmerge ?start [(u ''candidate_sha256'', JStr (sha out)), (u ''candidate_size_bytes'', JInt (int (length out)))]"
  have body: "coverage_body zip_open before_file after_file args = Inr (out, sidecar)"
    using run by (auto simp: coverage_main_def run_command_def split: sum.splits if_splits)
  have out: "utf8_encode (if ca_csv args then csv_output rows else pretty (JObj ?document)) = Inr out" "length out \<le> MAX_OUTPUT"
    and sidecar: "sidecar = pretty (JObj ?side)"
    using body unfolding coverage_body_def bundles reports rows rbind_simps prod.case Let_def rbind_eq_Inr guard_eq_Inr by blast+
  note counts = compare_counts [OF reports rows]
  have csv: "csv_rows_read out = Inr (map row_content rows)" if "ca_csv args"
    using csv_rows_read [of rows out] out(1) that compare_rows_printable [OF reports, of _ "ca_changes_only args"] rows
    by (simp add: list_all_iff)
  have valid: "jvalid False (JObj ?start)" if "jfinite (JObj before_source)" "jfinite (JObj after_source)"
    using stats_valid [OF reports(1) source_read [OF bundles(1)] that(1)] stats_valid [OF reports(2) source_read [OF bundles(2)] that(2)]
      valid_counts [OF counts(1)] counts(2,3)
    by (simp add: small_printable del: jvalid.simps(5)) (simp add: small_printable)
  have document: "decode out = Inr (JObj ?document)" if "jfinite (JObj before_source)" "jfinite (JObj after_source)" "\<not> ca_csv args"
    using out(1) that(3) valid_dmerge [OF valid [OF that(1,2)], of "[(u ''rows'', JArr (map coverage_row_json rows))]"]
      coverage_rows_valid [OF reports rows] by (auto intro!: written_document)
  have side: "loads True sidecar = Inr (JObj ?side)" if "jfinite (JObj before_source)" "jfinite (JObj after_source)"
    unfolding sidecar using valid_dmerge [OF valid [OF that]] out(2)
    by (intro pretty_text.roundtrip) (simp add: MAX_OUTPUT_def small_printable)
  show thesis by (rule that [OF _ csv document _ _ _ _ side]) (use out(1) in \<open>simp_all add: jget_def dget_dmerge\<close>)
qed

text \<open>C5: what the coverage command writes is the comparison of the two selected reports: whenever it succeeds, both
  files are review bundles whose selected artifacts are accepted reports, and reading its output back
  gives exactly the rows of their comparison, from the CSV with both JSON cells, and from the JSON
  together with the status counts; the sidecar names the digest and the size of these very bytes.
  (The JSON parts are about bundles whose manifests hold no number beyond the range of a double.)\<close>

theorem coverage_report_exact:
  assumes "coverage_main zip_open before_file after_file args = Done out sidecar"
  shows "\<exists>before_bytes before_source after_bytes after_source before bs after as rows counts document side.
    read_bundle zip_open before_file (ca_report args) (u ''LCOV'') = Inr (before_bytes, before_source) \<and>
    read_bundle zip_open after_file (after_report args) (u ''LCOV'') = Inr (after_bytes, after_source) \<and>
    lcov before_bytes = Inr (before, bs) \<and> lcov after_bytes = Inr (after, as) \<and>
    compare before after (ca_changes_only args) = (rows, counts) \<and>
    (ca_csv args \<longrightarrow> csv_rows_read out = Inr (map row_content rows)) \<and>
    (jfinite (JObj before_source) \<and> jfinite (JObj after_source) \<longrightarrow>
      (\<not> ca_csv args \<longrightarrow> decode out = Inr (JObj document) \<and> jget document ''rows'' = JArr (map coverage_row_json rows) \<and>
         jget document ''status_counts'' = counts_json counts) \<and>
      loads True sidecar = Inr (JObj side) \<and> jget side ''status_counts'' = counts_json counts \<and>
      jget side ''candidate_sha256'' = JStr (sha out) \<and> jget side ''candidate_size_bytes'' = JInt (int (length out)))"
proof -
  from assms show ?thesis
  proof (rule coverage_main_Done)
    fix before_bytes before_source after_bytes after_source before bs after as rows counts
    assume bundles: "read_bundle zip_open before_file (ca_report args) (u ''LCOV'') = Inr (before_bytes, before_source)"
        "read_bundle zip_open after_file (after_report args) (u ''LCOV'') = Inr (after_bytes, after_source)"
      and reports: "lcov before_bytes = Inr (before, bs)" "lcov after_bytes = Inr (after, as)"
      and rows: "compare before after (ca_changes_only args) = (rows, counts)"
    from coverage_result [OF assms bundles reports rows] show ?thesis using bundles reports rows by metis
  qed
qed

text \<open>Two copies of one report, changes only: the CSV has its header and no row.\<close>

definition sample_args :: coverage_args where
  "sample_args = \<lparr>ca_report = u ''results/a'', ca_after_report = None, ca_changes_only = True, ca_csv = True\<rparr>"

lemma sample_unchanged: "k \<in> set (dkeys sample_groups) \<Longrightarrow> unchanged (compare_row sample_groups sample_groups k)"
  by (auto simp: sample_groups_def compare_row_def Let_def aggregate_def comparison_def transition_def unchanged_def u_def checksums_def missing_def covered_def)

theorem coverage_report_exact_witness:
  "\<exists>out sidecar. coverage_main (\<lambda>_. Inr (make_bundle [(u ''results/a'', utf8_bytes sample_report)])) (Inr []) (Inr []) sample_args = Done out sidecar \<and>
     csv_rows_read out = Inr []"
proof -
  let ?zip = "\<lambda>_. Inr (make_bundle [(u ''results/a'', utf8_bytes sample_report)])"
  have "length (utf8_bytes sample_report) \<le> 1000"
    using utf8_bytes_length [of sample_report] by (simp add: sample_report_def)
  from one_file_read [OF this] obtain source where
    stored: "read_bundle ?zip (Inr []) (u ''results/a'') (u ''LCOV'') = Inr (utf8_bytes sample_report, source)" by blast
  obtain counts where rows: "compare sample_groups sample_groups True = ([], counts)"
    by (simp add: compare_eq Let_def filter_empty_conv sample_unchanged)
  have "list_all is_scalar (csv_output [])" "length (csv_output []) \<le> 1000"
    by (simp_all add: csv_output_def csv_text_def coverage_csv_header_def) (simp_all add: csv_row_def csv_field_def u_def is_scalar_def)
  then have enc: "utf8_encode (csv_output []) = Inr (utf8_bytes (csv_output []))" "length (utf8_bytes (csv_output [])) \<le> MAX_OUTPUT"
    using utf8_bytes_length [of "csv_output []"] by (simp_all add: utf8_encode_def MAX_OUTPUT_def)
  obtain sidecar where run: "coverage_main ?zip (Inr []) (Inr []) sample_args = Done (utf8_bytes (csv_output [])) sidecar"
    by (simp add: coverage_main_def run_command_def coverage_body_def sample_args_def after_report_def stored sample_lcov rows enc Let_def)
  from coverage_report_exact [OF run] rows show ?thesis using run
    by (auto simp: sample_args_def after_report_def stored sample_lcov)
qed

end
