(* ===== verification/CoverageDelivers.thy ===== *)
theory CoverageDelivers
  imports CoverageReport
begin

section \<open>Small coverage reviews always succeed\<close>

text \<open>
  The coverage command refuses an output of more than 16 MiB. How large the output is depends on the texts and
  the number of observations of the two reports; for small ones the lemmas bound the documents and show that
  nothing is left to refuse once the bundles and the reports are accepted.
\<close>

subsection \<open>Small reports\<close>

definition small_text :: "ustr \<Rightarrow> bool" where
  "small_text s \<longleftrightarrow> length s \<le> 50 \<and> list_all is_scalar s"

definition small_observation :: "observation \<Rightarrow> bool" where
  "small_observation row \<longleftrightarrow> small_text (ob_test_name row) \<and> (case ob_checksum row of None \<Rightarrow> True | Some c \<Rightarrow> small_text c) \<and>
     ob_record row < 10 ^ 10 \<and> ob_report_line row < 10 ^ 10 \<and> 0 \<le> ob_hits row \<and> ob_hits row < 10 ^ 10"

definition small_groups :: "coverage_groups \<Rightarrow> bool" where
  "small_groups groups \<longleftrightarrow> length groups \<le> 30 \<and> list_all (\<lambda>((path, line), rows). small_text path \<and> 0 \<le> line \<and> line < 10 ^ 10 \<and>
     length rows \<le> 5 \<and> list_all small_observation rows) groups"

lemma observation_size: "small_observation row \<Longrightarrow> iweight 5 (observation_json row) \<le> 1900 \<and> jscalar (observation_json row)"
  using str_int_size [of "int (ob_record row)"] str_int_size [of "int (ob_report_line row)"] str_int_size [of "ob_hits row"]
  by (auto simp: small_observation_def observation_json_def checksum_json_def small_text_def split: option.splits)

lemma aggregate_size:
  assumes "length rows \<le> 5" "list_all small_observation rows"
  shows "iweight 3 (aggregate_json (aggregate (Some rows))) \<le> 14000 \<and> jscalar (aggregate_json (aggregate (Some rows)))"
proof -
  let ?checksums = "sort (remdups (List.map_filter ob_checksum rows))"
  have checksum: "small_text c" if "c \<in> set ?checksums" for c
    using that assms(2) by (fastforce simp: set_map_filter list_all_iff small_observation_def)
  have "length ?checksums \<le> length rows"
    using length_remdups_leq [of "List.map_filter ob_checksum rows"] by (simp add: List.map_filter_def le_trans)
  then have len: "length ?checksums \<le> 5" using assms(1) by simp
  have hits: "0 \<le> ob_hits row \<and> ob_hits row \<le> 10 ^ 10" if "row \<in> set rows" for row
    using that assms(2) by (auto simp: list_all_iff small_observation_def)
  have "0 \<le> sum_list (map ob_hits rows)" using hits by (intro sum_list_nonneg) force
  moreover have "sum_list (map ob_hits rows) \<le> sum_list (map (\<lambda>_. 10 ^ 10) rows)" using hits by (intro sum_list_mono) blast
  moreover have "sum_list (map (\<lambda>_. 10 ^ 10) rows) \<le> (5 * 10 ^ 10 :: int)" using assms(1) by (simp add: sum_list_triv)
  ultimately have sum: "length (str_int (sum_list (map ob_hits rows))) \<le> 12"
    using length_str_nat [of 12 "nat (sum_list (map ob_hits rows))"] by (simp add: str_int_def)
  have missing: "length (str_int (int (length (filter (\<lambda>row. ob_checksum row = None) rows)))) \<le> 10"
    using order_trans [OF length_filter_le assms(1)] by (intro str_int_size) (simp_all add: order_le_less_trans [of _ 5])
  have "sum_list (map (\<lambda>v. iweight 5 v + 2 * 4 + 4) (map JStr ?checksums)) \<le> 5 * 620"
    unfolding map_map comp_def
  proof (rule sum_list_le [OF _ len])
    fix c assume "c \<in> set ?checksums"
    then show "iweight 5 (JStr c) + 2 * 4 + 4 \<le> 620" using checksum [of c] by (simp add: small_text_def)
  qed
  moreover have "sum_list (map (\<lambda>v. iweight 5 v + 2 * 4 + 4) (map observation_json rows)) \<le> 5 * 1912"
    unfolding map_map comp_def using observation_size assms by (intro sum_list_le) (auto simp: list_all_iff)
  moreover have "list_all jscalar (map JStr ?checksums)" "list_all jscalar (map observation_json rows)"
    using checksum observation_size assms(2) by (auto simp: list_all_iff small_text_def)
  ultimately show ?thesis using sum missing by (simp add: aggregate_json_def aggregate_def)
qed

lemma status_size:
  "length (fst (comparison old new)) \<le> 30 \<and> length (snd (comparison old new)) \<le> 30 \<and>
   list_all is_scalar (fst (comparison old new)) \<and> list_all is_scalar (snd (comparison old new))"
  by (simp add: comparison_def transition_def Let_def)

lemma side_size:
  assumes "small_groups groups"
  shows "iweight 3 (aggregate_json (aggregate (dget groups key))) \<le> 14000 \<and> jscalar (aggregate_json (aggregate (dget groups key)))"
proof (cases "dget groups key")
  case None
  then show ?thesis by (simp add: aggregate_def aggregate_json_def)
next
  case (Some rows)
  then have "(key, rows) \<in> set groups" by (rule map_of_SomeD)
  with assms have "length rows \<le> 5" "list_all small_observation rows" by (auto simp: small_groups_def list_all_iff)
  with Some aggregate_size show ?thesis by simp
qed

definition small_key :: "coordinate \<Rightarrow> bool" where
  "small_key key \<longleftrightarrow> small_text (fst key) \<and> 0 \<le> snd key \<and> snd key < 10 ^ 10"

lemma row_size:
  assumes "small_groups before" "small_groups after" "small_key key"
  shows "iweight 2 (coverage_row_json (compare_row before after key)) \<le> 31000 \<and> jscalar (coverage_row_json (compare_row before after key))"
  using side_size [OF assms(1), of key] side_size [OF assms(2), of key] str_int_size [of "snd key"] assms(3)
    status_size [of "aggregate (dget before key)" "aggregate (dget after key)"]
  by (simp add: coverage_row_json_def compare_row_def Let_def small_key_def small_text_def)

lemma compare_keys: "key \<in> set (sorted_union (dkeys before) (dkeys after)) \<Longrightarrow> small_groups before \<Longrightarrow> small_groups after \<Longrightarrow> small_key key"
  by (auto simp: small_groups_def small_key_def dkeys_def list_all_iff)

lemma tally_length: "length (tally ks) \<le> length ks"
proof -
  have "length (foldl (\<lambda>d k. bump k d) d ks) \<le> length d + length ks" for d :: "('a, nat) dict"
  proof (induction ks arbitrary: d)
    case (Cons k ks)
    have "length (dput k v d) \<le> Suc (length d)" for v by (induction d) auto
    then have "length (bump k d) \<le> Suc (length d)" by (simp add: bump_def)
    with Cons.IH [of "bump k d"] show ?case by simp
  qed simp
  then show ?thesis by (simp add: tally_def) (metis add_0 list.size(3))
qed

lemma compare_small:
  assumes "small_groups before" "small_groups after" "compare before after changes_only = (rows, counts)"
  shows "length rows \<le> 60" "row \<in> set rows \<Longrightarrow> iweight 2 (coverage_row_json row) \<le> 31000 \<and> jscalar (coverage_row_json row)"
    "length counts \<le> 60" "list_all (\<lambda>(status, n). length status \<le> 30 \<and> list_all is_scalar status \<and> n \<le> 60) counts"
proof -
  let ?keys = "sorted_union (dkeys before) (dkeys after)"
  have rows: "rows = filter (\<lambda>row. \<not> changes_only \<or> \<not> unchanged row) (map (compare_row before after) ?keys)"
    and counts: "counts = tally (map cr_status (map (compare_row before after) ?keys))"
    using assms(3) by (simp_all add: compare_eq Let_def)
  have "length (dkeys before) \<le> 30" "length (dkeys after) \<le> 30" using assms(1,2) by (simp_all add: small_groups_def dkeys_def)
  then have keys: "length ?keys \<le> 60"
    using length_remdups_leq [of "dkeys before @ dkeys after"] by (simp add: sorted_union_def)
  then show "length rows \<le> 60" unfolding rows by (metis length_filter_le length_map order_trans)
  show "iweight 2 (coverage_row_json row) \<le> 31000 \<and> jscalar (coverage_row_json row)" if "row \<in> set rows"
    using that row_size [OF assms(1,2)] compare_keys [OF _ assms(1,2)] by (auto simp: rows)
  show "length counts \<le> 60" using keys tally_length [of "map cr_status (map (compare_row before after) ?keys)"] by (simp add: counts)
  show "list_all (\<lambda>(status, n). length status \<le> 30 \<and> list_all is_scalar status \<and> n \<le> 60) counts"
    unfolding list_all_iff counts
  proof clarify
    let ?statuses = "map cr_status (map (compare_row before after) ?keys)"
    fix status n assume "(status, n) \<in> set (tally ?statuses)"
    then have "dget (tally ?statuses) status = Some n" using dict_ok_tally [of ?statuses] by (simp add: dict_ok_def dkeys_def)
    then have n: "status \<in> set ?statuses" "n = count_list ?statuses status"
      by (simp_all add: dget_tally split: if_splits)
    have "n \<le> 60" using count_le_length [of ?statuses status] keys n(2) by simp
    moreover have "length status \<le> 30" "list_all is_scalar status"
      using n(1) status_size by (auto simp: compare_row_def Let_def)
    ultimately show "length status \<le> 30 \<and> Ball (set status) is_scalar \<and> n \<le> 60" by (simp add: list_all_iff)
  qed
qed

subsection \<open>A review of small reports is never refused\<close>

lemma dput_size: "sum_list (map f (dput k v d)) \<le> sum_list (map f d) + (f (k, v) :: nat)"
  by (induction d) auto

lemma dmerge_size: "sum_list (map f (dmerge d e)) \<le> sum_list (map f d) + (sum_list (map f e) :: nat)"
proof (induction e arbitrary: d)
  case (Cons m e)
  obtain k v where "m = (k, v)" by (cases m)
  with Cons.IH [of "dput k v d"] dput_size [of f k v d] show ?case by (simp add: dmerge_def)
qed (simp add: dmerge_def)

lemma merged_size: "iweight l (JObj (dmerge d e)) \<le> iweight l (JObj d) + iweight l (JObj e)"
  using dmerge_size [of "\<lambda>(k, v). 12 * length k + iweight (l + 1) v + 2 * l + 8" d e] by simp

lemma merged_scalar: "jscalar (JObj d) \<Longrightarrow> jscalar (JObj e) \<Longrightarrow> jscalar (JObj (dmerge d e))"
proof -
  have "set (dmerge d e) \<subseteq> set d \<union> set e" unfolding dmerge_def by (rule dput_run_members)
  then have "list_all P (dmerge d e)" if "list_all P d" "list_all P e" for P using that unfolding list_all_iff by blast
  then show "jscalar (JObj d) \<Longrightarrow> jscalar (JObj e) \<Longrightarrow> jscalar (JObj (dmerge d e))" by simp
qed

lemma csv_field_size: "length (csv_field s) \<le> 2 * length s + 2 \<and> (list_all is_scalar s \<longrightarrow> list_all is_scalar (csv_field s))"
proof -
  have "length (replace1 34 [34, 34] s) \<le> 2 * length s \<and> (list_all is_scalar s \<longrightarrow> list_all is_scalar (replace1 34 [34, 34] s))"
    by (induction s) (auto simp: is_scalar_def)
  then show ?thesis by (simp add: csv_field_def) (simp add: is_scalar_def)
qed

lemma csv_row_size: "length (csv_row cells) \<le> sum_list (map (\<lambda>f. 2 * length f + 3) cells) + 2"
proof -
  have "sum_list (map (\<lambda>p. length p + length [44 :: nat]) (map csv_field cells)) \<le> sum_list (map (\<lambda>f. 2 * length f + 3) cells)"
    unfolding map_map comp_def using csv_field_size by (intro sum_list_mono) simp
  then show ?thesis using join_length [of "[44]" "map csv_field cells"] by (simp add: csv_row_def)
qed

lemma csv_row_scalar: "list_all (list_all is_scalar) cells \<Longrightarrow> list_all is_scalar (csv_row cells)"
proof -
  assume cells: "list_all (list_all is_scalar) cells"
  then have "list_all text_scalar (map csv_field cells)" using csv_field_size [THEN conjunct2, rule_format] by (auto simp: text_scalar_def list_all_iff [where xs = "map csv_field cells"] list_all_iff [where xs = cells])
  then have "text_scalar (join [44] (map csv_field cells))" by (intro text_scalar_join) (simp_all add: is_scalar_def)
  then show ?thesis by (simp add: csv_row_def text_scalar_def) (simp add: is_scalar_def)
qed

lemma csv_output_small:
  assumes "length rows \<le> 60" "list_all (\<lambda>row. iweight 2 (coverage_row_json row) \<le> 31000 \<and> jscalar (coverage_row_json row) \<and> row_printable row) rows"
  shows "length (csv_output rows) \<le> 4000000" "list_all is_scalar (csv_output rows)"
proof -
  have row: "length (csv_row (coverage_csv_row row)) \<le> 62100 \<and> list_all is_scalar (csv_row (coverage_csv_row row))"
    if "row \<in> set rows" for row
  proof -
    have w: "iweight 2 (coverage_row_json row) \<le> 31000" and "jscalar (coverage_row_json row)" "row_printable row"
      using that assms(2) by (auto simp: list_all_iff)
    then have "list_all (list_all is_scalar) (coverage_csv_row row)"
      using dumps_scalar [of compact_style False] dumps_scalar [of compact_style False "JInt (cr_source_line row)"]
      by (simp add: coverage_csv_row_def coverage_row_json_def row_printable_def compact_style_def style_ok_def text_scalar_def)
    moreover have "sum_list (map (\<lambda>f. 2 * length f + 3) (coverage_csv_row row)) \<le> 2 * iweight 2 (coverage_row_json row) + 18"
      using compact_size [of "aggregate_json (cr_before row)" 3] compact_size [of "aggregate_json (cr_after row)" 3]
      by (simp add: coverage_csv_row_def coverage_row_json_def)
    ultimately show ?thesis using csv_row_size [of "coverage_csv_row row"] csv_row_scalar w by fastforce
  qed
  have "length (csv_row coverage_csv_header) \<le> 1000"
    using csv_row_size [of coverage_csv_header] by (simp add: coverage_csv_header_def)
  moreover have "sum_list (map (length \<circ> (csv_row \<circ> coverage_csv_row)) rows) \<le> 60 * 62100"
    using row assms(1) by (intro sum_list_le) auto
  ultimately show "length (csv_output rows) \<le> 4000000"
    by (simp add: csv_output_def csv_text_def length_concat)
  have "list_all is_scalar (csv_row coverage_csv_header)" by (rule csv_row_scalar) (simp add: coverage_csv_header_def)
  then show "list_all is_scalar (csv_output rows)" using row by (auto simp: csv_output_def csv_text_def list_all_iff)
qed

definition small_source :: "(ustr \<times> json) list \<Rightarrow> bool" where
  "small_source source \<longleftrightarrow> iweight 1 (JObj source) \<le> 100000 \<and> jvalid False (JObj source) \<and> jscalar (JObj source)"

lemma stats_small:
  assumes "lcov data = Inr (groups, stats)" "small_source source"
  shows "iweight 1 (JObj (dmerge source (stats_json stats))) \<le> 101000" "jscalar (JObj (dmerge source (stats_json stats)))"
    "jvalid False (JObj (dmerge source (stats_json stats)))"
proof -
  note limits = lcov_limits [OF assms(1)]
  have bounds: "st_record_count stats \<le> 1000" "st_line_observation_count stats \<le> 10000" "st_coordinate_count stats \<le> 10000"
    using limits report_size [OF assms(1)] by linarith+
  then have "length (str_int (int (st_record_count stats))) \<le> 10" "length (str_int (int (st_line_observation_count stats))) \<le> 10"
    "length (str_int (int (st_coordinate_count stats))) \<le> 10" by (auto intro!: str_int_size)
  then have "iweight 1 (JObj (stats_json stats)) \<le> 1000" "jscalar (JObj (stats_json stats))" by (simp_all add: stats_json_def)
  then show "iweight 1 (JObj (dmerge source (stats_json stats))) \<le> 101000" "jscalar (JObj (dmerge source (stats_json stats)))"
    using merged_size [of 1 source "stats_json stats"] merged_scalar [of source "stats_json stats"] assms(2) [unfolded small_source_def]
    by (linarith, blast)
  have "list_all (\<lambda>(k, v). jvalid False v) (stats_json stats)" using bounds by (simp add: stats_json_def small_printable)
  with assms(2) show "jvalid False (JObj (dmerge source (stats_json stats)))" by (intro valid_dmerge) (simp_all only: small_source_def)
qed

lemma counts_small:
  assumes "length counts \<le> 60" "list_all (\<lambda>(status, n). length status \<le> 30 \<and> list_all is_scalar status \<and> n \<le> 60) counts"
  shows "iweight 1 (counts_json counts) \<le> 30000" "jscalar (counts_json counts)"
proof -
  have each: "12 * length status + iweight 2 (JInt (int n)) + 2 * 1 + 8 \<le> 400" if "(status, n) \<in> set counts" for status n
    using assms(2) that str_int_size [of "int n"] by (fastforce simp: list_all_iff)
  have "sum_list (map ((\<lambda>(k, v). 12 * length k + iweight 2 v + 2 * 1 + 8) \<circ> (\<lambda>(k, n). (k, JInt (int n)))) counts) \<le> 60 * 400"
    using each assms(1) by (intro sum_list_le) auto
  then show "iweight 1 (counts_json counts) \<le> 30000" by (simp add: counts_json_def numeral_2_eq_2)
  show "jscalar (counts_json counts)" using assms(2) by (auto simp: counts_json_def list_all_iff)
qed

lemma small_review_done:
  assumes bundles: "read_bundle zip_open before_file (ca_report args) (u ''LCOV'') = Inr (before_bytes, before_source)"
      "read_bundle zip_open after_file (after_report args) (u ''LCOV'') = Inr (after_bytes, after_source)"
    and reports: "lcov before_bytes = Inr (before, before_stats)" "lcov after_bytes = Inr (after, after_stats)"
    and small: "small_groups before" "small_groups after" "small_source before_source" "small_source after_source"
  shows "\<exists>out sidecar. coverage_main zip_open before_file after_file args = Done out sidecar"
proof -
  obtain rows counts where rows: "compare before after (ca_changes_only args) = (rows, counts)" by fastforce
  note sizes = compare_small [OF small(1,2) rows] and counts = compare_counts [OF reports rows]
  define b where "b = JObj (dmerge before_source (stats_json before_stats))"
  define a where "a = JObj (dmerge after_source (stats_json after_stats))"
  have sides: "iweight 1 b \<le> 101000" "jscalar b" "jvalid False b" "iweight 1 a \<le> 101000" "jscalar a" "jvalid False a"
    unfolding a_def b_def by (fact stats_small [OF reports(1) small(3)] stats_small [OF reports(2) small(4)])+
  let ?start = "[(u ''schema'', JStr (u ''moonfort.coverage-review.v1'')), (u ''before'', b), (u ''after'', a), (u ''status_counts'', counts_json counts),
      (u ''row_count'', JInt (int (length rows))), (u ''changes_only'', JBool (ca_changes_only args)), (u ''meaning'', JStr coverage_meaning)]"
  let ?rows = "JArr (map coverage_row_json rows)"
  let ?json = "JObj (dmerge ?start [(u ''rows'', ?rows)])"
  let ?text = "if ca_csv args then csv_output rows else pretty ?json"
  have printable: "list_all row_printable rows"
    using compare_rows_printable [OF reports, of _ "ca_changes_only args"] rows by (simp add: list_all_iff)
  have "length (csv_output rows) \<le> 4000000" "list_all is_scalar (csv_output rows)"
    using csv_output_small [OF sizes(1)] sizes(2) printable by (auto simp: list_all_iff)
  moreover have "length (pretty ?json) \<le> 4000000"
  proof -
    have "length (str_int (int (length rows))) \<le> 10" using sizes(1) by (intro str_int_size) simp_all
    then have "iweight 0 (JObj ?start) \<le> 300000"
      using sides(1,4) counts_small(1) [OF sizes(3,4)] by (simp add: coverage_meaning_def)
    moreover have "sum_list (map (\<lambda>v. iweight 2 v + 2 * 1 + 4) (map coverage_row_json rows)) \<le> 60 * 31006"
      unfolding map_map comp_def using sizes(1,2) by (intro sum_list_le) auto
    then have "iweight 0 (JObj [(u ''rows'', ?rows)]) \<le> 2000000" by (simp add: numeral_2_eq_2)
    ultimately have "iweight 0 ?json \<le> 2300000" using merged_size [of 0 ?start "[(u ''rows'', ?rows)]"] by linarith
    then show ?thesis using indent_size [of 0 ?json] by (simp add: pretty_def del: iweight.simps)
  qed
  moreover have "text_scalar (pretty ?json)"
  proof -
    have "jscalar (JObj ?start)" using sides counts_small(2) [OF sizes(3,4)] by (simp add: coverage_meaning_def)
    moreover have "list_all (jscalar \<circ> coverage_row_json) rows" using sizes(2) by (auto simp: list_all_iff)
    then have "jscalar (JObj [(u ''rows'', ?rows)])" by (simp add: list.pred_map)
    ultimately have "jscalar ?json" by (rule merged_scalar)
    moreover have "jvalid False ?json"
    proof (rule valid_dmerge)
      show "jvalid False (JObj ?start)"
        using sides valid_counts [OF counts(1)] counts(2,3) by (simp add: small_printable)
    qed (use coverage_rows_valid [OF reports rows] in simp)
    ultimately have "text_scalar (dumps_indent 0 ?json)" by (intro dumps_indent_scalar)
    then show ?thesis by (simp add: pretty_def) (simp add: is_scalar_def)
  qed
  ultimately have "length ?text \<le> 4000000 \<and> list_all is_scalar ?text" by (simp add: text_scalar_def)
  then have enc: "utf8_encode ?text = Inr (utf8_bytes ?text)" "length (utf8_bytes ?text) \<le> MAX_OUTPUT"
    using utf8_bytes_length [of ?text] by (simp_all add: utf8_encode_def MAX_OUTPUT_def del: if_split)
  show ?thesis
    by (simp add: coverage_main_def run_command_def coverage_body_def bundles reports rows enc [unfolded a_def b_def] Let_def)
qed

end
