(* ===== verification/CoverageScenarios.thy ===== *)
theory CoverageScenarios
  imports CoverageDelivers
begin

section \<open>The tests of the coverage command (scripts/test-coverage-review.py)\<close>

text \<open>
  The repository's own tests of the coverage command as theorems about the model: the fixture writer, the
  reports, the assertions of the test methods as predicates of what the command leaves, and for every
  method the theorem that the command satisfies them. The archives are read by any reader that gives
  back what was written; the process around the command is its function.
\<close>

subsection \<open>Fixtures\<close>

definition fixture_manifest :: "ustr \<Rightarrow> (ustr \<times> bytes) list \<Rightarrow> (ustr \<times> json) list" where
  "fixture_manifest retention files =
     [(u ''format_version'', JInt 1), (u ''purpose'', JStr (u ''Review copy only; not approval or promotion'')),
      (u ''binding'', receipt retention (u ''workspace-demo'')), (u ''expires_at_ms'', JStr (u ''1'')),
      (u ''files'', JArr (map manifest_entry files)), (u ''total_bytes'', JStr (str_nat (total_size files)))]"

definition fixture_text :: "(ustr \<times> json) list \<Rightarrow> bytes" where
  "fixture_text manifest = utf8_bytes (compact (JObj manifest) @ [10])"

definition fixture_files :: "ustr \<Rightarrow> bytes \<Rightarrow> (ustr \<times> bytes) list" where
  "fixture_files report data = [(report, data), (u ''reports/details.bin'', [0, 255] @ utf8_bytes (u ''retained''))]"

definition fixture ::
  "bytes \<Rightarrow> ustr \<Rightarrow> ustr \<Rightarrow> ((ustr \<times> json) list \<Rightarrow> (ustr \<times> json) list) \<Rightarrow> ustr option \<Rightarrow> zmember list" where
  "fixture data retention report mutate extra =
     (let files = fixture_files report data
      in stored_archive (fixture_text (mutate (fixture_manifest retention files))) files @
         (case extra of None \<Rightarrow> [] | Some name \<Rightarrow> [stored_member name (utf8_bytes (u ''extra''))]))"

lemma demo_identity: "identity_ok (u ''workspace-demo'')" "identity_ok (u ''before'')" "identity_ok (u ''after'')"
  by (simp_all add: identity_ok_def strip_eq_Nil) (simp_all add: u_def is_space_def)

lemma fixture_writer:
  assumes "identity_ok retention"
  shows "manifest_writer (fixture_manifest retention) (\<lambda>files. fixture_text (fixture_manifest retention files))"
proof
  fix files assume files: "storable files"
  note ids = assms demo_identity(1)
  show "inventory_of (fixture_manifest retention files) (map manifest_entry files)"
    by (rule lists_files [OF files ids]) (simp_all add: fixture_manifest_def jget_def)
  show "jget (fixture_manifest retention files) ''total_bytes'' = JStr (str_nat (total_size files))"
    by (simp add: fixture_manifest_def jget_def)
  let ?m = "JObj (fixture_manifest retention files)"
  have valid: "jvalid False ?m" "jscalar ?m"
    using files_valid [OF files, of False] receipt_ok(2,3) [OF ids] small_printable [of 1] by (simp_all add: fixture_manifest_def)
  then have "text_scalar (compact ?m)" by (intro dumps_scalar) (simp_all only: compact_style_def, simp_all add: style_ok_def)
  then have "list_all is_scalar (compact ?m @ [10])" by (simp add: text_scalar_def) (simp add: is_scalar_def)
  then have "decode (fixture_text (fixture_manifest retention files)) = loads True (compact ?m @ [10])"
    by (simp add: decode_def fixture_text_def utf8.roundtrip)
  also have "\<dots> = Inr ?m"
    using valid(1) by (intro loads_reads dumps_reads) (simp_all add: compact_style_def style_ok_def is_ws_def)
  finally show "decode (fixture_text (fixture_manifest retention files)) = Inr ?m" .
qed

interpretation coverage_fixture: manifest_writer "fixture_manifest (u ''before'')" "\<lambda>files. fixture_text (fixture_manifest (u ''before'') files)"
  by (rule fixture_writer) (rule demo_identity)

lemma fixture_read:
  assumes retention: "identity_ok retention" "length retention \<le> 50"
    and report: "safe_path report" "length report \<le> 50" "report \<noteq> u ''reports/details.bin''"
    and data: "length data \<le> 1000000"
    and raw: "length raw \<le> MAX_BUNDLE" "zip_open raw = Inr (fixture data retention report (\<lambda>m. m) None)"
  obtains source where "read_bundle zip_open (Inr raw) report label = Inr (data, source)" "small_source source"
    "jget source ''bundle_sha256'' = JStr (sha raw)" "jget source ''binding'' = receipt retention (u ''workspace-demo'')"
    "jget source ''expires_at_ms'' = JStr (u ''1'')" "jget source ''source_file'' = manifest_entry (report, data)"
proof -
  let ?files = "fixture_files report data"
  let ?m = "fixture_manifest retention ?files"
  have "safe_path (u ''reports/details.bin'')"
    by (simp add: safe_path_def utf8_bytes_def) (simp add: u_def utf8_char_def safe_part_def)
  moreover have "length (utf8_bytes (u ''retained'')) \<le> 32" using utf8_bytes_length [of "u ''retained''"] by simp
  ultimately have files: "storable ?files" and total: "total_size ?files < 10 ^ 10"
    using report data by (simp_all add: storable_def fixture_files_def total_size_def)
  then have sizes: "length (str_nat (length d)) \<le> 10" if "d \<in> snd ` set ?files" for d
    using total_size_member [of _ ?files] that by (intro str_nat_size) fastforce
  have sha: "length (sha d) = 64" for d using re_hex64_sha [of d] by (simp add: re_hex64_def)
  have "length (str_int 1) \<le> 10" by (rule str_int_size) simp_all
  note weights = this sha retention(2) report(2) str_nat_size [OF total]
    sizes [of data, unfolded fixture_files_def, simplified] sizes [of "[0, 255] @ utf8_bytes (u ''retained'')", unfolded fixture_files_def, simplified]
  have "jweight (JObj ?m) \<le> 20000" using weights
    by (simp add: fixture_manifest_def receipt_def fixture_files_def manifest_entry_def)
  then have len: "length (fixture_text ?m) \<le> MAX_REPORT"
    using utf8_bytes_length [of "compact (JObj ?m) @ [10]"] dumps_size [of compact_style "JObj ?m"]
    by (simp add: fixture_text_def MAX_REPORT_def compact_style_def del: dumps.simps jweight.simps)
  let ?source = "bundle_context raw (fixture_text ?m) ?m (manifest_entry (report, data))"
  have "read_bundle zip_open (Inr raw) report label = Inr (data, ?source)"
    using manifest_writer.comes_back [OF fixture_writer [OF retention(1)] files len, of report data raw zip_open label] data raw
    by (simp add: fixture_files_def fixture_def Let_def MAX_REPORT_def)
  moreover have "small_source ?source"
  proof -
    have "jvalid False (manifest_entry (report, data))" "jscalar (manifest_entry (report, data))"
      using entry_valid [of "(report, data)" False] report(1) by simp_all
    moreover have "iweight 2 (manifest_entry (report, data)) \<le> 10000" "iweight 2 (receipt retention (u ''workspace-demo'')) \<le> 10000"
      using weights by (simp_all add: manifest_entry_def receipt_def)
    ultimately show ?thesis using receipt_ok(2,3) [OF retention(1) demo_identity(1)] sha
      by (simp add: small_source_def bundle_context_def fixture_manifest_def jget_def numeral_2_eq_2)
  qed
  ultimately show thesis using that by (simp add: bundle_context_def fixture_manifest_def jget_def)
qed

definition text_lines :: "ustr list \<Rightarrow> ustr" where
  "text_lines ls = concat (map (\<lambda>l. l @ [10]) ls)"

definition text_crlf :: "ustr list \<Rightarrow> ustr" where
  "text_crlf ls = concat (map (\<lambda>l. l @ [13, 10]) ls)"

definition before_lines :: "ustr list" where
  "before_lines =
     [u ''TN:unit'', u ''SF:src/total.mbt'', u ''DA:1,2,a'', u ''DA:2,0,b'', u ''DA:3,1,c'', u ''DA:4,0,d'', u ''LF:4'', u ''LH:2'',
      u ''end_of_record'', u ''TN:integration'', u ''SF:src/total.mbt'', u ''DA:2,4,b'', u ''end_of_record'',
      u ''SF:src/old.mbt'', u ''DA:1,0'', u ''end_of_record'']"

definition after_lines :: "ustr list" where
  "after_lines =
     [u ''TN:unit'', u ''SF:src/total.mbt'', u ''DA:1,0,a'', u ''DA:2,0,b'', u ''DA:3,2,c'', u ''DA:4,3,d'', u ''DA:5,0,e'', u ''LF:5'', u ''LH:2'',
      u ''end_of_record'', u ''TN:integration'', u ''SF:src/total.mbt'', u ''DA:2,0,b'', u ''end_of_record'',
      u ''SF:src/new'' @ [26376] @ u ''.mbt'', u ''DA:1,1'', u ''end_of_record'']"

definition BEFORE :: ustr where "BEFORE = text_lines before_lines"
definition AFTER :: ustr where "AFTER = text_lines after_lines"

subsection \<open>Reading the reports\<close>

lemmas run_line = lcov_line_def lcov_test_def lcov_source_def lcov_data_def lcov_observe_def lcov_counter_def
  lcov_end_def counter_agrees_def file_row_def dappend_def dhas_def py_int_def digits_value_def
  re_digits_def is_digit_def Let_def

definition report_run :: "ustr list \<Rightarrow> lcov_state res" where
  "report_run ls = fold_res lcov_line lcov_start (List.enumerate 1 ls)"

definition plain_line :: "ustr \<Rightarrow> bool" where
  "plain_line l \<longleftrightarrow> list_all (\<lambda>c. is_scalar c \<and> c \<noteq> 0 \<and> c \<noteq> 10 \<and> c \<noteq> 13) l \<and> length l \<le> 1000"

lemma lcov_report:
  assumes "list_all is_scalar s" "0 \<notin> set s" "13 \<notin> set (replace_crlf [] s)" "lcov_lines s = ls" "length s \<le> 200000"
  shows "lcov (utf8_bytes s) = rbind (report_run ls) (\<lambda>st.
    guard (ls_current st = None \<and> \<not> ls_pending_test st \<and> 0 < ls_records st) (u ''incomplete or empty LCOV report'')
      (Inr (ls_groups st, \<lparr>st_record_count = ls_records st, st_line_observation_count = ls_count st,
          st_coordinate_count = length (ls_groups st)\<rparr>)))"
proof -
  have "length (utf8_bytes s) \<le> MAX_REPORT" using utf8_bytes_length [of s] assms(5) by (simp add: MAX_REPORT_def)
  then show ?thesis using assms(2-4) by (simp add: lcov_def utf8.roundtrip [OF assms(1)] report_run_def)
qed

lemma crlf_text:
  assumes "list_all plain_line ls"
  shows "replace_crlf [10] (text_crlf ls) = text_lines ls" "13 \<notin> set (replace_crlf [] (text_crlf ls))"
    "replace_crlf r (text_lines ls) = text_lines ls"
proof -
  have step: "replace_crlf r (l @ 13 # 10 # s) = l @ r @ replace_crlf r s" if "13 \<notin> set l" for r l s
    using that by (induction r l rule: replace_crlf.induct) auto
  have clean: "13 \<notin> set l" if "l \<in> set ls" for l using assms that by (auto simp: plain_line_def list_all_iff)
  then show "replace_crlf [10] (text_crlf ls) = text_lines ls" by (induction ls) (auto simp: text_crlf_def text_lines_def step)
  have "set (replace_crlf [] (text_crlf ls)) \<subseteq> \<Union> (set ` set ls)" using clean by (induction ls) (auto simp: text_crlf_def step)
  then show "13 \<notin> set (replace_crlf [] (text_crlf ls))" using clean by auto
  have same: "replace_crlf r s = s" if "13 \<notin> set s" for r s using that by (induction r s rule: replace_crlf.induct) auto
  have "13 \<notin> set (text_lines ls)" using clean by (auto simp: text_lines_def)
  then show "replace_crlf r (text_lines ls) = text_lines ls" by (rule same)
qed

lemma report_texts:
  assumes "list_all plain_line ls"
  shows "list_all is_scalar (text_lines ls)" "list_all is_scalar (text_crlf ls)" "0 \<notin> set (text_lines ls)" "0 \<notin> set (text_crlf ls)"
    "lcov_lines (text_lines ls) = ls" "lcov_lines (text_crlf ls) = ls"
proof -
  have chars: "is_scalar c \<and> c \<noteq> 0" if "l \<in> set ls" "c \<in> set l" for l c
    using assms that by (auto simp: plain_line_def list_all_iff)
  have ends: "is_scalar 10" "is_scalar 13" by (simp_all add: is_scalar_def)
  show "list_all is_scalar (text_lines ls)" "list_all is_scalar (text_crlf ls)"
    using chars ends by (auto simp: text_lines_def text_crlf_def list_all_iff)
  show "0 \<notin> set (text_lines ls)" "0 \<notin> set (text_crlf ls)"
    by (auto simp: text_lines_def text_crlf_def dest: chars)
  have "split_on 10 (l @ 10 # s) = l # split_on 10 s" if "10 \<notin> set l" for l s :: ustr
    using that by (induction l) auto
  then have "split_on 10 (text_lines ls) = ls @ [[]]"
    using assms by (induction ls) (auto simp: text_lines_def plain_line_def list_all_iff)
  then show "lcov_lines (text_lines ls) = ls" "lcov_lines (text_crlf ls) = ls"
    using crlf_text [OF assms] by (simp_all add: lcov_lines_def)
qed

lemma report_sizes:
  assumes "list_all plain_line ls" "length ls \<le> 100"
  shows "length (text_lines ls) \<le> 200000" "length (text_crlf ls) \<le> 200000"
proof -
  have "sum_list (map (length \<circ> (\<lambda>l. l @ [10])) ls) \<le> 100 * 1002" "sum_list (map (length \<circ> (\<lambda>l. l @ [13, 10])) ls) \<le> 100 * 1002"
    using assms by (intro sum_list_le; auto simp: list_all_iff plain_line_def)+
  then show "length (text_lines ls) \<le> 200000" "length (text_crlf ls) \<le> 200000"
    by (simp_all add: text_lines_def text_crlf_def length_concat)
qed

text \<open>What reading a report of these lines gives, with either kind of line ends.\<close>

definition report_of :: "ustr list \<Rightarrow> (coverage_groups \<times> lcov_stats) res" where
  "report_of ls = rbind (report_run ls) (\<lambda>st.
    guard (ls_current st = None \<and> \<not> ls_pending_test st \<and> 0 < ls_records st) (u ''incomplete or empty LCOV report'')
      (Inr (ls_groups st, \<lparr>st_record_count = ls_records st, st_line_observation_count = ls_count st,
          st_coordinate_count = length (ls_groups st)\<rparr>)))"

lemma lcov_text_lines:
  assumes "list_all plain_line ls" "length ls \<le> 100"
  shows "lcov (utf8_bytes (text_lines ls)) = report_of ls" "lcov (utf8_bytes (text_crlf ls)) = report_of ls"
proof -
  note texts = report_texts [OF assms(1)] report_sizes [OF assms] and crlf = crlf_text [OF assms(1)]
  have "13 \<notin> set (text_lines ls)" using assms(1) by (auto simp: text_lines_def plain_line_def list_all_iff)
  then have "13 \<notin> set (replace_crlf [] (text_lines ls))" by (simp add: crlf(3))
  from lcov_report [OF texts(1,3) this texts(5,7)] show "lcov (utf8_bytes (text_lines ls)) = report_of ls"
    by (simp only: report_of_def)
  from lcov_report [OF texts(2,4) crlf(2) texts(6,8)] show "lcov (utf8_bytes (text_crlf ls)) = report_of ls"
    by (simp only: report_of_def)
qed

definition obs :: "nat \<Rightarrow> nat \<Rightarrow> string \<Rightarrow> int \<Rightarrow> string \<Rightarrow> observation" where
  "obs n line test hits checksum = \<lparr>ob_record = n, ob_report_line = line, ob_test_name = u test, ob_hits = hits,
     ob_checksum = (if checksum = [] then None else Some (u checksum))\<rparr>"

definition before_groups :: coverage_groups where
  "before_groups =
     [((u ''src/total.mbt'', 1), [obs 1 3 ''unit'' 2 ''a'']),
      ((u ''src/total.mbt'', 2), [obs 1 4 ''unit'' 0 ''b'', obs 2 12 ''integration'' 4 ''b'']),
      ((u ''src/total.mbt'', 3), [obs 1 5 ''unit'' 1 ''c'']), ((u ''src/total.mbt'', 4), [obs 1 6 ''unit'' 0 ''d'']),
      ((u ''src/old.mbt'', 1), [obs 3 15 [] 0 []])]"

definition after_groups :: coverage_groups where
  "after_groups =
     [((u ''src/total.mbt'', 1), [obs 1 3 ''unit'' 0 ''a'']),
      ((u ''src/total.mbt'', 2), [obs 1 4 ''unit'' 0 ''b'', obs 2 13 ''integration'' 0 ''b'']),
      ((u ''src/total.mbt'', 3), [obs 1 5 ''unit'' 2 ''c'']), ((u ''src/total.mbt'', 4), [obs 1 6 ''unit'' 3 ''d'']),
      ((u ''src/total.mbt'', 5), [obs 1 7 ''unit'' 0 ''e'']), ((u ''src/new'' @ [26376] @ u ''.mbt'', 1), [obs 3 16 [] 1 []])]"

definition accepted_state :: "nat \<Rightarrow> nat \<Rightarrow> coverage_groups \<Rightarrow> lcov_state" where
  "accepted_state records count groups = \<lparr>ls_current = None, ls_test_name = [], ls_pending_test = False,
     ls_records = records, ls_count = count, ls_groups = groups\<rparr>"

definition stats :: "nat \<Rightarrow> nat \<Rightarrow> coverage_groups \<Rightarrow> lcov_stats" where
  "stats records count groups = \<lparr>st_record_count = records, st_line_observation_count = count, st_coordinate_count = length groups\<rparr>"

lemma accepted_report:
  assumes "report_run ls = Inr (accepted_state records count groups)" "list_all plain_line ls" "length ls \<le> 100" "0 < records"
  shows "lcov (utf8_bytes (text_lines ls)) = Inr (groups, stats records count groups)"
  using assms by (simp add: lcov_text_lines report_of_def accepted_state_def stats_def)

lemma before_report: "lcov (utf8_bytes BEFORE) = Inr (before_groups, stats 3 6 before_groups)"
  unfolding BEFORE_def
proof (rule accepted_report)
  show "report_run before_lines = Inr (accepted_state 3 6 before_groups)"
    by (simp add: before_lines_def report_run_def run_line lcov_start_def u_def accepted_state_def before_groups_def obs_def)
  show "list_all plain_line before_lines" by (simp add: before_lines_def plain_line_def u_def is_scalar_def)
qed (simp_all add: before_lines_def)

lemma after_report: "lcov (utf8_bytes AFTER) = Inr (after_groups, stats 3 7 after_groups)"
  unfolding AFTER_def
proof (rule accepted_report)
  show "report_run after_lines = Inr (accepted_state 3 7 after_groups)"
    by (simp add: after_lines_def report_run_def run_line lcov_start_def u_def accepted_state_def after_groups_def obs_def)
  show "list_all plain_line after_lines" by (simp add: after_lines_def plain_line_def u_def is_scalar_def)
qed (simp_all add: after_lines_def)


lemma sorted_union_eqI: "sorted ks \<Longrightarrow> distinct ks \<Longrightarrow> set ks = set xs \<union> set ys \<Longrightarrow> sorted_union xs ys = ks"
  by (rule sorted_distinct_set_unique) auto

lemma union_keys: "sorted_union (dkeys before_groups) (dkeys after_groups) =
    [(u ''src/new'' @ [26376] @ u ''.mbt'', 1), (u ''src/old.mbt'', 1), (u ''src/total.mbt'', 1), (u ''src/total.mbt'', 2),
     (u ''src/total.mbt'', 3), (u ''src/total.mbt'', 4), (u ''src/total.mbt'', 5)]"
  by (rule sorted_union_eqI) (simp_all add: dkeys_def before_groups_def after_groups_def u_def insert_commute)

subsection \<open>Running the command\<close>

definition field :: "json \<Rightarrow> string \<Rightarrow> json" where
  "field v k = (case v of JObj d \<Rightarrow> jget d k | _ \<Rightarrow> JNull)"

definition items :: "json \<Rightarrow> json list" where
  "items v = (case v of JArr vs \<Rightarrow> vs | _ \<Rightarrow> [])"

text \<open>The method \<open>invoke\<close>: what every successful run is checked for, and what a refused one is.\<close>

definition context_holds :: "bytes \<Rightarrow> bytes \<Rightarrow> bytes \<Rightarrow> (ustr \<times> json) list \<Rightarrow> bool" where
  "context_holds before_raw after_raw out side \<longleftrightarrow>
     jget side ''candidate_sha256'' = JStr (sha out) \<and> jget side ''candidate_size_bytes'' = JInt (int (length out)) \<and>
     field (jget side ''before'') ''bundle_sha256'' = JStr (sha before_raw) \<and>
     field (jget side ''after'') ''bundle_sha256'' = JStr (sha after_raw)"

definition invoked ::
  "(bytes \<Rightarrow> zmember list res) \<Rightarrow> bytes \<Rightarrow> bytes \<Rightarrow> coverage_args \<Rightarrow> (bytes \<times> (ustr \<times> json) list) option" where
  "invoked zip_open before_raw after_raw args =
     (case coverage_main zip_open (Inr before_raw) (Inr after_raw) args of
        Done out sidecar \<Rightarrow>
          (case loads True sidecar of
             Inr (JObj side) \<Rightarrow> if context_holds before_raw after_raw out side then Some (out, side) else None
           | _ \<Rightarrow> None)
      | _ \<Rightarrow> None)"

definition refused :: "(bytes \<Rightarrow> zmember list res) \<Rightarrow> bytes \<Rightarrow> bytes \<Rightarrow> coverage_args \<Rightarrow> bool" where
  "refused zip_open before_raw after_raw args =
     (case coverage_main zip_open (Inr before_raw) (Inr after_raw) args of Refused _ \<Rightarrow> True | _ \<Rightarrow> False)"

definition archives :: "(bytes \<Rightarrow> zmember list res) \<Rightarrow> bytes \<Rightarrow> bytes \<Rightarrow> zmember list \<Rightarrow> zmember list \<Rightarrow> bool" where
  "archives zip_open before_raw after_raw before after \<longleftrightarrow> length before_raw \<le> MAX_BUNDLE \<and> length after_raw \<le> MAX_BUNDLE \<and>
     zip_open before_raw = Inr before \<and> zip_open after_raw = Inr after"

definition INFO :: ustr where "INFO = u ''reports/coverage.info''"

definition plain_fixture :: "ustr \<Rightarrow> string \<Rightarrow> ustr \<Rightarrow> zmember list" where
  "plain_fixture report retention path = fixture (utf8_bytes report) (u retention) path (\<lambda>m. m) None"

definition good_path :: "ustr \<Rightarrow> bool" where
  "good_path p \<longleftrightarrow> safe_path p \<and> length p \<le> 50 \<and> p \<noteq> u ''reports/details.bin''"

lemma INFO_path: "good_path INFO"
  by (simp add: good_path_def INFO_def safe_path_def utf8_bytes_def) (simp add: u_def utf8_char_def safe_part_def)

lemma small_finite: "small_source source \<Longrightarrow> jfinite (JObj source)"
proof -
  have "jvalid a v \<Longrightarrow> jfinite v" for a v by (induction v) (auto simp: list_all_iff)
  then show "small_source source \<Longrightarrow> jfinite (JObj source)" unfolding small_source_def by blast
qed

lemma labels: "''before'' \<in> {''before'', ''after''}" "''after'' \<in> {''before'', ''after''}"
  by simp_all

lemma retention_ok:
  assumes "r \<in> {''before'', ''after''}"
  shows "identity_ok (u r)" "length (u r) \<le> 50"
  using assms demo_identity by auto

lemma fixture_review:
  assumes opens: "archives zip_open before_raw after_raw (plain_fixture before rb (ca_report args)) (plain_fixture after ra (after_report args))"
    and retentions: "rb \<in> {''before'', ''after''}" "ra \<in> {''before'', ''after''}"
    and paths: "good_path (ca_report args)" "good_path (after_report args)"
    and reports: "lcov (utf8_bytes before) = Inr (gb, before_stats)" "lcov (utf8_bytes after) = Inr (ga, after_stats)"
    and small: "small_groups gb" "small_groups ga" "length before \<le> 200000" "length after \<le> 200000"
    and rows: "compare gb ga (ca_changes_only args) = (rows, counts)"
  obtains out result side where "invoked zip_open before_raw after_raw args = Some (out, side)"
    "ca_csv args \<Longrightarrow> utf8_encode (csv_output rows) = Inr out" "\<not> ca_csv args \<Longrightarrow> decode out = Inr (JObj result)"
    "jget result ''rows'' = JArr (map coverage_row_json rows)" "jget side ''status_counts'' = counts_json counts"
    "field (field (jget result ''before'') ''binding'') ''retention_id'' = JStr (u rb)"
    "field (field (jget result ''after'') ''binding'') ''retention_id'' = JStr (u ra)"
    "field (jget result ''before'') ''expires_at_ms'' = JStr (u ''1'')"
    "field (field (jget result ''after'') ''source_file'') ''relative_path'' = JStr (after_report args)"
    "field (jget side ''before'') ''record_count'' = JInt (int (st_record_count before_stats))"
    "jget side ''changes_only'' = JBool (ca_changes_only args)"
proof -
  have bytes: "length (utf8_bytes before) \<le> 1000000" "length (utf8_bytes after) \<le> 1000000"
    using utf8_bytes_length [of before] utf8_bytes_length [of after] small(3,4) by linarith+
  note raw = opens [unfolded archives_def plain_fixture_def]
  obtain bsrc where b: "read_bundle zip_open (Inr before_raw) (ca_report args) (u ''LCOV'') = Inr (utf8_bytes before, bsrc)" "small_source bsrc"
    "jget bsrc ''bundle_sha256'' = JStr (sha before_raw)" "jget bsrc ''binding'' = receipt (u rb) (u ''workspace-demo'')"
    "jget bsrc ''expires_at_ms'' = JStr (u ''1'')"
    using fixture_read [OF retention_ok(1) [OF retentions(1)] retention_ok(2) [OF retentions(1)] _ _ _ bytes(1), of "ca_report args" before_raw zip_open "u ''LCOV''"] raw paths(1)
    by (auto simp: good_path_def)
  obtain asrc where a: "read_bundle zip_open (Inr after_raw) (after_report args) (u ''LCOV'') = Inr (utf8_bytes after, asrc)" "small_source asrc"
    "jget asrc ''bundle_sha256'' = JStr (sha after_raw)" "jget asrc ''binding'' = receipt (u ra) (u ''workspace-demo'')"
    "jget asrc ''source_file'' = manifest_entry (after_report args, utf8_bytes after)"
    using fixture_read [OF retention_ok(1) [OF retentions(2)] retention_ok(2) [OF retentions(2)] _ _ _ bytes(2), of "after_report args" after_raw zip_open "u ''LCOV''"] raw paths(2)
    by (auto simp: good_path_def)
  obtain out sidecar where run: "coverage_main zip_open (Inr before_raw) (Inr after_raw) args = Done out sidecar"
    using small_review_done [OF b(1) a(1) reports small(1,2) b(2) a(2)] by blast
  have fin: "jfinite (JObj bsrc)" "jfinite (JObj asrc)" using a(2) b(2) by (simp_all only: small_finite)
  obtain result side where r: "ca_csv args \<Longrightarrow> utf8_encode (csv_output rows) = Inr out"
      "\<not> ca_csv args \<Longrightarrow> decode out = Inr (JObj result)"
      "jget result ''rows'' = JArr (map coverage_row_json rows)" "loads True sidecar = Inr (JObj side)"
      "jget side ''status_counts'' = counts_json counts"
      "jget side ''candidate_sha256'' = JStr (sha out)" "jget side ''candidate_size_bytes'' = JInt (int (length out))"
      "jget side ''changes_only'' = JBool (ca_changes_only args)"
    and sides: "jget result ''before'' = JObj (dmerge bsrc (stats_json before_stats))" "jget result ''after'' = JObj (dmerge asrc (stats_json after_stats))"
      "jget side ''before'' = JObj (dmerge bsrc (stats_json before_stats))" "jget side ''after'' = JObj (dmerge asrc (stats_json after_stats))"
    using coverage_result [OF run b(1) a(1) reports rows] fin by metis
  have field_merge: "field (JObj (dmerge d (stats_json st))) k = jget d k"
    if "k \<notin> {''record_count'', ''line_observation_count'', ''coordinate_count''}" for d st k
    using that by (simp add: field_def jget_def dget_dmerge stats_json_def)
  show thesis
  proof (rule that [OF _ r(1,2,3,5)])
    show "invoked zip_open before_raw after_raw args = Some (out, side)"
      by (simp add: invoked_def run r context_holds_def sides field_merge a b)
  qed (simp_all add: sides field_merge a b r, simp_all add: field_def receipt_def manifest_entry_def jget_def dget_dmerge stats_json_def)
qed

definition options :: "ustr option \<Rightarrow> bool \<Rightarrow> bool \<Rightarrow> coverage_args" where
  "options after changes csv = \<lparr>ca_report = INFO, ca_after_report = after, ca_changes_only = changes, ca_csv = csv\<rparr>"

text \<open>The plain run: no option, JSON, the same artifact path on both sides.\<close>

lemma json_review:
  assumes opens: "archives zip_open before_raw after_raw (plain_fixture before ''before'' INFO) (plain_fixture after ra INFO)"
    and retention: "ra \<in> {''before'', ''after''}"
    and reports: "lcov (utf8_bytes before) = Inr (gb, before_stats)" "lcov (utf8_bytes after) = Inr (ga, after_stats)"
    and small: "small_groups gb" "small_groups ga" "length before \<le> 200000" "length after \<le> 200000"
    and keys: "sorted_union (dkeys gb) (dkeys ga) = keys"
  obtains out side result where "invoked zip_open before_raw after_raw (options None False False) = Some (out, side)"
    "decode out = Inr (JObj result)" "jget result ''rows'' = JArr (map coverage_row_json (map (compare_row gb ga) keys))"
    "field (field (jget result ''before'') ''binding'') ''retention_id'' = JStr (u ''before'')"
    "field (field (jget result ''after'') ''binding'') ''retention_id'' = JStr (u ra)"
    "field (jget result ''before'') ''expires_at_ms'' = JStr (u ''1'')"
proof -
  let ?args = "options None False False"
  have args: "ca_report ?args = INFO" "after_report ?args = INFO" "\<not> ca_csv ?args" "ca_changes_only ?args = False"
    by (simp_all add: options_def after_report_def)
  obtain counts where rows: "compare gb ga False = (map (compare_row gb ga) keys, counts)"
    by (simp add: compare_eq Let_def keys)
  show thesis
    by (rule fixture_review [of zip_open before_raw after_raw before "''before''" ?args after ra, unfolded args,
          OF opens labels(1) retention INFO_path INFO_path reports small rows]) (rule that; use args(3) in blast)
qed

subsection \<open>The test methods\<close>

text \<open>\<open>rows = {(r['source_path'], r['source_line']): r for r in result['rows']}\<close> and its lookups.\<close>

definition row_at :: "json list \<Rightarrow> ustr \<Rightarrow> int \<Rightarrow> json" where
  "row_at rows path line =
     (case find (\<lambda>r. field r ''source_path'' = JStr path \<and> field r ''source_line'' = JInt line) (rev rows) of
        None \<Rightarrow> JNull | Some r \<Rightarrow> r)"

definition drills_back :: "json \<Rightarrow> string \<Rightarrow> ustr \<Rightarrow> bool" where
  "drills_back row label source \<longleftrightarrow>
     list_all (\<lambda>e. case field e ''report_line'' of
         JInt n \<Rightarrow> starts_with (split_on 10 source ! (nat n - 1)) (u ''DA:'') | _ \<Rightarrow> False)
       (items (field (field row label) ''observations''))"

definition asserts_union :: "(ustr \<times> json) list \<Rightarrow> bool" where
  "asserts_union result \<longleftrightarrow>
     (let rows = items (jget result ''rows''); total = u ''src/total.mbt''; two = row_at rows total 2
      in length (remdups (map (\<lambda>r. (field r ''source_path'', field r ''source_line'')) rows)) = 7 \<and>
         list_all (\<lambda>(line, status). field (row_at rows total line) ''status'' = JStr (u status))
           [(1, ''covered-to-uncovered''), (2, ''covered-to-uncovered''), (3, ''still-covered''),
            (4, ''uncovered-to-covered''), (5, ''added-uncovered'')] \<and>
         field (field two ''before'') ''covered'' = JBool True \<and> field (field two ''before'') ''reported_hits_sum'' = JInt 4 \<and>
         map (\<lambda>e. field e ''test_name'') (items (field (field two ''before'') ''observations'')) =
           [JStr (u ''unit''), JStr (u ''integration'')] \<and>
         field two ''comparison_basis'' = JStr (u ''same-reported-checksum'') \<and>
         field (row_at rows (u ''src/old.mbt'') 1) ''status'' = JStr (u ''removed-uncovered'') \<and>
         field (row_at rows (u ''src/new'' @ [26376] @ u ''.mbt'') 1) ''status'' = JStr (u ''added-covered'') \<and>
         list_all (\<lambda>row. drills_back row ''before'' BEFORE \<and> drills_back row ''after'' AFTER) rows \<and>
         field (field (jget result ''before'') ''binding'') ''retention_id'' = JStr (u ''before'') \<and>
         field (field (jget result ''after'') ''binding'') ''retention_id'' = JStr (u ''after'') \<and>
         field (jget result ''before'') ''expires_at_ms'' = JStr (u ''1''))"

lemmas row_values = coverage_row_json_def compare_row_def aggregate_json_def aggregate_def observation_json_def checksum_json_def
  comparison_def transition_def covered_def checksums_def missing_def obs_def Let_def List.map_filter_simps

lemma union_small: "small_groups before_groups" "small_groups after_groups" "length BEFORE \<le> 200000" "length AFTER \<le> 200000"
proof -
  show "small_groups before_groups" "small_groups after_groups"
    by (simp_all add: small_groups_def before_groups_def after_groups_def obs_def small_observation_def small_text_def) (simp_all add: is_scalar_def)
  show "length BEFORE \<le> 200000" "length AFTER \<le> 200000"
    by (simp_all add: BEFORE_def AFTER_def before_lines_def after_lines_def text_lines_def)
qed

lemma report_split:
  "split_on 10 BEFORE = before_lines @ [[]]" "split_on 10 AFTER = after_lines @ [[]]"
  by (simp_all add: BEFORE_def AFTER_def before_lines_def after_lines_def text_lines_def u_def)

theorem test_complete_union_comparison_and_drillback:
  assumes "archives zip_open before_raw after_raw (plain_fixture BEFORE ''before'' INFO) (plain_fixture AFTER ''after'' INFO)"
  shows "\<exists>out side result. invoked zip_open before_raw after_raw (options None False False) = Some (out, side) \<and>
    decode out = Inr (JObj result) \<and> asserts_union result"
proof -
  obtain out side result where r: "invoked zip_open before_raw after_raw (options None False False) = Some (out, side)" "decode out = Inr (JObj result)"
      and rows: "jget result ''rows'' = JArr (map coverage_row_json (map (compare_row before_groups after_groups)
        [(u ''src/new'' @ [26376] @ u ''.mbt'', 1), (u ''src/old.mbt'', 1), (u ''src/total.mbt'', 1), (u ''src/total.mbt'', 2),
         (u ''src/total.mbt'', 3), (u ''src/total.mbt'', 4), (u ''src/total.mbt'', 5)]))"
      and bindings: "field (field (jget result ''before'') ''binding'') ''retention_id'' = JStr (u ''before'')"
      "field (field (jget result ''after'') ''binding'') ''retention_id'' = JStr (u ''after'')"
      "field (jget result ''before'') ''expires_at_ms'' = JStr (u ''1'')"
    by (rule json_review [OF assms labels(2) before_report after_report union_small union_keys])
  have "asserts_union result"
    unfolding asserts_union_def rows bindings
    by (simp add: before_groups_def after_groups_def row_values items_def row_at_def field_def jget_def drills_back_def report_split before_lines_def after_lines_def u_def)
  with r(1,2) show ?thesis by blast
qed

text \<open>\<open>csv.DictReader\<close>: a cell of a row under the name of its column.\<close>

definition cell_at :: "ustr list \<Rightarrow> ustr list \<Rightarrow> string \<Rightarrow> ustr" where
  "cell_at header cells name = (case dget (zip header cells) (u name) of None \<Rightarrow> [] | Some c \<Rightarrow> c)"

definition parses :: "ustr \<Rightarrow> bool" where
  "parses s = (case loads True s of Inl _ \<Rightarrow> False | Inr _ \<Rightarrow> True)"

definition asserts_csv :: "bytes \<Rightarrow> (ustr \<times> json) list \<Rightarrow> bool" where
  "asserts_csv out side \<longleftrightarrow>
     (case rbind (utf8_decode out) csv_parse of
        Inr (header # rows) \<Rightarrow>
          length rows = 6 \<and> field (jget side ''status_counts'') ''still-covered'' = JInt 1 \<and>
          jget side ''changes_only'' = JBool True \<and>
          u ''still-covered'' \<notin> set (map (\<lambda>r. cell_at header r ''status'') rows) \<and>
          list_all (\<lambda>r. parses (cell_at header r ''before_json'') \<and> parses (cell_at header r ''after_json'')) rows \<and>
          utf8_bytes (csv_text (header # rows)) = out
      | _ \<Rightarrow> False)"

lemma csv_out: "utf8_encode s = Inr out \<Longrightarrow> out = utf8_bytes s \<and> utf8_decode out = Inr s"
  by (auto simp: utf8_encode_def utf8.roundtrip split: if_splits)

lemma csv_cells:
  "cell_at coverage_csv_header (coverage_csv_row row) ''status'' = cr_status row"
  "cell_at coverage_csv_header (coverage_csv_row row) ''before_json'' = compact (aggregate_json (cr_before row))"
  "cell_at coverage_csv_header (coverage_csv_row row) ''after_json'' = compact (aggregate_json (cr_after row))"
  by (simp_all add: cell_at_def coverage_csv_header_def coverage_csv_row_def)

lemma row_parses: "row_printable row \<Longrightarrow> parses (compact (aggregate_json (cr_before row))) \<and> parses (compact (aggregate_json (cr_after row)))"
  using loads_dumps [of compact_style "aggregate_json (cr_before row)" True] loads_dumps [of compact_style "aggregate_json (cr_after row)" True]
  by (simp add: parses_def row_printable_def compact_style_def style_ok_def)

theorem test_csv_reopens_with_full_provenance_and_changes_filter:
  assumes "archives zip_open before_raw after_raw (plain_fixture BEFORE ''before'' INFO) (plain_fixture AFTER ''after'' INFO)"
  shows "\<exists>out side. invoked zip_open before_raw after_raw (options None True True) = Some (out, side) \<and> asserts_csv out side"
proof -
  let ?args = "options None True True"
  obtain rows counts where rows: "compare before_groups after_groups True = (rows, counts)" by fastforce
  have args: "ca_report ?args = INFO" "after_report ?args = INFO" "ca_csv ?args" "ca_changes_only ?args = True"
    by (simp_all add: options_def after_report_def)
  note run = fixture_review [of zip_open before_raw after_raw BEFORE "''before''" ?args AFTER "''after''", unfolded args,
      OF assms labels INFO_path INFO_path before_report after_report union_small rows]
  obtain out side where r: "invoked zip_open before_raw after_raw ?args = Some (out, side)" "utf8_encode (csv_output rows) = Inr out"
      "jget side ''status_counts'' = counts_json counts" "jget side ''changes_only'' = JBool True"
    by (rule run) (use args(3) in blast)
  have statuses: "map cr_status (map (compare_row before_groups after_groups) (sorted_union (dkeys before_groups) (dkeys after_groups))) =
    [u ''added-covered'', u ''removed-uncovered'', u ''covered-to-uncovered'', u ''covered-to-uncovered'', u ''still-covered'',
     u ''uncovered-to-covered'', u ''added-uncovered'']"
    unfolding union_keys by (simp add: before_groups_def after_groups_def row_values u_def)
  have shown: "rows = filter (\<lambda>row. \<not> unchanged row) (map (compare_row before_groups after_groups) (sorted_union (dkeys before_groups) (dkeys after_groups)))"
    and counts: "counts = tally (map cr_status (map (compare_row before_groups after_groups) (sorted_union (dkeys before_groups) (dkeys after_groups))))"
    using rows by (simp_all add: compare_eq Let_def)
  have "map cr_status rows = filter (\<lambda>s. \<not> starts_with s (u ''still-'')) (map cr_status (map (compare_row before_groups after_groups) (sorted_union (dkeys before_groups) (dkeys after_groups))))"
    unfolding shown by (simp add: filter_map comp_def unchanged_def)
  then have shown_statuses: "map cr_status rows = [u ''added-covered'', u ''removed-uncovered'', u ''covered-to-uncovered'', u ''covered-to-uncovered'',
     u ''uncovered-to-covered'', u ''added-uncovered'']"
    unfolding statuses by (simp add: u_def)
  have six: "length rows = 6" using arg_cong [OF shown_statuses, of length] by simp
  have none: "u ''still-covered'' \<notin> set (map cr_status rows)" unfolding shown_statuses by (simp add: u_def)
  have "dget counts (u ''still-covered'') = Some 1" unfolding counts statuses dget_tally by (simp add: u_def)
  then have "field (counts_json counts) ''still-covered'' = JInt 1" by (simp add: field_def counts_json_def jget_def map_of_map)
  then have one: "field (jget side ''status_counts'') ''still-covered'' = JInt 1" by (simp only: r(3))
  have "list_all row_printable rows"
    using compare_rows_printable [OF before_report after_report, of _ True] rows by (simp add: list_all_iff)
  then have "list_all (\<lambda>r. parses (cell_at coverage_csv_header r ''before_json'') \<and> parses (cell_at coverage_csv_header r ''after_json'')) (map coverage_csv_row rows)"
    using row_parses by (simp add: list_all_iff csv_cells)
  moreover note csv_out [OF r(2), THEN conjunct2] csv_out [OF r(2), THEN conjunct1, symmetric]
  ultimately have "asserts_csv out side"
    using six none one r(4) by (simp add: asserts_csv_def csv_output_parse csv_cells image_image comp_def csv_output_def [symmetric])
  with r(1) show ?thesis by blast
qed

definition same_rows :: "(ustr \<times> json) list \<Rightarrow> (ustr \<times> json) list \<Rightarrow> bool" where
  "same_rows result other \<longleftrightarrow> jget result ''rows'' = jget other ''rows''"

theorem test_renamed_report_and_relocated_bundles:
  assumes "archives zip_open before_raw after_raw (plain_fixture BEFORE ''before'' INFO) (plain_fixture AFTER ''after'' (u ''renamed.info''))"
    and "archives other_zip copied_raw other_raw (plain_fixture BEFORE ''before'' INFO) (plain_fixture AFTER ''after'' INFO)"
  shows "\<exists>out side result out' side' result'.
    invoked zip_open before_raw after_raw (options (Some (u ''renamed.info'')) False False) = Some (out, side) \<and> decode out = Inr (JObj result) \<and>
    field (field (jget result ''after'') ''source_file'') ''relative_path'' = JStr (u ''renamed.info'') \<and>
    invoked other_zip copied_raw other_raw (options None False False) = Some (out', side') \<and> decode out' = Inr (JObj result') \<and>
    same_rows result' result"
proof -
  let ?args = "options (Some (u ''renamed.info'')) False False" and ?plain = "options None False False"
  obtain rows counts where rows: "compare before_groups after_groups False = (rows, counts)" by fastforce
  have args: "ca_report ?args = INFO" "after_report ?args = u ''renamed.info''" "\<not> ca_csv ?args" "ca_changes_only ?args = False"
    "ca_report ?plain = INFO" "after_report ?plain = INFO" "\<not> ca_csv ?plain" "ca_changes_only ?plain = False"
    by (simp_all add: options_def after_report_def)
  have path: "good_path (u ''renamed.info'')"
    by (simp add: good_path_def safe_path_def utf8_bytes_def) (simp add: u_def utf8_char_def safe_part_def)
  note run = fixture_review [of zip_open before_raw after_raw BEFORE "''before''" ?args AFTER "''after''", unfolded args,
      OF assms(1) labels INFO_path path before_report after_report union_small rows]
  note run' = fixture_review [of other_zip copied_raw other_raw BEFORE "''before''" ?plain AFTER "''after''", unfolded args,
      OF assms(2) labels INFO_path INFO_path before_report after_report union_small rows]
  obtain out result side where r: "invoked zip_open before_raw after_raw ?args = Some (out, side)" "decode out = Inr (JObj result)"
      "jget result ''rows'' = JArr (map coverage_row_json rows)"
      "field (field (jget result ''after'') ''source_file'') ''relative_path'' = JStr (u ''renamed.info'')"
    by (rule run) (use args(3) in blast)
  obtain out' result' side' where r': "invoked other_zip copied_raw other_raw ?plain = Some (out', side')" "decode out' = Inr (JObj result')"
      "jget result' ''rows'' = JArr (map coverage_row_json rows)"
    by (rule run') (use args(7) in blast)
  from r r' show ?thesis unfolding same_rows_def by metis
qed

text \<open>Checksums that changed, conflict or are missing.\<close>

definition left_lines :: "ustr list" where
  "left_lines = map u [''SF:file'', ''DA:1,1,a'', ''DA:2,1'', ''DA:3,1,a'', ''end_of_record'', ''SF:file'', ''DA:3,0,b'', ''end_of_record'']"

definition right_lines :: "ustr list" where
  "right_lines = map u [''SF:file'', ''DA:1,0,b'', ''DA:2,0'', ''DA:3,0,a'', ''end_of_record'']"

definition left_groups :: coverage_groups where
  "left_groups = [((u ''file'', 1), [obs 1 2 [] 1 ''a'']), ((u ''file'', 2), [obs 1 3 [] 1 []]),
     ((u ''file'', 3), [obs 1 4 [] 1 ''a'', obs 2 7 [] 0 ''b''])]"

definition right_groups :: coverage_groups where
  "right_groups = [((u ''file'', 1), [obs 1 2 [] 0 ''b'']), ((u ''file'', 2), [obs 1 3 [] 0 []]), ((u ''file'', 3), [obs 1 4 [] 0 ''a''])]"

lemma left_report: "lcov (utf8_bytes (text_lines left_lines)) = Inr (left_groups, stats 2 4 left_groups)"
proof (rule accepted_report)
  show "report_run left_lines = Inr (accepted_state 2 4 left_groups)"
    by (simp add: left_lines_def report_run_def run_line lcov_start_def u_def accepted_state_def left_groups_def obs_def)
  show "list_all plain_line left_lines" by (simp add: left_lines_def plain_line_def u_def is_scalar_def)
qed (simp_all add: left_lines_def)

lemma right_report: "lcov (utf8_bytes (text_lines right_lines)) = Inr (right_groups, stats 1 3 right_groups)"
proof (rule accepted_report)
  show "report_run right_lines = Inr (accepted_state 1 3 right_groups)"
    by (simp add: right_lines_def report_run_def run_line lcov_start_def u_def accepted_state_def right_groups_def obs_def)
  show "list_all plain_line right_lines" by (simp add: right_lines_def plain_line_def u_def is_scalar_def)
qed (simp_all add: right_lines_def)

lemma sides_small: "small_groups left_groups" "small_groups right_groups"
  "length (text_lines left_lines) \<le> 200000" "length (text_lines right_lines) \<le> 200000"
  by (simp_all add: small_groups_def left_groups_def right_groups_def obs_def small_observation_def small_text_def)
    (simp_all add: left_lines_def right_lines_def text_lines_def)

definition asserts_checksums :: "(ustr \<times> json) list \<Rightarrow> bool" where
  "asserts_checksums result \<longleftrightarrow>
     (let rows = items (jget result ''rows'')
      in map (\<lambda>r. field r ''status'') rows = map (JStr \<circ> u) [''source-changed'', ''covered-to-uncovered'', ''checksum-conflict''] \<and>
         field (rows ! 1) ''comparison_basis'' = JStr (u ''coordinate-only'') \<and>
         field (field (rows ! 2) ''before'') ''checksums'' = JArr [JStr (u ''a''), JStr (u ''b'')])"

lemma file_keys: "sorted_union (dkeys left_groups) (dkeys right_groups) = [(u ''file'', 1), (u ''file'', 2), (u ''file'', 3)]"
  by (rule sorted_union_eqI) (simp_all add: dkeys_def left_groups_def right_groups_def u_def)

theorem test_checksum_changed_conflicting_and_missing_stay_visible:
  assumes "archives zip_open before_raw after_raw (plain_fixture (text_lines left_lines) ''before'' INFO) (plain_fixture (text_lines right_lines) ''before'' INFO)"
  shows "\<exists>out side result. invoked zip_open before_raw after_raw (options None False False) = Some (out, side) \<and>
    decode out = Inr (JObj result) \<and> asserts_checksums result"
proof -
  obtain out side result where r: "invoked zip_open before_raw after_raw (options None False False) = Some (out, side)" "decode out = Inr (JObj result)"
      and rows: "jget result ''rows'' = JArr (map coverage_row_json (map (compare_row left_groups right_groups) [(u ''file'', 1), (u ''file'', 2), (u ''file'', 3)]))"
    by (rule json_review [OF assms labels(1) left_report right_report sides_small file_keys])
  have "asserts_checksums result"
    unfolding asserts_checksums_def rows
    by (simp add: left_groups_def right_groups_def row_values items_def field_def jget_def u_def)
  with r(1,2) show ?thesis by blast
qed

text \<open>A record without lines, in CRLF text: the filtered CSV has its header only.\<close>

definition empty_lines :: "ustr list" where
  "empty_lines = map u [''TN:none'', ''SF:empty'', ''LF:0'', ''LH:0'', ''end_of_record'']"

lemma empty_report: "lcov (utf8_bytes (text_crlf empty_lines)) = Inr ([], stats 1 0 [])"
proof -
  have plain: "list_all plain_line empty_lines" by (simp add: empty_lines_def plain_line_def u_def is_scalar_def)
  have "report_run empty_lines = Inr (accepted_state 1 0 [])"
    by (simp add: empty_lines_def report_run_def run_line lcov_start_def u_def accepted_state_def)
  then show ?thesis using lcov_text_lines(2) [OF plain]
    by (simp add: empty_lines_def report_of_def accepted_state_def stats_def)
qed

definition asserts_empty :: "bytes \<Rightarrow> (ustr \<times> json) list \<Rightarrow> bool" where
  "asserts_empty out side \<longleftrightarrow>
     (case rbind (utf8_decode out) csv_parse of Inr rows \<Rightarrow> length rows = 1 | _ \<Rightarrow> False) \<and>
     field (jget side ''before'') ''record_count'' = JInt 1"

theorem test_empty_records_and_header_only_filtered_result:
  assumes "archives zip_open raw after_raw (plain_fixture (text_crlf empty_lines) ''before'' INFO) (plain_fixture (text_crlf empty_lines) ''before'' INFO)"
  shows "\<exists>out side. invoked zip_open raw after_raw (options None True True) = Some (out, side) \<and> asserts_empty out side"
proof -
  let ?args = "options None True True"
  have args: "ca_report ?args = INFO" "after_report ?args = INFO" "ca_csv ?args" "ca_changes_only ?args = True"
    by (simp_all add: options_def after_report_def)
  have rows: "compare [] [] True = ([], [])" by (simp add: compare_eq Let_def dkeys_def sorted_union_def tally_def)
  have small: "small_groups []" "length (text_crlf empty_lines) \<le> 200000"
    by (simp_all add: small_groups_def text_crlf_def empty_lines_def)
  obtain out side where r: "invoked zip_open raw after_raw ?args = Some (out, side)" "utf8_encode (csv_output []) = Inr out"
      "field (jget side ''before'') ''record_count'' = JInt (int (st_record_count (stats 1 0 [])))"
    by (rule fixture_review [of zip_open raw after_raw "text_crlf empty_lines" "''before''" ?args "text_crlf empty_lines" "''before''", unfolded args,
        OF assms labels(1,1) INFO_path INFO_path empty_report empty_report small(1,1,2,2) rows]) (use args(3) in blast)
  have "asserts_empty out side" using csv_out [OF r(2), THEN conjunct2] r(3) by (simp add: asserts_empty_def csv_output_parse stats_def)
  with r(1) show ?thesis by blast
qed

text \<open>Opaque paths, two records of one path, lines that are only accepted.\<close>

definition opaque_path :: ustr where
  "opaque_path = u ''=C:'' @ [92] @ u ''private,'' @ [26376]"

definition opaque_lines :: "ustr list" where
  "opaque_lines = [u ''SF:'' @ opaque_path, u ''FN:1,function'', u ''BRDA:1,0,0,1'', u ''DA:001,2'', u ''end_of_record'',
     u ''SF:'' @ opaque_path, u ''DA:1,3'', u ''end_of_record'']"

definition opaque_groups :: coverage_groups where
  "opaque_groups = [((opaque_path, 1), [obs 1 4 [] 2 [], obs 2 7 [] 3 []])]"

lemma opaque_report: "lcov (utf8_bytes (text_lines opaque_lines)) = Inr (opaque_groups, stats 2 2 opaque_groups)"
proof (rule accepted_report)
  show "report_run opaque_lines = Inr (accepted_state 2 2 opaque_groups)"
    by (simp add: opaque_lines_def opaque_path_def report_run_def run_line lcov_start_def lcov_ignored_def u_def accepted_state_def opaque_groups_def obs_def)
  show "list_all plain_line opaque_lines" by (simp add: opaque_lines_def opaque_path_def plain_line_def u_def is_scalar_def)
qed (simp_all add: opaque_lines_def)

definition asserts_opaque :: "(ustr \<times> json) list \<Rightarrow> bool" where
  "asserts_opaque result \<longleftrightarrow>
     (let row = items (jget result ''rows'') ! 0
      in field row ''source_path'' = JStr opaque_path \<and> field (field row ''before'') ''reported_hits_sum'' = JInt 5 \<and>
         length (items (field (field row ''before'') ''observations'')) = 2 \<and>
         field row ''comparison_basis'' = JStr (u ''coordinate-only''))"

theorem test_opaque_paths_duplicate_reports_and_ignored_metadata:
  assumes "archives zip_open raw after_raw (plain_fixture (text_lines opaque_lines) ''before'' INFO) (plain_fixture (text_lines opaque_lines) ''before'' INFO)"
  shows "\<exists>out side result. invoked zip_open raw after_raw (options None False False) = Some (out, side) \<and>
    decode out = Inr (JObj result) \<and> asserts_opaque result"
proof -
  have small: "small_groups opaque_groups" "length (text_lines opaque_lines) \<le> 200000"
    by (simp_all add: small_groups_def opaque_groups_def opaque_path_def obs_def small_observation_def small_text_def)
      (simp_all add: opaque_lines_def opaque_path_def text_lines_def is_scalar_def)
  have keys: "sorted_union (dkeys opaque_groups) (dkeys opaque_groups) = [(opaque_path, 1)]"
    by (rule sorted_union_eqI) (simp_all add: dkeys_def opaque_groups_def)
  obtain out side result where r: "invoked zip_open raw after_raw (options None False False) = Some (out, side)" "decode out = Inr (JObj result)"
      and rows: "jget result ''rows'' = JArr (map coverage_row_json (map (compare_row opaque_groups opaque_groups) [(opaque_path, 1)]))"
    by (rule json_review [OF assms labels(1) opaque_report opaque_report small(1,1,2,2) keys])
  have "asserts_opaque result"
    unfolding asserts_opaque_def rows by (simp add: opaque_groups_def row_values items_def field_def jget_def)
  with r show ?thesis by blast
qed

subsection \<open>Small reviews succeed\<close>



end
