(* ===== verification/CoverageRefusals.thy ===== *)
theory CoverageRefusals
  imports CoverageScenarios
begin

section \<open>The tests of the coverage command that expect a refusal\<close>

text \<open>
  Invalid reports, tampered artifacts and manifests, missing reports and excess: for each of them the test
  expects an exit code other than zero, nothing on standard output and an error, which is the outcome
  \<open>Refused\<close>.
\<close>

lemma read_one: "read_bundle zip_open (Inr raw) report label = read_bundle (\<lambda>_. zip_open raw) (Inr raw) report label"
  by (simp add: read_bundle_def read_file_def Let_def rbind_def guard_def require_def split: if_splits sum.splits)

lemma refused_error:
  assumes "coverage_body zip_open (Inr before_raw) (Inr after_raw) args = Inl e" "review_error e"
  shows "refused zip_open before_raw after_raw args"
  using assms by (simp add: refused_def coverage_main_def run_command_def)

lemma stored_members: "m \<in> set (fixture data retention report mutate extra) \<Longrightarrow> \<exists>d. zm_read m = Inr d"
  by (auto simp: fixture_def stored_archive_def Let_def split: option.splits)

lemma bundle_refused:
  assumes opens: "archives zip_open before_raw after_raw (plain_fixture before ''before'' (ca_report args)) (fixture data retention report mutate extra)"
    and path: "good_path (ca_report args)" "length before \<le> 200000"
    and none: "\<And>r. read_bundle zip_open (Inr after_raw) (after_report args) (u ''LCOV'') \<noteq> Inr r"
  shows "refused zip_open before_raw after_raw args"
proof -
  have bytes: "length (utf8_bytes before) \<le> 1000000" using utf8_bytes_length [of before] path(2) by linarith
  note raw = opens [unfolded archives_def plain_fixture_def]
  obtain bsrc where b: "read_bundle zip_open (Inr before_raw) (ca_report args) (u ''LCOV'') = Inr (utf8_bytes before, bsrc)"
    using fixture_read [OF demo_identity(2) _ _ _ _ bytes, of "ca_report args" before_raw zip_open "u ''LCOV''"] raw path(1)
    by (auto simp: good_path_def)
  obtain e where e: "read_bundle zip_open (Inr after_raw) (after_report args) (u ''LCOV'') = Inl e"
    using none by (cases "read_bundle zip_open (Inr after_raw) (after_report args) (u ''LCOV'')") auto
  have "archive_raises review_error (\<lambda>_. zip_open after_raw)"
    using raw stored_members by (fastforce simp: archive_raises_def raises_only_def)
  from read_bundle_raises [OF this, of "Inr after_raw" "after_report args" "u ''LCOV''"] have "review_error e"
    using e by (simp add: read_one [of zip_open] raises_only_def)
  with b e show ?thesis by (intro refused_error [of zip_open]) (auto simp: coverage_body_def)
qed

lemma report_refused:
  assumes opens: "archives zip_open before_raw after_raw (plain_fixture before ''before'' INFO) (fixture data (u ''before'') INFO (\<lambda>m. m) None)"
    and before: "lcov (utf8_bytes before) = Inr r" "length before \<le> 200000" and after: "lcov data = Inl e" "length data \<le> 1000000"
  shows "refused zip_open before_raw after_raw (options None changes csv)"
proof -
  have bytes: "length (utf8_bytes before) \<le> 1000000" using utf8_bytes_length [of before] before(2) by linarith
  note raw = opens [unfolded archives_def plain_fixture_def]
  obtain bsrc where b: "read_bundle zip_open (Inr before_raw) INFO (u ''LCOV'') = Inr (utf8_bytes before, bsrc)"
    using fixture_read [OF demo_identity(2) _ _ _ _ bytes, of INFO before_raw zip_open "u ''LCOV''"] raw INFO_path
    by (auto simp: good_path_def)
  obtain asrc where a: "read_bundle zip_open (Inr after_raw) INFO (u ''LCOV'') = Inr (data, asrc)"
    using fixture_read [OF demo_identity(2) _ _ _ _ after(2), of INFO after_raw zip_open "u ''LCOV''"] raw INFO_path
    by (auto simp: good_path_def)
  have "review_error e" using lcov_raises [of data] after(1) by (auto simp: raises_only_def)
  with a b before after show ?thesis
    by (intro refused_error [of zip_open]) (auto simp: coverage_body_def options_def after_report_def split: prod.splits)
qed

subsection \<open>Invalid reports\<close>

definition invalid_lines :: "ustr list list" where
  "invalid_lines = map (map u)
     [[''SF:f'', ''DA:1,1'', ''DA:01,0'', ''end_of_record''], [''SF:f'', ''DA:1,1'', ''LF:2'', ''end_of_record''],
      [''SF:f'', ''DA:1,1''], [''SF:f'', ''DA:0,1'', ''end_of_record''], [''SF:f'', ''DA:1,2147483648'', ''end_of_record''],
      [''SF:f'', ''DA:1,1'', ''FNL:1'', ''end_of_record''], [''TN:dangling'']]"

definition invalid_reports :: "bytes list" where
  "invalid_reports = map (utf8_bytes \<circ> text_lines) invalid_lines @
     [utf8_bytes (text_lines (map u [''SF:f'', ''DA:1,1'', ''end_of_record''])) @ [255]]"

lemma invalid_plain: "ls \<in> set invalid_lines \<Longrightarrow> list_all plain_line ls \<and> length ls \<le> 100"
  by (auto simp: invalid_lines_def plain_line_def u_def is_scalar_def)

lemma no_byte_255: "255 \<in> set data \<Longrightarrow> utf8_decode data \<noteq> Inr s"
proof
  assume "255 \<in> set data" and "utf8_decode data = Inr s"
  then have s: "list_all is_scalar s" "data = utf8_bytes s"
    using utf8_decode_sound [of data s] by (auto simp: utf8_encode_def split: if_splits)
  then obtain c b where b: "c \<in> set s" "b \<in> set (utf8_char c)" "255 = (of_nat b :: 8 word)"
    using \<open>255 \<in> set data\<close> by (auto simp: utf8_bytes_def)
  have "c < 1114112" using s(1) b(1) by (auto simp: list_all_iff is_scalar_def)
  then have "b \<le> 247" using b(2) by (auto simp: utf8_char_def split: if_splits)
  then have "unat (of_nat b :: 8 word) = b" by (simp add: unat_of_nat)
  with b(3) have "unat (255 :: 8 word) = b" by metis
  with \<open>b \<le> 247\<close> show False by simp
qed

lemma invalid_report: "data \<in> set invalid_reports \<Longrightarrow> \<exists>e. lcov data = Inl e"
proof -
  have lines: "\<exists>e. report_of ls = Inl e" if "ls \<in> set invalid_lines" for ls
    using that by (auto simp: invalid_lines_def) (simp_all add: report_of_def report_run_def run_line lcov_start_def lcov_ignored_def u_def)
  have "\<exists>e. lcov (utf8_bytes (text_lines (map u [''SF:f'', ''DA:1,1'', ''end_of_record''])) @ [255]) = Inl e"
    using no_byte_255 by (auto simp: lcov_def guard_def require_def rbind_def split: sum.splits)
  moreover assume "data \<in> set invalid_reports"
  ultimately show ?thesis using lines invalid_plain lcov_text_lines(1) by (fastforce simp: invalid_reports_def)
qed

text \<open>\<open>test_invalid_late_report_refuses_without_partial_output\<close>\<close>

theorem test_invalid_late_report_refuses_without_partial_output:
  assumes "data \<in> set invalid_reports"
    and "archives zip_open before_raw after_raw (plain_fixture BEFORE ''before'' INFO) (fixture data (u ''before'') INFO (\<lambda>m. m) None)"
  shows "refused zip_open before_raw after_raw (options None False False)"
proof -
  obtain e where e: "lcov data = Inl e" using invalid_report [OF assms(1)] by blast
  have plain: "length (utf8_bytes (text_lines ls)) \<le> 1000000" if "ls \<in> set invalid_lines" for ls
    using utf8_bytes_length [of "text_lines ls"] report_sizes(1) [of ls] invalid_plain [OF that] by linarith
  have "length (text_lines (map u [''SF:f'', ''DA:1,1'', ''end_of_record''])) \<le> 100" by (simp add: text_lines_def)
  then have "length (utf8_bytes (text_lines (map u [''SF:f'', ''DA:1,1'', ''end_of_record''])) @ [255]) \<le> 1000000"
    using utf8_bytes_length [of "text_lines (map u [''SF:f'', ''DA:1,1'', ''end_of_record''])"] unfolding length_append by simp
  then have "length data \<le> 1000000" using assms(1) plain unfolding invalid_reports_def by auto
  from report_refused [OF assms(2) before_report union_small(3) e this] show ?thesis .
qed

subsection \<open>Tampered manifests\<close>

text \<open>\<open>m.update(...)\<close>, \<open>m['files'][index].update(...)\<close> and \<open>m['binding'].update(...)\<close>\<close>

definition update_body :: "(ustr \<times> json) list \<Rightarrow> json \<Rightarrow> json" where
  "update_body changes v = (case v of JObj d \<Rightarrow> JObj (dmerge d changes) | _ \<Rightarrow> v)"

definition update_file :: "nat \<Rightarrow> (ustr \<times> json) list \<Rightarrow> (ustr \<times> json) list \<Rightarrow> (ustr \<times> json) list" where
  "update_file i changes m =
     dmerge m [(u ''files'', JArr (let files = items (jget m ''files'') in files[i := update_body changes (files ! i)]))]"

definition update_binding :: "(ustr \<times> json) list \<Rightarrow> (ustr \<times> json) list \<Rightarrow> (ustr \<times> json) list" where
  "update_binding changes m = dmerge m [(u ''binding'', update_body changes (jget m ''binding''))]"

definition written :: "(ustr \<times> json) list \<Rightarrow> bool" where
  "written m \<longleftrightarrow> jvalid False (JObj m) \<and> jscalar (JObj m)"

lemma written_text: "written m \<Longrightarrow> decode (fixture_text m) = Inr (JObj m)"
proof -
  assume m: "written m"
  then have "text_scalar (compact (JObj m))"
    unfolding written_def by (intro dumps_scalar [where a = False]) (simp_all add: compact_style_def style_ok_def del: jvalid.simps jscalar.simps)
  then have "list_all is_scalar (compact (JObj m) @ [10])" by (simp add: text_scalar_def) (simp add: is_scalar_def)
  then have "decode (fixture_text m) = loads True (compact (JObj m) @ [10])"
    by (simp add: decode_def fixture_text_def utf8.roundtrip)
  also have "\<dots> = Inr (JObj m)"
    using m unfolding written_def by (intro loads_reads dumps_reads) (simp_all add: compact_style_def style_ok_def is_ws_def del: jvalid.simps)
  finally show ?thesis .
qed

lemma written_merge: "written m \<Longrightarrow> written e \<Longrightarrow> written (dmerge m e)"
  unfolding written_def using valid_dmerge [of m e] merged_scalar [of m e] by simp

lemma written_body: "jvalid False v \<and> jscalar v \<Longrightarrow> written e \<Longrightarrow> jvalid False (update_body e v) \<and> jscalar (update_body e v)"
  using written_merge by (cases v) (auto simp: update_body_def written_def simp del: jvalid.simps(5) jscalar.simps(3))

lemma written_fixture:
  assumes "identity_ok retention" "storable files"
  shows "written (fixture_manifest retention files)"
  using files_valid [OF assms(2), of False] receipt_ok(2,3) [OF assms(1) demo_identity(1)] small_printable [of 1]
  by (simp add: written_def fixture_manifest_def)

text \<open>What an accepted bundle of a mutated manifest would say.\<close>

lemma mutated_bundle:
  assumes zip: "zip_open raw = Inr (fixture data retention report mutate extra)"
    and manifest: "m = mutate (fixture_manifest retention (fixture_files report data))" "written m"
    and accepted: "read_bundle zip_open (Inr raw) report_path label = Inr r"
  obtains files artifacts where "inventory_of m files" "list_all2 describes_member files artifacts"
    "holds_number (jget m ''total_bytes'') (int (sum_list (map zm_size artifacts)))"
    "set (fixture data retention report mutate extra) = insert (stored_member (u ''manifest.json'') (fixture_text m)) (set artifacts)"
    "\<exists>chosen \<in> set artifacts. zm_name chosen = artifact_name report_path \<and> zm_size chosen \<le> MAX_REPORT"
proof -
  let ?members = "fixture data retention report mutate extra"
  let ?listing = "stored_member (u ''manifest.json'') (fixture_text m)"
  have first: "?listing \<in> set ?members" by (simp add: fixture_def stored_archive_def Let_def manifest(1))
  obtain d source where r: "r = (d, source)" by (cases r)
  from accepted [unfolded r read_bundle_iff] zip obtain listing manifest_raw m' files artifacts entry member where
    b: "review_bundle ?members listing m' files artifacts" and raw: "zm_read listing = Inr manifest_raw" "decode manifest_raw = Inr (JObj m')"
    and sel: "(entry, member) \<in> set (zip files artifacts)" "zm_name member = artifact_name report_path" "zm_size member \<le> MAX_REPORT" by auto
  have "listing = ?listing"
    using b first by (auto simp: review_bundle_def consists_of_def distinct_map inj_on_def)
  then have "m' = m" using raw written_text [OF manifest(2)] by simp
  have "member \<in> set artifacts" using set_zip_rightD [OF sel(1)] .
  with b \<open>listing = ?listing\<close> \<open>m' = m\<close> sel(2,3) show thesis
    by (intro that [of files artifacts]) (auto simp: review_bundle_def consists_of_def)
qed

lemma fixture_storable:
  assumes "good_path report" "length data \<le> 1000000"
  shows "storable (fixture_files report data)"
proof -
  have "safe_path (u ''reports/details.bin'')"
    by (simp add: safe_path_def utf8_bytes_def) (simp add: u_def utf8_char_def safe_part_def)
  moreover have "length (utf8_bytes (u ''retained'')) \<le> 32" using utf8_bytes_length [of "u ''retained''"] by simp
  ultimately show ?thesis using assms by (simp add: storable_def fixture_files_def total_size_def good_path_def)
qed

text \<open>The six mutations, and the bundle with one more member.\<close>

datatype tampering = Fingerprint nat | Total | Version | Path | Digest | Kind

fun tamper :: "tampering \<Rightarrow> (ustr \<times> json) list \<Rightarrow> (ustr \<times> json) list" where
  "tamper (Fingerprint index) m = update_file index [(u ''fingerprint'', JStr (replicate 64 48))] m"
| "tamper Total m = dmerge m [(u ''total_bytes'', JStr (u ''0''))]"
| "tamper Version m = dmerge m [(u ''format_version'', JBool True)]"
| "tamper Path m = update_file 0 [(u ''relative_path'', JStr (u ''../escape''))] m"
| "tamper Digest m = update_binding [(u ''command_digest'', JStr (u ''bad''))] m"
| "tamper Kind m = update_file 0 [(u ''kind'', JStr (u ''SymbolicLink''))] m"

lemma written_changes: "written [(u k, JStr s)]" if "list_all is_scalar s"
  using that by (simp add: written_def)

lemma written_update_file:
  assumes "written m" "jget m ''files'' = JArr files" "i < length files" "written e"
  shows "written (update_file i e m)"
proof -
  have "jvalid False (jget m ''files'') \<and> jscalar (jget m ''files'')"
    using assms(1,2) by (auto simp: written_def jget_def list_all_iff dest!: map_of_SomeD split: option.splits)
  then have fs: "list_all (\<lambda>v. jvalid False v \<and> jscalar v) files" using assms(2) by (simp add: list_all_iff)
  then have "jvalid False (files ! i) \<and> jscalar (files ! i)" using assms(3) by (simp add: list_all_iff)
  then have "list_all (\<lambda>v. jvalid False v \<and> jscalar v) (files[i := update_body e (files ! i)])"
    using fs written_body [OF _ assms(4), of "files ! i"] set_update_subset_insert [of files i] by (fastforce simp: list_all_iff)
  then have "list_all (jvalid False) (files[i := update_body e (files ! i)])" "list_all jscalar (files[i := update_body e (files ! i)])"
    by (simp_all add: list_all_iff)
  then have "written [(u ''files'', JArr (files[i := update_body e (files ! i)]))]" by (simp add: written_def)
  then show ?thesis using written_merge [OF assms(1)] assms(2) by (simp add: update_file_def items_def Let_def)
qed

lemma fixture_member: "jget (fixture_manifest retention files) ''files'' = JArr (map manifest_entry files)"
  "jget (fixture_manifest retention files) ''binding'' = receipt retention (u ''workspace-demo'')"
  by (simp_all add: fixture_manifest_def jget_def)

lemma written_tamper:
  assumes "identity_ok retention" "good_path report" "length data \<le> 1000000" "\<forall>k. t = Fingerprint k \<longrightarrow> k < 2"
  shows "written (tamper t (fixture_manifest retention (fixture_files report data)))"
proof -
  let ?m = "fixture_manifest retention (fixture_files report data)"
  have m: "written ?m" by (rule written_fixture [OF assms(1) fixture_storable [OF assms(2,3)]])
  have entries: "length (map manifest_entry (fixture_files report data)) = 2" by (simp add: fixture_files_def)
  have zeros: "list_all is_scalar (replicate 64 48)" by (simp add: list_all_iff is_scalar_def)
  have files: "written (update_file i e ?m)" if "i < 2" "written e" for i e
    using written_update_file [OF m fixture_member(1) _ that(2), of i] entries that(1) by simp
  have "jvalid False (receipt retention (u ''workspace-demo'')) \<and> jscalar (receipt retention (u ''workspace-demo''))"
    using receipt_ok(2,3) [OF assms(1) demo_identity(1)] by simp
  from written_body [OF this] have "written [(u ''binding'', update_body e (receipt retention (u ''workspace-demo'')))]" if "written e" for e
    using that by (simp add: written_def)
  then have binding: "written (update_binding e ?m)" if "written e" for e
    using written_merge [OF m] that by (simp add: update_binding_def fixture_member)
  note changed = written_merge [OF m] written_changes
  show ?thesis
  proof (cases t)
    case (Fingerprint n)
    then show ?thesis using assms(4) files written_changes zeros by simp
  next
    case Version
    have "written [(u ''format_version'', JBool True)]" by (simp add: written_def)
    with Version show ?thesis using written_merge [OF m] by simp
  qed (use changed files binding in simp_all)
qed

text \<open>None of the tampered bundles is what it says.\<close>

lemma str_nat_zero: "u ''0'' = str_nat n \<Longrightarrow> n = 0"
  using digits_value_str_nat [of n] digits_value_str_nat [of 0] str_nat_0 by simp

lemma described_changes:
  "\<not> describes_member (update_body [(u ''kind'', JStr (u ''SymbolicLink''))] (manifest_entry f)) m"
  "\<not> describes_member (update_body [(u ''relative_path'', JStr (u ''../escape''))] (manifest_entry f)) m"
  "describes_member (update_body [(u ''fingerprint'', JStr s)] (manifest_entry f)) m \<Longrightarrow>
     zm_name m = artifact_name (fst f) \<and> (\<exists>data. zm_read m = Inr data \<and> sha data = s)"
proof -
  show "\<not> describes_member (update_body [(u ''kind'', JStr (u ''SymbolicLink''))] (manifest_entry f)) m"
    by (cases f) (simp add: describes_member_def update_body_def manifest_entry_def jget_def dget_dmerge)
  have "\<not> safe_path (u ''../escape'')" by (simp add: safe_path_def) (simp add: u_def safe_part_def)
  then show "\<not> describes_member (update_body [(u ''relative_path'', JStr (u ''../escape''))] (manifest_entry f)) m"
    by (cases f) (simp add: describes_member_def update_body_def manifest_entry_def jget_def dget_dmerge)
  show "describes_member (update_body [(u ''fingerprint'', JStr s)] (manifest_entry f)) m \<Longrightarrow>
     zm_name m = artifact_name (fst f) \<and> (\<exists>data. zm_read m = Inr data \<and> sha data = s)"
    by (cases f) (auto simp: describes_member_def update_body_def manifest_entry_def jget_def dget_dmerge)
qed

lemma updated_files:
  "jget (update_file i e (fixture_manifest retention files)) ''files'' = JArr ((map manifest_entry files)[i := update_body e (map manifest_entry files ! i)])"
  by (simp add: update_file_def fixture_member items_def Let_def) (simp add: jget_def dget_dmerge)

lemma tampered_not_accepted:
  assumes zip: "zip_open raw = Inr (fixture data retention report (tamper t) None)"
    and fixture: "identity_ok retention" "good_path report" "length data \<le> 1000000" "\<forall>k. t = Fingerprint k \<longrightarrow> k < 2"
    and digests: "\<forall>k. t = Fingerprint k \<longrightarrow> sha (snd (fixture_files report data ! k)) \<noteq> replicate 64 48"
  shows "read_bundle zip_open (Inr raw) path label \<noteq> Inr r"
proof
  let ?files = "fixture_files report data"
  let ?m = "fixture_manifest retention ?files" and ?details = "[0, 255] @ utf8_bytes (u ''retained'')"
  assume accepted: "read_bundle zip_open (Inr raw) path label = Inr r"
  from mutated_bundle [OF zip refl written_tamper [OF fixture] accepted] obtain files artifacts where
    inv: "inventory_of (tamper t ?m) files" and entries: "list_all2 describes_member files artifacts"
    and total: "holds_number (jget (tamper t ?m) ''total_bytes'') (int (sum_list (map zm_size artifacts)))"
    and all: "set (fixture data retention report (tamper t) None) = insert (stored_member (u ''manifest.json'') (fixture_text (tamper t ?m))) (set artifacts)"
    by blast
  note jget_merge = jget_def dget_dmerge
  have listed: "jget (tamper t ?m) ''files'' = JArr files" using inv by (simp add: inventory_of_def)
  have manifest_name: "u ''manifest.json'' \<noteq> artifact_name p" for p by (simp add: artifact_name_def) (simp add: u_def)
  have members: "set (fixture data retention report (tamper t) None) =
      {stored_member (u ''manifest.json'') (fixture_text (tamper t ?m)), stored_member (artifact_name report) data,
       stored_member (artifact_name (u ''reports/details.bin'')) ?details}"
    by (auto simp: fixture_def stored_archive_def fixture_files_def Let_def)
  have details: "stored_member (artifact_name (u ''reports/details.bin'')) ?details \<in> set artifacts"
  proof -
    let ?x = "stored_member (artifact_name (u ''reports/details.bin'')) ?details"
    have "?x \<in> set (fixture data retention report (tamper t) None)" unfolding members by blast
    then have "?x = stored_member (u ''manifest.json'') (fixture_text (tamper t ?m)) \<or> ?x \<in> set artifacts" unfolding all by blast
    moreover have "zm_name ?x \<noteq> zm_name (stored_member (u ''manifest.json'') (fixture_text (tamper t ?m)))"
      using manifest_name [symmetric] by simp
    ultimately show ?thesis by metis
  qed
  show False
  proof (cases t)
    case Version
    then show False using inv by (simp add: inventory_of_def jget_merge)
  next
    case Digest
    have "\<not> receipt_binding (update_body [(u ''command_digest'', JStr (u ''bad''))] (receipt retention (u ''workspace-demo'')))"
      by (simp add: receipt_binding_def update_body_def receipt_def jget_merge re_hex64_def)
    then show False using inv Digest by (simp add: inventory_of_def update_binding_def fixture_member) (simp add: jget_merge)
  next
    case Total
    then have "u ''0'' = str_nat (sum_list (map zm_size artifacts))" using total by (simp add: holds_number_def jget_merge)
    then have "sum_list (map zm_size artifacts) = 0" by (rule str_nat_zero)
    then show False using details by (auto simp: sum_list_eq_0_iff)
  next
    case Path
    then show False using listed entries described_changes(2)
      by (simp add: updated_files) (auto simp: fixture_files_def list_all2_Cons1)
  next
    case Kind
    then show False using listed entries described_changes(1)
      by (simp add: updated_files) (auto simp: fixture_files_def list_all2_Cons1)
  next
    case (Fingerprint k)
    let ?e = "update_body [(u ''fingerprint'', JStr (replicate 64 48))]"
    from Fingerprint listed have files: "files = (map manifest_entry ?files)[k := ?e (map manifest_entry ?files ! k)]"
      by (simp add: updated_files)
    have k: "k < length ?files" using fixture(4) Fingerprint by (simp add: fixture_files_def)
    then have "files ! k = ?e (manifest_entry (?files ! k))" by (simp add: files)
    moreover have bound: "k < length files" using k by (simp add: files)
    note list_all2_nthD [OF entries bound]
    moreover have "k < length artifacts" using bound list_all2_lengthD [OF entries] by simp
    ultimately obtain d where d: "zm_name (artifacts ! k) = artifact_name (fst (?files ! k))" "zm_read (artifacts ! k) = Inr d" "sha d = replicate 64 48"
      using described_changes(3) by metis
    have "artifacts ! k \<in> set (fixture data retention report (tamper t) None)" using all \<open>k < length artifacts\<close> by (metis insertCI nth_mem)
    moreover have "artifact_name report \<noteq> artifact_name (u ''reports/details.bin'')"
      using fixture(2) by (simp add: good_path_def artifact_name_def)
    moreover have "?files ! k = (report, data) \<or> ?files ! k = (u ''reports/details.bin'', ?details)"
      using k by (auto simp: fixture_files_def less_Suc_eq)
    ultimately have "d = snd (?files ! k)" using d(1,2) manifest_name unfolding members by auto
    then show False using d(3) digests Fingerprint by simp
  qed
qed

lemma after_refused:
  assumes "archives zip_open before_raw after_raw (plain_fixture BEFORE ''before'' INFO) (fixture data retention report mutate extra)"
    and "\<And>r. read_bundle zip_open (Inr after_raw) (after_report (options name False False)) (u ''LCOV'') \<noteq> Inr r"
  shows "refused zip_open before_raw after_raw (options name False False)"
  by (rule bundle_refused [where before = BEFORE and args = "options name False False"])
    (use assms INFO_path union_small(3) in \<open>simp_all add: options_def\<close>)

lemma default_report: "after_report (options None False False) = INFO"
  by (simp add: options_def after_report_def)

text \<open>\<open>test_changed_selected_or_unselected_artifact_refuses\<close>, and the mutations of \<open>test_bundle_inventory_and_path_errors_refuse\<close>\<close>

lemma tampered_refused:
  assumes "archives zip_open before_raw after_raw (plain_fixture BEFORE ''before'' INFO) (fixture (utf8_bytes AFTER) (u ''before'') INFO (tamper t) None)"
    and "\<forall>k. t = Fingerprint k \<longrightarrow> k < 2"
    and "\<forall>k. t = Fingerprint k \<longrightarrow> sha (snd (fixture_files INFO (utf8_bytes AFTER) ! k)) \<noteq> replicate 64 48"
  shows "refused zip_open before_raw after_raw (options None False False)"
proof -
  have len: "length (utf8_bytes AFTER) \<le> 1000000" using utf8_bytes_length [of AFTER] union_small(4) by linarith
  show ?thesis
  proof (rule after_refused [OF assms(1)], unfold default_report)
    fix r
    show "read_bundle zip_open (Inr after_raw) INFO (u ''LCOV'') \<noteq> Inr r"
      using tampered_not_accepted [OF _ demo_identity(2) INFO_path len assms(2,3)] assms(1) by (simp add: archives_def)
  qed
qed

theorem test_changed_selected_or_unselected_artifact_refuses:
  assumes "index < 2" "sha (snd (fixture_files INFO (utf8_bytes AFTER) ! index)) \<noteq> replicate 64 48"
    and "archives zip_open before_raw after_raw (plain_fixture BEFORE ''before'' INFO) (fixture (utf8_bytes AFTER) (u ''before'') INFO (tamper (Fingerprint index)) None)"
  shows "refused zip_open before_raw after_raw (options None False False)"
  by (rule tampered_refused [OF assms(3)]) (simp_all add: assms(1,2))

definition inventory_errors :: "tampering list" where
  "inventory_errors = [Total, Version, Path, Digest, Kind]"

theorem test_bundle_inventory_and_path_errors_refuse:
  assumes "t \<in> set inventory_errors"
    and "archives zip_open before_raw after_raw (plain_fixture BEFORE ''before'' INFO) (fixture (utf8_bytes AFTER) (u ''before'') INFO (tamper t) None)"
    and "archives zip_open before_raw extra_raw (plain_fixture BEFORE ''before'' INFO) (fixture (utf8_bytes AFTER) (u ''before'') INFO (\<lambda>m. m) (Some (u ''extra'')))"
    and "archives zip_open before_raw plain_raw (plain_fixture BEFORE ''before'' INFO) (plain_fixture AFTER ''after'' INFO)"
  shows "refused zip_open before_raw after_raw (options None False False)"
    and "refused zip_open before_raw extra_raw (options None False False)"
    and "refused zip_open before_raw plain_raw (options (Some (u ''missing.info'')) False False)"
proof -
  show "refused zip_open before_raw after_raw (options None False False)"
    by (rule tampered_refused [OF assms(2)]) (use assms(1) in \<open>auto simp: inventory_errors_def\<close>)
  have len: "length (utf8_bytes AFTER) \<le> 1000000" using utf8_bytes_length [of AFTER] union_small(4) by linarith
  note written = written_fixture [OF demo_identity(2) fixture_storable [OF INFO_path len]]
  have fixed: "u ''manifest.json'' \<noteq> artifact_name p" "u ''extra'' \<noteq> artifact_name p" for p
    by (simp_all add: artifact_name_def) (simp_all add: u_def)
  show "refused zip_open before_raw extra_raw (options None False False)"
  proof (rule after_refused [OF assms(3)], unfold default_report, rule notI)
    fix r assume accepted: "read_bundle zip_open (Inr extra_raw) INFO (u ''LCOV'') = Inr r"
    have "zip_open extra_raw = Inr (fixture (utf8_bytes AFTER) (u ''before'') INFO (\<lambda>m. m) (Some (u ''extra'')))"
      using assms(3) by (simp add: archives_def)
    from mutated_bundle [where mutate = "\<lambda>m. m", OF this refl written accepted] obtain files artifacts where
      entries: "list_all2 describes_member files artifacts"
      and all: "set (fixture (utf8_bytes AFTER) (u ''before'') INFO (\<lambda>m. m) (Some (u ''extra''))) =
        insert (stored_member (u ''manifest.json'') (fixture_text (fixture_manifest (u ''before'') (fixture_files INFO (utf8_bytes AFTER))))) (set artifacts)"
      by blast
    let ?x = "stored_member (u ''extra'') (utf8_bytes (u ''extra''))"
    have "?x \<in> set (fixture (utf8_bytes AFTER) (u ''before'') INFO (\<lambda>m. m) (Some (u ''extra'')))" by (simp add: fixture_def Let_def)
    moreover have "zm_name ?x \<noteq> u ''manifest.json''" by (simp add: u_def)
    ultimately have "?x \<in> set artifacts" unfolding all by (metis insertE stored_fields(1))
    then obtain i where "i < length artifacts" "artifacts ! i = ?x" by (auto simp: in_set_conv_nth)
    then have "describes_member (files ! i) ?x" using list_all2_nthD2 [OF entries, of i] by simp
    then show False using fixed(2) by (auto simp: describes_member_def)
  qed
  note written_after = written_fixture [OF demo_identity(3) fixture_storable [OF INFO_path len]]
  have missing: "after_report (options (Some (u ''missing.info'')) False False) = u ''missing.info''"
    by (simp add: options_def after_report_def)
  show "refused zip_open before_raw plain_raw (options (Some (u ''missing.info'')) False False)"
  proof (rule after_refused [OF assms(4) [unfolded plain_fixture_def [of AFTER]]], unfold missing, rule notI)
    fix r assume accepted: "read_bundle zip_open (Inr plain_raw) (u ''missing.info'') (u ''LCOV'') = Inr r"
    have "zip_open plain_raw = Inr (fixture (utf8_bytes AFTER) (u ''after'') INFO (\<lambda>m. m) None)"
      using assms(4) by (simp add: archives_def plain_fixture_def)
    from mutated_bundle [where mutate = "\<lambda>m. m", OF this refl written_after accepted] obtain chosen where
      "chosen \<in> set (fixture (utf8_bytes AFTER) (u ''after'') INFO (\<lambda>m. m) None)" "zm_name chosen = artifact_name (u ''missing.info'')"
      by (metis insertCI)
    then show False using fixed(1) by (auto simp: fixture_def stored_archive_def fixture_files_def Let_def INFO_def artifact_name_def) 
  qed
qed

subsection \<open>Too large a report, and too many observations\<close>

definition oversized_report :: bytes where
  "oversized_report = replicate (1024 * 1024 + 1) 35"

lemma oversized_not_accepted:
  assumes zip: "zip_open raw = Inr (fixture oversized_report (u ''before'') INFO (\<lambda>m. m) None)"
  shows "read_bundle zip_open (Inr raw) INFO label \<noteq> Inr r"
proof
  have size: "length oversized_report = 1048577" by (simp add: oversized_report_def)
  have "safe_path (u ''reports/details.bin'')" using fixture_storable [OF INFO_path, of "[]"]
    by (simp add: storable_def fixture_files_def)
  moreover have "length (utf8_bytes (u ''retained'')) \<le> 32" using utf8_bytes_length [of "u ''retained''"] by simp
  ultimately have "storable (fixture_files INFO oversized_report)"
    using INFO_path size by (simp add: storable_def fixture_files_def total_size_def good_path_def)
  note written = written_fixture [OF demo_identity(2) this]
  assume accepted: "read_bundle zip_open (Inr raw) INFO label = Inr r"
  from mutated_bundle [where mutate = "\<lambda>m. m", OF zip refl written accepted] obtain chosen where
    chosen: "chosen \<in> set (fixture oversized_report (u ''before'') INFO (\<lambda>m. m) None)" "zm_name chosen = artifact_name INFO" "zm_size chosen \<le> MAX_REPORT"
    by (metis insertCI)
  have "artifact_name INFO \<noteq> u ''manifest.json''" "artifact_name INFO \<noteq> artifact_name (u ''reports/details.bin'')"
    by (simp_all add: artifact_name_def INFO_def) (simp add: u_def)
  then have "zm_size chosen = 1048577"
    using chosen(1,2) size by (auto simp: fixture_def stored_archive_def fixture_files_def Let_def)
  with chosen(3) show False by (simp add: MAX_REPORT_def)
qed

definition da_line :: "nat \<Rightarrow> ustr" where
  "da_line n = u ''DA:'' @ str_nat n @ u '',0''"

definition da_lines :: "nat \<Rightarrow> ustr list" where
  "da_lines k = map da_line [1 ..< k]"

definition excessive_lines :: "ustr list" where
  "excessive_lines = u ''SF:f'' # da_lines 10002 @ [u ''end_of_record'']"

lemma da_line_fact: "length (line_fact ctx n (da_line k)) = 1" "next_context ctx (da_line k) = ctx"
proof -
  have "partition_on 58 (da_line k) = (u ''DA'', True, str_nat k @ u '',0'')" by (simp add: da_line_def u_def)
  moreover have "da_line k \<noteq> u ''end_of_record''" by (simp add: da_line_def u_def)
  ultimately show "length (line_fact ctx n (da_line k)) = 1" "next_context ctx (da_line k) = ctx"
    by (cases ctx; simp add: line_fact_def next_context_def Let_def)+
qed

lemma da_lines_reported: "k - 1 \<le> length (reported ctx n (da_lines k @ rest))"
proof -
  have "length ks \<le> length (reported ctx n (map da_line ks @ rest))" for ks
  proof (induction ks arbitrary: n)
    case (Cons k ks)
    then show ?case using da_line_fact by simp
  qed simp
  from this [of "[1 ..< k]"] show ?thesis by (simp add: da_lines_def)
qed

lemma excessive_plain: "list_all plain_line excessive_lines"
proof -
  have "plain_line (da_line k)" if "k < 10 ^ 10" for k
  proof -
    have "c < 128 \<and> c \<noteq> 0 \<and> c \<noteq> 10 \<and> c \<noteq> 13" if "c \<in> set (str_nat k)" for c
      using str_nat_digits [of k] that by (auto simp: list_all_iff is_digit_def)
    then show ?thesis using str_nat_size [OF that]
      by (auto simp: plain_line_def da_line_def list_all_iff u_def scalar_ascii)
  qed
  then have "list_all plain_line (da_lines k)" if "k \<le> 10 ^ 10" for k using that by (auto simp: da_lines_def list_all_iff)
  then have "list_all plain_line (da_lines 10002)" by simp
  then show ?thesis by (simp add: excessive_lines_def) (simp add: plain_line_def u_def is_scalar_def)
qed

lemma excessive_report: "\<exists>e. lcov (utf8_bytes (text_lines excessive_lines)) = Inl e"
proof (rule ccontr)
  assume "\<not> ?thesis"
  then obtain groups st where read: "lcov (utf8_bytes (text_lines excessive_lines)) = Inr (groups, st)"
    by (cases "lcov (utf8_bytes (text_lines excessive_lines))") auto
  note texts = report_texts [OF excessive_plain]
  have "10001 \<le> length (reported ctx n (da_lines 10002 @ [u ''end_of_record'']))" for ctx n
    using da_lines_reported [of 10002 ctx n "[u ''end_of_record'']"] by simp
  then have "10001 \<le> length (report_facts (text_lines excessive_lines))"
    unfolding report_facts_def texts(5) unfolding excessive_lines_def reported.simps length_append by (rule trans_le_add2)
  moreover have "st_line_observation_count st = length (report_facts (text_lines excessive_lines))"
    by (rule lcov_exact(3) [OF read utf8.roundtrip [OF texts(1)]])
  ultimately show False using lcov_limits [OF read] by linarith
qed

lemma excessive_size: "length (utf8_bytes (text_lines excessive_lines)) \<le> 1000000"
proof -
  have "length (da_line k) \<le> 15" if "k < 10002" for k
    using that length_str_nat [of 5 k] by (simp add: da_line_def)
  then have "sum_list (map (length \<circ> (\<lambda>l. l @ [10])) (da_lines k)) \<le> (k - 1) * 16" if "k \<le> 10002" for k
    using that by (intro sum_list_le) (auto simp: da_lines_def)
  from this [of 10002] have "length (text_lines (da_lines 10002)) \<le> 160016"
    by (simp add: text_lines_def length_concat)
  moreover have "text_lines excessive_lines = u ''SF:f'' @ [10] @ text_lines (da_lines 10002) @ u ''end_of_record'' @ [10]"
    by (simp add: text_lines_def excessive_lines_def)
  ultimately have "length (text_lines excessive_lines) \<le> 200000" by simp
  then show ?thesis using utf8_bytes_length [of "text_lines excessive_lines"] by linarith
qed

theorem test_report_and_observation_bounds:
  assumes "archives zip_open before_raw oversized_raw (plain_fixture BEFORE ''before'' INFO) (fixture oversized_report (u ''before'') INFO (\<lambda>m. m) None)"
    and "archives zip_open before_raw excessive_raw (plain_fixture BEFORE ''before'' INFO)
      (fixture (utf8_bytes (text_lines excessive_lines)) (u ''before'') INFO (\<lambda>m. m) None)"
  shows "refused zip_open before_raw oversized_raw (options None False False)"
    and "refused zip_open before_raw excessive_raw (options None False False)"
proof -
  show "refused zip_open before_raw oversized_raw (options None False False)"
  proof (rule after_refused [OF assms(1)], unfold default_report)
    fix r show "read_bundle zip_open (Inr oversized_raw) INFO (u ''LCOV'') \<noteq> Inr r"
      using oversized_not_accepted assms(1) by (simp add: archives_def)
  qed
  obtain e where "lcov (utf8_bytes (text_lines excessive_lines)) = Inl e" using excessive_report by blast
  from report_refused [OF assms(2) before_report union_small(3) this excessive_size]
  show "refused zip_open before_raw excessive_raw (options None False False)" .
qed

end
