(* ===== verification/Junit.thy ===== *)
theory Junit
  imports Lcov "HOL-Library.Multiset"
begin

section \<open>JUnit review (tools/junit_review.py)\<close>

text \<open>
  The report reader as the handlers \<open>start\<close>, \<open>end\<close>, \<open>text\<close> and \<open>forbidden\<close> over
  the events of the XML parser, the pairing of test cases by identity, the outputs and \<open>main\<close>.
  The XML parser (expat) is a parameter that turns bytes into the events it delivers, in order,
  and the error it stops with, if any. What it documents, that start and end tags nest, is a
  hypothesis of the theorems that need it.
\<close>

subsection \<open>The report reader\<close>

type_synonym attrs = "(ustr, ustr) dict"

datatype xml_event = StartTag ustr attrs nat | EndTag ustr | Chars ustr | Declaration

record diagnostic =
  dg_kind :: ustr
  dg_type :: ustr
  dg_message :: ustr
  dg_text :: ustr

record junit_case =
  jc_suite_path :: "ustr list"
  jc_classname :: ustr
  jc_name :: ustr
  jc_source_line :: nat
  jc_test_index :: nat
  jc_time :: ustr
  jc_file :: ustr
  jc_line :: ustr
  jc_status :: ustr
  jc_result :: ustr
  jc_diagnostics :: "diagnostic list"
  jc_outcome :: "ustr option"

text \<open>
  The variables the handlers share. The top of the stack is its head; \<open>js_diagnostic\<close> is the index,
  in the open case, of the diagnostic object the text handler extends.
\<close>

record junit_state =
  js_stack :: "ustr list"
  js_suites :: "ustr list"
  js_cases :: "junit_case list"
  js_current :: "junit_case option"
  js_diagnostic :: "nat option"

definition junit_start :: junit_state where
  "junit_start = \<lparr>js_stack = [], js_suites = [], js_cases = [], js_current = None, js_diagnostic = None\<rparr>"

text \<open>\<open>attrs.get(k, '')\<close>\<close>

definition attr :: "attrs \<Rightarrow> string \<Rightarrow> ustr" where
  "attr attrs k = (case dget attrs (u k) of None \<Rightarrow> [] | Some v \<Rightarrow> v)"

definition outcome_tags :: "ustr set" where
  "outcome_tags = {u ''failure'', u ''error'', u ''skipped''}"

definition parent_in :: "ustr list \<Rightarrow> string list \<Rightarrow> bool" where
  "parent_in stack tags = (case stack of [] \<Rightarrow> False | t # _ \<Rightarrow> t \<in> set (map u tags))"

definition open_case :: "junit_state \<Rightarrow> attrs \<Rightarrow> nat \<Rightarrow> junit_case res" where
  "open_case st attrs line =
     guard (dhas attrs (u ''name'')) (u ''testcase requires a name'')
     (let c = \<lparr>jc_suite_path = js_suites st, jc_classname = attr attrs ''classname'', jc_name = attr attrs ''name'',
            jc_source_line = line, jc_test_index = length (js_cases st) + 1, jc_time = attr attrs ''time'',
            jc_file = attr attrs ''file'', jc_line = attr attrs ''line'', jc_status = attr attrs ''status'',
            jc_result = attr attrs ''result'', jc_diagnostics = [], jc_outcome = None\<rparr>
      in guard (jc_status c \<in> {[], u ''run'', u ''notrun''} \<and>
           jc_result c \<in> {[], u ''completed'', u ''suppressed'', u ''skipped''}) (u ''unsupported testcase status/result'')
         (guard (\<not> (jc_status c = u ''notrun'' \<and> jc_result c = u ''completed''))
           (u ''contradictory testcase status/result'') (Inr c)))"

text \<open>What \<open>start\<close> checks and changes before it pushes the tag.\<close>

definition start_element :: "junit_state \<Rightarrow> ustr \<Rightarrow> attrs \<Rightarrow> nat \<Rightarrow> junit_state res" where
  "start_element st tag attrs line =
     (if js_stack st = [] then
        guard (tag = u ''testsuites'' \<or> tag = u ''testsuite'') (u ''JUnit root must be testsuites or testsuite'') (Inr st)
      else if tag = u ''testsuites'' then Inl (ValueError (u ''nested testsuites is unsupported''))
      else if tag = u ''testsuite'' then
        guard (parent_in (js_stack st) [''testsuites'', ''testsuite''] \<and> js_current st = None) (u ''misplaced testsuite'') (Inr st)
      else if tag = u ''testcase'' then
        guard (parent_in (js_stack st) [''testsuite''] \<and> js_current st = None) (u ''misplaced testcase'')
        (guard (length (js_cases st) < 10000) (u ''JUnit exceeds 10000 testcases'')
        (rbind (open_case st attrs line) (\<lambda>c. Inr (st\<lparr>js_current := Some c\<rparr>))))
      else if tag \<in> outcome_tags then
        (case js_current st of
           None \<Rightarrow> Inl (ValueError (u ''misplaced testcase outcome''))
         | Some c \<Rightarrow>
             guard (parent_in (js_stack st) [''testcase'']) (u ''misplaced testcase outcome'')
             (let d = \<lparr>dg_kind = tag, dg_type = attr attrs ''type'', dg_message = attr attrs ''message'', dg_text = []\<rparr>
              in Inr (st\<lparr>js_current := Some (c\<lparr>jc_diagnostics := jc_diagnostics c @ [d]\<rparr>),
                        js_diagnostic := Some (length (jc_diagnostics c))\<rparr>)))
      else if tag = u ''properties'' then
        guard (parent_in (js_stack st) [''testsuite'', ''testcase'']) (u ''misplaced properties'') (Inr st)
      else if tag = u ''property'' then
        guard (parent_in (js_stack st) [''properties'']) (u ''misplaced property'') (Inr st)
      else if tag = u ''system-out'' \<or> tag = u ''system-err'' then
        guard (parent_in (js_stack st) [''testsuite'', ''testcase'']) (u ''misplaced output'') (Inr st)
      else Inl (ValueError (u ''unsupported JUnit element: '' @ tag)))"

definition on_start :: "junit_state \<Rightarrow> ustr \<Rightarrow> attrs \<Rightarrow> nat \<Rightarrow> junit_state res" where
  "on_start st tag attrs line =
     guard (length (js_stack st) < 64) (u ''JUnit nesting exceeds 64'')
     (rbind (start_element st tag attrs line) (\<lambda>st1.
       Inr (st1\<lparr>js_suites := (if tag = u ''testsuite'' then js_suites st1 @ [attr attrs ''name''] else js_suites st1),
                js_stack := tag # js_stack st1\<rparr>)))"

definition case_kinds :: "junit_case \<Rightarrow> ustr set" where
  "case_kinds c = set (map dg_kind (jc_diagnostics c))"

definition case_skipped :: "junit_case \<Rightarrow> bool" where
  "case_skipped c \<longleftrightarrow> u ''skipped'' \<in> case_kinds c \<or> jc_status c = u ''notrun'' \<or>
     jc_result c \<in> {u ''suppressed'', u ''skipped''}"

definition close_case :: "junit_case \<Rightarrow> junit_case res" where
  "close_case c =
     (let kinds = case_kinds c; skipped = case_skipped c
      in guard (\<not> (skipped \<and> (u ''error'' \<in> kinds \<or> u ''failure'' \<in> kinds))) (u ''contradictory skipped/failing testcase'')
         (Inr (c\<lparr>jc_outcome := Some (if skipped then u ''skipped'' else if u ''error'' \<in> kinds then u ''error''
            else if u ''failure'' \<in> kinds then u ''failed'' else u ''passed'')\<rparr>)))"

text \<open>\<open>list.pop()\<close>\<close>

definition pop_last :: "'a list \<Rightarrow> 'a list res" where
  "pop_last xs = (if xs = [] then Inl IndexError else Inr (butlast xs))"

definition pop_top :: "'a list \<Rightarrow> 'a list res" where
  "pop_top xs = (case xs of [] \<Rightarrow> Inl IndexError | _ # ys \<Rightarrow> Inr ys)"

definition on_end :: "junit_state \<Rightarrow> ustr \<Rightarrow> junit_state res" where
  "on_end st tag =
     (let st0 = (if tag \<in> outcome_tags then st\<lparr>js_diagnostic := None\<rparr> else st)
      in rbind
           (if tag = u ''testcase'' then
              rbind (or_raise TypeError (js_current st0)) (\<lambda>c.
              rbind (close_case c) (\<lambda>c'.
                Inr (st0\<lparr>js_cases := js_cases st0 @ [c'], js_current := None\<rparr>)))
            else Inr st0) (\<lambda>st1.
         rbind (if tag = u ''testsuite'' then pop_last (js_suites st1) else Inr (js_suites st1)) (\<lambda>suites.
         rbind (pop_top (js_stack st1)) (\<lambda>stack.
           Inr (st1\<lparr>js_suites := suites, js_stack := stack\<rparr>)))))"

definition extend_text :: "ustr \<Rightarrow> nat \<Rightarrow> junit_case \<Rightarrow> junit_case" where
  "extend_text v i c =
     (if i < length (jc_diagnostics c) then
        c\<lparr>jc_diagnostics := (jc_diagnostics c)
            [i := (jc_diagnostics c ! i)\<lparr>dg_text := dg_text (jc_diagnostics c ! i) @ v\<rparr>]\<rparr>
      else c)"

definition on_text :: "junit_state \<Rightarrow> ustr \<Rightarrow> junit_state" where
  "on_text st v =
     (case js_diagnostic st of None \<Rightarrow> st
      | Some i \<Rightarrow> st\<lparr>js_current := map_option (extend_text v i) (js_current st)\<rparr>)"

fun on_event :: "junit_state \<Rightarrow> xml_event \<Rightarrow> junit_state res" where
  "on_event st (StartTag tag attrs line) = on_start st tag attrs line"
| "on_event st (EndTag tag) = on_end st tag"
| "on_event st (Chars v) = Inr (on_text st v)"
| "on_event st Declaration =
     Inl (ValueError (u ''DTD and entity declarations are unsupported in JUnit review''))"

type_synonym xml_parser = "bytes \<Rightarrow> xml_event list \<times> pyerr option"

definition junit :: "xml_parser \<Rightarrow> bytes \<Rightarrow> junit_case list res" where
  "junit expat data =
     guard (length data \<le> MAX_REPORT) (u ''JUnit report exceeds 1 MiB'')
     (case expat data of (events, failed) \<Rightarrow>
        rbind (fold_res on_event junit_start events) (\<lambda>st.
        rbind (case failed of None \<Rightarrow> Inr () | Some e \<Rightarrow> Inl e) (\<lambda>_.
        guard (js_stack st = []) (u ''incomplete JUnit report'') (Inr (js_cases st)))))"

subsection \<open>Comparison\<close>

type_synonym identity = "ustr list \<times> ustr \<times> ustr"

definition case_identity :: "junit_case \<Rightarrow> identity" where
  "case_identity c = (jc_suite_path c, jc_classname c, jc_name c)"

definition group_case :: "(identity, junit_case list) dict \<Rightarrow> junit_case \<Rightarrow> (identity, junit_case list) dict res" where
  "group_case groups c = Inr (dappend (case_identity c) c groups)"

definition grouped :: "junit_case list \<Rightarrow> (identity, junit_case list) dict" where
  "grouped cases = foldl (\<lambda>groups c. dappend (case_identity c) c groups) [] cases"

definition case_details :: "junit_case \<Rightarrow> ustr list \<times> diagnostic list" where
  "case_details c = ([jc_time c, jc_file c, jc_line c, jc_status c, jc_result c], jc_diagnostics c)"

definition case_status :: "junit_case list \<Rightarrow> junit_case list \<Rightarrow> ustr" where
  "case_status previous current =
     (if 1 < length previous \<or> 1 < length current then u ''ambiguous-identity''
      else if previous = [] then u ''added''
      else if current = [] then u ''removed''
      else if jc_outcome (previous ! 0) \<noteq> jc_outcome (current ! 0) then u ''changed-outcome''
      else if case_details (previous ! 0) \<noteq> case_details (current ! 0) then u ''changed-details''
      else u ''unchanged'')"

record junit_row =
  jr_suite_path :: "ustr list"
  jr_classname :: ustr
  jr_name :: ustr
  jr_status :: ustr
  jr_before :: "junit_case list"
  jr_after :: "junit_case list"

definition case_step ::
  "(identity, junit_case list) dict \<Rightarrow> (identity, junit_case list) dict \<Rightarrow> bool \<Rightarrow>
   junit_row list \<times> (ustr, nat) dict \<Rightarrow> identity \<Rightarrow> junit_row list \<times> (ustr, nat) dict" where
  "case_step old new changes_only acc ident =
     (case (acc, ident) of ((rows, counts), (path, cls, nm)) \<Rightarrow>
      let previous = dmembers old (path, cls, nm); current = dmembers new (path, cls, nm);
          status = case_status previous current;
          row = \<lparr>jr_suite_path = path, jr_classname = cls, jr_name = nm, jr_status = status,
                 jr_before = previous, jr_after = current\<rparr>
      in (if \<not> changes_only \<or> status \<noteq> u ''unchanged'' then rows @ [row] else rows, bump status counts))"

definition compare_cases :: "junit_case list \<Rightarrow> junit_case list \<Rightarrow> bool \<Rightarrow> junit_row list \<times> (ustr, nat) dict" where
  "compare_cases before after changes_only =
     (let old = grouped before; new = grouped after
      in foldl (case_step old new changes_only) ([], []) (sorted_union (dkeys old) (dkeys new)))"

subsection \<open>Output\<close>

definition diagnostic_json :: "diagnostic \<Rightarrow> json" where
  "diagnostic_json d = JObj
     [(u ''kind'', JStr (dg_kind d)), (u ''type'', JStr (dg_type d)), (u ''message'', JStr (dg_message d)),
      (u ''text'', JStr (dg_text d))]"

definition case_json :: "junit_case \<Rightarrow> json" where
  "case_json c = JObj
     ([(u ''suite_path'', JArr (map JStr (jc_suite_path c))), (u ''classname'', JStr (jc_classname c)),
       (u ''name'', JStr (jc_name c)), (u ''source_line'', JInt (int (jc_source_line c))),
       (u ''test_index'', JInt (int (jc_test_index c))), (u ''time'', JStr (jc_time c)), (u ''file'', JStr (jc_file c)),
       (u ''line'', JStr (jc_line c)), (u ''status'', JStr (jc_status c)), (u ''result'', JStr (jc_result c)),
       (u ''diagnostics'', JArr (map diagnostic_json (jc_diagnostics c)))] @
      (case jc_outcome c of None \<Rightarrow> [] | Some s \<Rightarrow> [(u ''outcome'', JStr s)]))"

definition junit_row_json :: "junit_row \<Rightarrow> json" where
  "junit_row_json row = JObj
     [(u ''suite_path'', JArr (map JStr (jr_suite_path row))), (u ''classname'', JStr (jr_classname row)),
      (u ''name'', JStr (jr_name row)), (u ''status'', JStr (jr_status row)),
      (u ''before'', JArr (map case_json (jr_before row))), (u ''after'', JArr (map case_json (jr_after row)))]"

definition junit_csv_header :: "ustr list" where
  "junit_csv_header = map u [''suite_path_json'', ''classname'', ''name'', ''status'', ''before_json'', ''after_json'']"

definition junit_csv_row :: "junit_row \<Rightarrow> ustr list" where
  "junit_csv_row row =
     [dumps plain_style (JArr (map JStr (jr_suite_path row))), jr_classname row, jr_name row, jr_status row,
      dumps plain_style (JArr (map case_json (jr_before row))), dumps plain_style (JArr (map case_json (jr_after row)))]"

definition junit_csv_output :: "junit_row list \<Rightarrow> ustr" where
  "junit_csv_output rows = csv_text (junit_csv_header # map junit_csv_row rows)"

definition junit_meaning :: ustr where
  "junit_meaning = u ''Reported outcomes matched by exact nested suite names, classname and name; duplicate identities are unpaired. Not execution, regression proof, acceptance or promotion.''"

definition testcase_count :: "junit_case list \<Rightarrow> (ustr \<times> json) list" where
  "testcase_count cases = [(u ''testcase_count'', JInt (int (length cases)))]"

definition junit_body ::
  "xml_parser \<Rightarrow> (bytes \<Rightarrow> zmember list res) \<Rightarrow> bytes res \<Rightarrow> bytes res \<Rightarrow> coverage_args \<Rightarrow> (bytes \<times> ustr) res" where
  "junit_body expat zip_open before_file after_file args =
     rbind (read_bundle zip_open before_file (ca_report args) (u ''JUnit'')) (\<lambda>(old_bytes, old_context).
     rbind (read_bundle zip_open after_file (after_report args) (u ''JUnit'')) (\<lambda>(new_bytes, new_context).
     rbind (junit expat old_bytes) (\<lambda>old.
     rbind (junit expat new_bytes) (\<lambda>new.
     let (rows, counts) = compare_cases old new (ca_changes_only args);
         context =
           [(u ''schema'', JStr (u ''moonfort.junit-review.v1'')),
            (u ''before'', JObj (dmerge old_context (testcase_count old))),
            (u ''after'', JObj (dmerge new_context (testcase_count new))),
            (u ''status_counts'', counts_json counts), (u ''row_count'', JInt (int (length rows))),
            (u ''changes_only'', JBool (ca_changes_only args)), (u ''meaning'', JStr junit_meaning)]
     in rbind (utf8_encode
          (if ca_csv args then junit_csv_output rows
           else pretty (JObj (dmerge context [(u ''rows'', JArr (map junit_row_json rows))])))) (\<lambda>output.
        guard (length output \<le> MAX_OUTPUT) (u ''comparison exceeds 16 MiB output limit'')
        (Inr (output, pretty (JObj (dmerge context
           [(u ''candidate_sha256'', JStr (sha output)),
            (u ''candidate_size_bytes'', JInt (int (length output)))])))))))))"

definition junit_error :: "pyerr \<Rightarrow> bool" where
  "junit_error e \<longleftrightarrow> review_error e \<or> e = ExpatError"

definition junit_main ::
  "xml_parser \<Rightarrow> (bytes \<Rightarrow> zmember list res) \<Rightarrow> bytes res \<Rightarrow> bytes res \<Rightarrow> coverage_args \<Rightarrow> outcome" where
  "junit_main expat zip_open before_file after_file args =
     run_command junit_error (junit_body expat zip_open before_file after_file args)"

subsection \<open>Well-nested events\<close>

text \<open>What an XML parser guarantees of the events it delivers: every end tag closes the innermost open element.\<close>

fun nested :: "ustr list \<Rightarrow> xml_event list \<Rightarrow> bool" where
  "nested stack [] = True"
| "nested stack (StartTag tag attrs line # events) = nested (tag # stack) events"
| "nested stack (EndTag tag # events) = (case stack of [] \<Rightarrow> False | t # rest \<Rightarrow> t = tag \<and> nested rest events)"
| "nested stack (Chars v # events) = nested stack events"
| "nested stack (Declaration # events) = nested stack events"

definition xml_parser_ok :: "xml_parser \<Rightarrow> bool" where
  "xml_parser_ok expat \<longleftrightarrow> (\<forall>data. nested [] (fst (expat data)) \<and>
     (case snd (expat data) of None \<Rightarrow> True | Some e \<Rightarrow> e = ExpatError))"

definition junit_inv :: "junit_state \<Rightarrow> bool" where
  "junit_inv st \<longleftrightarrow>
     length (js_suites st) = count_list (js_stack st) (u ''testsuite'') \<and>
     count_list (js_stack st) (u ''testcase'') = (if js_current st = None then 0 else 1) \<and>
     (js_diagnostic st \<noteq> None \<longleftrightarrow> js_stack st \<noteq> [] \<and> hd (js_stack st) \<in> outcome_tags) \<and>
     (\<forall>t \<in> set (tl (js_stack st)). t \<notin> outcome_tags) \<and>
     (\<forall>i. js_diagnostic st = Some i \<longrightarrow> (\<exists>c. js_current st = Some c \<and> Suc i = length (jc_diagnostics c))) \<and>
     length (js_cases st) + (if js_current st = None then 0 else 1) \<le> 10000 \<and>
     map jc_test_index (js_cases st) = [1..<Suc (length (js_cases st))] \<and>
     (\<forall>c. js_current st = Some c \<longrightarrow> jc_test_index c = Suc (length (js_cases st)) \<and> jc_outcome c = None) \<and>
     (\<forall>c \<in> set (js_cases st). \<exists>c0. close_case c0 = Inr c)"

lemma junit_inv_start: "junit_inv junit_start"
  by (simp add: junit_inv_def junit_start_def)

lemma tags_distinct [simp]:
  "u ''testcase'' \<notin> outcome_tags" "u ''testsuite'' \<notin> outcome_tags" "u ''testsuites'' \<notin> outcome_tags"
  "u ''properties'' \<notin> outcome_tags" "u ''property'' \<notin> outcome_tags"
  "u ''system-out'' \<notin> outcome_tags" "u ''system-err'' \<notin> outcome_tags"
  by (simp_all add: outcome_tags_def)

lemma parent_in_simps [simp]:
  "\<not> parent_in [] tags" "parent_in (t # ts) tags \<longleftrightarrow> t \<in> u ` set tags"
  by (simp_all add: parent_in_def)

lemma on_startE:
  assumes "on_start st tag attrs line = Inr st'"
  obtains
    (testcase) c where "tag = u ''testcase''" "parent_in (js_stack st) [''testsuite'']" "js_current st = None"
      "length (js_cases st) < 10000" "open_case st attrs line = Inr c"
      "st' = st\<lparr>js_current := Some c, js_stack := tag # js_stack st\<rparr>"
  | (outcome) c d where "tag \<in> outcome_tags" "parent_in (js_stack st) [''testcase'']" "js_current st = Some c"
      "dg_kind d = tag"
      "st' = st\<lparr>js_current := Some (c\<lparr>jc_diagnostics := jc_diagnostics c @ [d]\<rparr>),
                js_diagnostic := Some (length (jc_diagnostics c)), js_stack := tag # js_stack st\<rparr>"
  | (suite) "tag = u ''testsuite''" "js_stack st = [] \<or> parent_in (js_stack st) [''testsuites'', ''testsuite'']"
      "js_stack st = [] \<or> js_current st = None"
      "st' = st\<lparr>js_suites := js_suites st @ [attr attrs ''name''], js_stack := tag # js_stack st\<rparr>"
  | (other) "tag \<noteq> u ''testcase''" "tag \<noteq> u ''testsuite''" "tag \<notin> outcome_tags"
      "js_stack st = [] \<or> hd (js_stack st) \<notin> outcome_tags"
      "st' = st\<lparr>js_stack := tag # js_stack st\<rparr>"
proof -
  from assms obtain st1 where el: "start_element st tag attrs line = Inr st1"
    and st': "st' = st1\<lparr>js_suites := (if tag = u ''testsuite'' then js_suites st1 @ [attr attrs ''name''] else js_suites st1),
                js_stack := tag # js_stack st1\<rparr>"
    by (auto simp: on_start_def res_simps)
  consider "js_stack st = []" | "js_stack st \<noteq> []" "tag = u ''testsuite''" | "js_stack st \<noteq> []" "tag = u ''testcase''"
    | "js_stack st \<noteq> []" "tag \<in> outcome_tags"
    | "js_stack st \<noteq> []" "tag \<noteq> u ''testsuite''" "tag \<noteq> u ''testcase''" "tag \<notin> outcome_tags" by blast
  then show thesis
  proof cases
    case 1
    with el have "st1 = st" "tag = u ''testsuites'' \<or> tag = u ''testsuite''" by (auto simp: start_element_def res_simps)
    with 1 st' show thesis by (cases "tag = u ''testsuite''") (auto intro: suite other)
  next
    case 2
    with el st' show thesis by (intro suite) (auto simp: start_element_def res_simps)
  next
    case 3
    with el st' show thesis by (auto simp: start_element_def res_simps intro: testcase)
  next
    case 4
    then have "tag \<noteq> u ''testsuites''" "tag \<noteq> u ''testsuite''" "tag \<noteq> u ''testcase''" by auto
    with 4 el st' show thesis
      by (auto simp: start_element_def res_simps Let_def split: option.splits intro!: outcome)
  next
    case 5
    obtain p ps where p: "js_stack st = p # ps" using 5(1) by (cases "js_stack st") auto
    have "st1 = st \<and> (p = u ''testsuite'' \<or> p = u ''testcase'' \<or> p = u ''properties'')"
      using 5 el p by (auto simp: start_element_def res_simps split: if_splits)
    with 5 st' p show thesis by (intro other) auto
  qed
qed

lemma open_case_Inr:
  "open_case st attrs line = Inr c \<Longrightarrow> dhas attrs (u ''name'') \<and>
     c = \<lparr>jc_suite_path = js_suites st, jc_classname = attr attrs ''classname'', jc_name = attr attrs ''name'',
            jc_source_line = line, jc_test_index = length (js_cases st) + 1, jc_time = attr attrs ''time'',
            jc_file = attr attrs ''file'', jc_line = attr attrs ''line'', jc_status = attr attrs ''status'',
            jc_result = attr attrs ''result'', jc_diagnostics = [], jc_outcome = None\<rparr>"
  by (auto simp: open_case_def res_simps Let_def)

lemma on_start_inv:
  assumes "on_start st tag attrs line = Inr st'" "junit_inv st"
  shows "junit_inv st' \<and> js_stack st' = tag # js_stack st"
  using assms(1)
proof (cases rule: on_startE)
  case (testcase c)
  then have "js_stack st \<noteq> []" "hd (js_stack st) \<notin> outcome_tags" by (auto simp: parent_in_def split: list.splits)
  with testcase assms(2) open_case_Inr [OF testcase(5)] show ?thesis
    by (cases "js_stack st") (auto simp: junit_inv_def)
next
  case (outcome c d)
  then have "tag \<noteq> u ''testsuite''" "tag \<noteq> u ''testcase''" by auto
  with outcome assms(2) show ?thesis by (cases "js_stack st") (auto simp: junit_inv_def)
next
  case suite
  then have "js_stack st = [] \<or> hd (js_stack st) \<notin> outcome_tags" by (auto simp: parent_in_def split: list.splits)
  with suite assms(2) show ?thesis by (cases "js_stack st") (auto simp: junit_inv_def)
next
  case other
  with assms(2) show ?thesis by (cases "js_stack st") (auto simp: junit_inv_def)
qed

text \<open>An end tag that closes the innermost element.\<close>

lemma on_endE:
  assumes "junit_inv st" "js_stack st = tag # rest"
  obtains
    (testcase) c where "tag = u ''testcase''" "js_current st = Some c"
      "on_end st tag = rbind (close_case c) (\<lambda>c'. Inr (st\<lparr>js_cases := js_cases st @ [c'], js_current := None, js_stack := rest\<rparr>))"
  | (outcome) "tag \<in> outcome_tags" "on_end st tag = Inr (st\<lparr>js_diagnostic := None, js_stack := rest\<rparr>)"
  | (suite) "tag = u ''testsuite''" "js_suites st \<noteq> []"
      "on_end st tag = Inr (st\<lparr>js_suites := butlast (js_suites st), js_stack := rest\<rparr>)"
  | (other) "tag \<noteq> u ''testcase''" "tag \<noteq> u ''testsuite''" "tag \<notin> outcome_tags"
      "on_end st tag = Inr (st\<lparr>js_stack := rest\<rparr>)"
proof -
  consider "tag = u ''testcase''" | "tag \<in> outcome_tags" | "tag = u ''testsuite''"
    | "tag \<noteq> u ''testcase''" "tag \<notin> outcome_tags" "tag \<noteq> u ''testsuite''" by blast
  then show thesis
  proof cases
    case 1
    with assms obtain c where "js_current st = Some c" by (auto simp: junit_inv_def split: if_splits)
    with 1 assms(2) show thesis
      by (intro testcase) (simp_all add: on_end_def Let_def pop_top_def rbind_assoc)
  next
    case 2
    then have "tag \<noteq> u ''testsuite''" "tag \<noteq> u ''testcase''" by auto
    with 2 assms(2) show thesis by (intro outcome) (simp_all add: on_end_def Let_def pop_top_def)
  next
    case 3
    with assms have "js_suites st \<noteq> []" by (auto simp: junit_inv_def)
    with 3 assms(2) show thesis by (intro suite) (simp_all add: on_end_def Let_def pop_top_def pop_last_def)
  next
    case 4
    with assms(2) show thesis by (intro other) (simp_all add: on_end_def Let_def pop_top_def)
  qed
qed

lemma close_case_Inr:
  "close_case c = Inr c' \<Longrightarrow> \<exists>s. c' = c\<lparr>jc_outcome := Some s\<rparr>"
  by (auto simp: close_case_def Let_def res_simps)

lemma on_end_inv:
  assumes "on_end st tag = Inr st'" "junit_inv st" "js_stack st = tag # rest"
  shows "junit_inv st' \<and> js_stack st' = rest"
  using assms(2,3)
proof (cases rule: on_endE)
  case (testcase c)
  from assms(1) have "rbind (close_case c)
      (\<lambda>c'. Inr (st\<lparr>js_cases := js_cases st @ [c'], js_current := None, js_stack := rest\<rparr>)) = Inr st'"
    unfolding testcase(3) .
  then obtain c' where c': "close_case c = Inr c'"
    and st': "st' = st\<lparr>js_cases := js_cases st @ [c'], js_current := None, js_stack := rest\<rparr>"
    by (auto simp: res_simps)
  obtain s where "c' = c\<lparr>jc_outcome := Some s\<rparr>" using close_case_Inr [OF c'] by blast
  then have index: "jc_test_index c' = jc_test_index c" by simp
  have diag: "js_diagnostic st = None" using assms(2,3) testcase(1) by (auto simp: junit_inv_def)
  have "rest = [] \<or> hd rest \<notin> outcome_tags" using assms(2,3) by (cases rest) (auto simp: junit_inv_def)
  moreover have "\<forall>t \<in> set (tl rest). t \<notin> outcome_tags" using assms(2,3) by (cases rest) (auto simp: junit_inv_def)
  ultimately show ?thesis using st' index diag assms(2,3) testcase(1,2) c'
    by (auto simp: junit_inv_def)
next
  case outcome
  then have "tag \<noteq> u ''testsuite''" "tag \<noteq> u ''testcase''" by auto
  moreover have "rest = [] \<or> hd rest \<notin> outcome_tags" using assms(2,3) by (cases rest) (auto simp: junit_inv_def)
  moreover have "\<forall>t \<in> set (tl rest). t \<notin> outcome_tags" using assms(2,3) by (cases rest) (auto simp: junit_inv_def)
  ultimately show ?thesis using outcome assms by (auto simp: junit_inv_def)
next
  case suite
  have "js_diagnostic st = None" using assms(2,3) suite(1) by (auto simp: junit_inv_def)
  moreover have "rest = [] \<or> hd rest \<notin> outcome_tags" using assms(2,3) by (cases rest) (auto simp: junit_inv_def)
  moreover have "\<forall>t \<in> set (tl rest). t \<notin> outcome_tags" using assms(2,3) by (cases rest) (auto simp: junit_inv_def)
  ultimately show ?thesis using suite assms by (auto simp: junit_inv_def)
next
  case other
  have "js_diagnostic st = None" using assms(2,3) other(3) by (auto simp: junit_inv_def)
  moreover have "rest = [] \<or> hd rest \<notin> outcome_tags" using assms(2,3) by (cases rest) (auto simp: junit_inv_def)
  moreover have "\<forall>t \<in> set (tl rest). t \<notin> outcome_tags" using assms(2,3) by (cases rest) (auto simp: junit_inv_def)
  ultimately show ?thesis using other assms by (auto simp: junit_inv_def)
qed

lemma extend_text_keeps [simp]:
  "jc_outcome (extend_text v i c) = jc_outcome c" "jc_test_index (extend_text v i c) = jc_test_index c"
  "length (jc_diagnostics (extend_text v i c)) = length (jc_diagnostics c)"
  "map dg_kind (jc_diagnostics (extend_text v i c)) = map dg_kind (jc_diagnostics c)"
  by (auto simp: extend_text_def map_update intro: list_update_same_conv [THEN iffD2])

lemma on_text_inv: "junit_inv st \<Longrightarrow> junit_inv (on_text st v) \<and> js_stack (on_text st v) = js_stack st"
  by (cases "js_diagnostic st") (auto simp: on_text_def junit_inv_def)

text \<open>One event, as the parser's nesting allows it.\<close>

lemma on_event_inv:
  assumes "on_event st ev = Inr st'" "junit_inv st" "nested (js_stack st) (ev # events)"
  shows "junit_inv st' \<and> nested (js_stack st') events"
proof (cases ev)
  case (StartTag tag attrs line)
  with assms on_start_inv show ?thesis by fastforce
next
  case (EndTag tag)
  with assms(3) obtain rest where "js_stack st = tag # rest" "nested rest events"
    by (auto split: list.splits)
  with EndTag assms on_end_inv show ?thesis by fastforce
next
  case (Chars v)
  with assms on_text_inv show ?thesis by fastforce
qed (use assms in auto)

lemma on_start_raises: "raises_only is_value_error (on_start st tag attrs line)"
  unfolding on_start_def start_element_def open_case_def Let_def
  by (auto split: option.splits intro!: raises)

lemma close_case_raises: "raises_only is_value_error (close_case c)"
  unfolding close_case_def Let_def by (auto intro!: raises)

lemma on_event_raises:
  assumes "junit_inv st" "nested (js_stack st) (ev # events)"
  shows "raises_only is_value_error (on_event st ev)"
proof (cases ev)
  case (EndTag tag)
  with assms(2) obtain rest where stack: "js_stack st = tag # rest" by (auto split: list.splits)
  have "raises_only is_value_error (on_end st tag)"
    using assms(1) stack by (cases rule: on_endE) (auto intro!: raises close_case_raises)
  with EndTag show ?thesis by simp
qed (simp_all add: on_start_raises)

lemma junit_run:
  "junit_inv st \<Longrightarrow> nested (js_stack st) events \<Longrightarrow>
     raises_only is_value_error (fold_res on_event st events) \<and>
     (\<forall>st'. fold_res on_event st events = Inr st' \<longrightarrow> junit_inv st')"
proof (induction events arbitrary: st)
  case Nil
  then show ?case by simp
next
  case (Cons ev events)
  show ?case
  proof (cases "on_event st ev")
    case (Inl e)
    with on_event_raises [OF Cons.prems] show ?thesis by simp
  next
    case (Inr st1)
    with Cons on_event_inv [OF Inr Cons.prems] show ?thesis by auto
  qed
qed

subsection \<open>The reader against a reference reading\<close>

text \<open>
  The reference reading keeps only the names of the open suites and lists one entry per
  \<open>testcase\<close> element, and the outcome elements, in document order.
\<close>

type_synonym case_head = "ustr list \<times> ustr \<times> ustr \<times> nat \<times> ustr list"

definition case_head :: "junit_case \<Rightarrow> case_head" where
  "case_head c = (jc_suite_path c, jc_classname c, jc_name c, jc_source_line c,
     [jc_time c, jc_file c, jc_line c, jc_status c, jc_result c])"

definition element_head :: "ustr list \<Rightarrow> attrs \<Rightarrow> nat \<Rightarrow> case_head" where
  "element_head suites attrs line = (suites, attr attrs ''classname'', attr attrs ''name'', line,
     [attr attrs ''time'', attr attrs ''file'', attr attrs ''line'', attr attrs ''status'', attr attrs ''result''])"

fun reported_cases :: "ustr list \<Rightarrow> xml_event list \<Rightarrow> case_head list" where
  "reported_cases suites [] = []"
| "reported_cases suites (StartTag tag attrs line # events) =
     (if tag = u ''testsuite'' then reported_cases (suites @ [attr attrs ''name'']) events
      else if tag = u ''testcase'' then element_head suites attrs line # reported_cases suites events
      else reported_cases suites events)"
| "reported_cases suites (EndTag tag # events) =
     reported_cases (if tag = u ''testsuite'' then butlast suites else suites) events"
| "reported_cases suites (_ # events) = reported_cases suites events"

fun reported_outcomes :: "xml_event list \<Rightarrow> ustr list" where
  "reported_outcomes [] = []"
| "reported_outcomes (StartTag tag attrs line # events) =
     (if tag \<in> outcome_tags then tag # reported_outcomes events else reported_outcomes events)"
| "reported_outcomes (_ # events) = reported_outcomes events"

definition all_cases :: "junit_state \<Rightarrow> junit_case list" where
  "all_cases st = js_cases st @ (case js_current st of None \<Rightarrow> [] | Some c \<Rightarrow> [c])"

definition all_kinds :: "junit_state \<Rightarrow> ustr list" where
  "all_kinds st = concat (map (\<lambda>c. map dg_kind (jc_diagnostics c)) (all_cases st))"

lemma case_head_extend [simp]: "case_head (extend_text v i c) = case_head c"
  by (simp add: case_head_def extend_text_def)

lemma on_start_reads:
  assumes "on_start st tag attrs line = Inr st'"
  shows "map case_head (all_cases st) @ reported_cases (js_suites st) (StartTag tag attrs line # events) =
      map case_head (all_cases st') @ reported_cases (js_suites st') events \<and>
    all_kinds st' = all_kinds st @ reported_outcomes [StartTag tag attrs line]"
  using assms
proof (cases rule: on_startE)
  case (testcase c)
  have "case_head c = element_head (js_suites st) attrs line" "jc_diagnostics c = []"
    using open_case_Inr [OF testcase(5)] by (simp_all add: case_head_def element_head_def)
  with testcase show ?thesis by (simp add: all_cases_def all_kinds_def)
next
  case (outcome c d)
  then have "tag \<noteq> u ''testsuite''" "tag \<noteq> u ''testcase''" by auto
  with outcome show ?thesis by (simp add: all_cases_def all_kinds_def case_head_def)
next
  case suite
  then show ?thesis by (simp add: all_cases_def all_kinds_def)
next
  case other
  then show ?thesis by (simp add: all_cases_def all_kinds_def)
qed

lemma on_end_reads:
  assumes "on_end st tag = Inr st'" "junit_inv st" "js_stack st = tag # rest"
  shows "map case_head (all_cases st') = map case_head (all_cases st) \<and> all_kinds st' = all_kinds st \<and>
    js_suites st' = (if tag = u ''testsuite'' then butlast (js_suites st) else js_suites st)"
  using assms(2,3)
proof (cases rule: on_endE)
  case (testcase c)
  from assms(1) have "rbind (close_case c)
      (\<lambda>c'. Inr (st\<lparr>js_cases := js_cases st @ [c'], js_current := None, js_stack := rest\<rparr>)) = Inr st'"
    unfolding testcase(3) .
  then obtain c' where c': "close_case c = Inr c'"
    and st': "st' = st\<lparr>js_cases := js_cases st @ [c'], js_current := None, js_stack := rest\<rparr>"
    by (auto simp: res_simps)
  from close_case_Inr [OF c'] have "case_head c' = case_head c" "jc_diagnostics c' = jc_diagnostics c"
    by (auto simp: case_head_def)
  with st' testcase(1,2) show ?thesis by (simp add: all_cases_def all_kinds_def)
qed (use assms(1) in \<open>auto simp: all_cases_def all_kinds_def\<close>)

lemma on_text_reads:
  "map case_head (all_cases (on_text st v)) = map case_head (all_cases st) \<and> all_kinds (on_text st v) = all_kinds st \<and>
   js_suites (on_text st v) = js_suites st"
  by (auto simp: on_text_def all_cases_def all_kinds_def split: option.splits)

lemma junit_run_reads:
  assumes "fold_res on_event st events = Inr st'" "junit_inv st" "nested (js_stack st) events"
  shows "map case_head (all_cases st') = map case_head (all_cases st) @ reported_cases (js_suites st) events \<and>
    all_kinds st' = all_kinds st @ reported_outcomes events"
  using assms
proof (induction events arbitrary: st)
  case Nil
  then show ?case by simp
next
  case (Cons ev events)
  from Cons.prems(1) obtain st1 where one: "on_event st ev = Inr st1" and run: "fold_res on_event st1 events = Inr st'"
    by (auto simp: res_simps)
  note inv = on_event_inv [OF one Cons.prems(2,3)]
  note IH = Cons.IH [OF run inv [THEN conjunct1] inv [THEN conjunct2]]
  show ?case
  proof (cases ev)
    case (StartTag tag attrs line)
    with one have "on_start st tag attrs line = Inr st1" by simp
    from on_start_reads [OF this, of events] IH StartTag show ?thesis by simp
  next
    case (EndTag tag)
    with Cons.prems(3) obtain rest where stack: "js_stack st = tag # rest" by (auto split: list.splits)
    from EndTag one have "on_end st tag = Inr st1" by simp
    from on_end_reads [OF this Cons.prems(2) stack] IH EndTag show ?thesis by simp
  next
    case (Chars v)
    with one on_text_reads [of st v] IH show ?thesis by auto
  next
    case Declaration
    with one show ?thesis by simp
  qed
qed

lemma junit_Inr:
  assumes "junit expat data = Inr cases" "xml_parser_ok expat"
  obtains st where "fold_res on_event junit_start (fst (expat data)) = Inr st" "junit_inv st" "js_cases st = cases"
    "js_current st = None" "snd (expat data) = None" "length data \<le> MAX_REPORT"
proof -
  from assms(1) obtain st where run: "fold_res on_event junit_start (fst (expat data)) = Inr st"
    and st: "js_cases st = cases" "js_stack st = []" and ok: "snd (expat data) = None" "length data \<le> MAX_REPORT"
    by (auto simp: junit_def res_simps split: prod.splits option.splits)
  have "nested (js_stack junit_start) (fst (expat data))"
    using assms(2) by (simp add: xml_parser_ok_def junit_start_def)
  with run junit_run [OF junit_inv_start] have inv: "junit_inv st" by blast
  with st(2) have "js_current st = None" by (auto simp: junit_inv_def split: if_splits)
  then show thesis using that [OF run inv st(1) _ ok] by blast
qed

subsection \<open>The comparison\<close>

interpretation case_groups: collector group_case dmembers case_identity "\<lambda>c. c"
  by unfold_locales (auto simp: group_case_def dmembers_dappend split: if_splits)

lemma grouped_run: "fold_res group_case d cases = Inr (foldl (\<lambda>groups c. dappend (case_identity c) c groups) d cases)"
  by (induction cases arbitrary: d) (simp_all add: group_case_def)

lemma grouped_members: "dmembers (grouped cases) k = filter (\<lambda>c. case_identity c = k) cases"
  using case_groups.run_members [OF grouped_run, of "[]" cases k]
  by (simp add: grouped_def eq_commute)

lemma grouped_keys: "set (dkeys (grouped cases)) = case_identity ` set cases"
proof -
  have "set (dkeys (foldl (\<lambda>groups c. dappend (case_identity c) c groups) d cases)) = set (dkeys d) \<union> case_identity ` set cases" for d
    by (induction cases arbitrary: d) (auto simp: dkeys_dappend)
  then show ?thesis by (simp add: grouped_def)
qed

definition case_row :: "(identity, junit_case list) dict \<Rightarrow> (identity, junit_case list) dict \<Rightarrow> identity \<Rightarrow> junit_row" where
  "case_row old new k = \<lparr>jr_suite_path = fst k, jr_classname = fst (snd k), jr_name = snd (snd k),
     jr_status = case_status (dmembers old k) (dmembers new k), jr_before = dmembers old k, jr_after = dmembers new k\<rparr>"

definition row_identity :: "junit_row \<Rightarrow> identity" where
  "row_identity row = (jr_suite_path row, jr_classname row, jr_name row)"

lemma row_identity_case_row [simp]: "row_identity (case_row old new k) = k"
  by (simp add: row_identity_def case_row_def)

lemma case_steps:
  "foldl (case_step old new changes_only) (rows, counts) ks =
     (rows @ filter (\<lambda>row. \<not> changes_only \<or> jr_status row \<noteq> u ''unchanged'') (map (case_row old new) ks),
      foldl (\<lambda>d k. bump k d) counts (map jr_status (map (case_row old new) ks)))"
proof (induction ks arbitrary: rows counts)
  case Nil
  then show ?case by simp
next
  case (Cons k ks)
  obtain path cls nm where k: "k = (path, cls, nm)" by (cases k) auto
  have "case_step old new changes_only (rows, counts) k =
      (let row = case_row old new k in (if \<not> changes_only \<or> jr_status row \<noteq> u ''unchanged'' then rows @ [row] else rows,
        bump (jr_status row) counts))"
    by (simp add: case_step_def case_row_def k Let_def)
  with Cons.IH show ?case by (simp add: Let_def)
qed

lemma compare_cases_eq:
  "compare_cases before after changes_only =
     (let old = grouped before; new = grouped after;
          rows = map (case_row old new) (sorted_union (dkeys old) (dkeys new))
      in (filter (\<lambda>row. \<not> changes_only \<or> jr_status row \<noteq> u ''unchanged'') rows, tally (map jr_status rows)))"
  by (simp add: compare_cases_def case_steps tally_def Let_def)

definition case_statuses ::
  "(identity, junit_case list) dict \<Rightarrow> (identity, junit_case list) dict \<Rightarrow> (identity \<times> ustr) list" where
  "case_statuses old new =
     map (\<lambda>k. (k, jr_status (case_row old new k))) (sorted_union (dkeys old) (dkeys new))"

definition side :: "junit_case list option \<Rightarrow> junit_case list" where
  "side v = (case v of None \<Rightarrow> [] | Some cs \<Rightarrow> cs)"

interpretation outcomes: sided_diff case_statuses "\<lambda>v w. case_status (side v) (side w)"
  by unfold_locales (simp add: case_statuses_def case_row_def dmembers_def side_def)

lemma compare_cases_statuses:
  "map (\<lambda>row. (row_identity row, jr_status row)) (fst (compare_cases before after False)) =
     case_statuses (grouped before) (grouped after)"
  by (simp add: compare_cases_eq Let_def case_statuses_def comp_def)

lemma mset_by_key:
  "distinct ks \<Longrightarrow> mset (concat (map (\<lambda>k. filter (\<lambda>c. f c = k) cs) ks)) = mset (filter (\<lambda>c. f c \<in> set ks) cs)"
proof (induction ks)
  case Nil
  then show ?case by simp
next
  case (Cons k ks)
  then have "mset (filter (\<lambda>c. f c = k) xs) + mset (filter (\<lambda>c. f c \<in> set ks) xs) = mset (filter (\<lambda>c. f c \<in> set (k # ks)) xs)" for xs
    by (induction xs) auto
  with Cons show ?case by simp
qed

lemma close_case_outcome:
  assumes "close_case c0 = Inr c"
  shows "(jc_outcome c = Some (u ''skipped'') \<longleftrightarrow> case_skipped c) \<and>
    (case_skipped c \<longrightarrow> u ''error'' \<notin> case_kinds c \<and> u ''failure'' \<notin> case_kinds c) \<and>
    (jc_outcome c = Some (u ''error'') \<longleftrightarrow> u ''error'' \<in> case_kinds c) \<and>
    (jc_outcome c = Some (u ''failed'') \<longleftrightarrow> u ''failure'' \<in> case_kinds c \<and> u ''error'' \<notin> case_kinds c) \<and>
    (jc_outcome c = Some (u ''passed'') \<longleftrightarrow> \<not> case_skipped c \<and> case_kinds c \<inter> outcome_tags = {}) \<and> jc_outcome c \<noteq> None"
proof -
  have same: "case_kinds c = case_kinds c0" "case_skipped c = case_skipped c0"
    using close_case_Inr [OF assms] by (auto simp: case_kinds_def case_skipped_def)
  have out: "jc_outcome c = Some (if case_skipped c0 then u ''skipped'' else if u ''error'' \<in> case_kinds c0 then u ''error''
            else if u ''failure'' \<in> case_kinds c0 then u ''failed'' else u ''passed'')"
    and ok: "\<not> (case_skipped c0 \<and> (u ''error'' \<in> case_kinds c0 \<or> u ''failure'' \<in> case_kinds c0))"
    using assms by (auto simp: close_case_def Let_def res_simps)
  have skip: "u ''skipped'' \<in> case_kinds c0 \<Longrightarrow> case_skipped c0" by (simp add: case_skipped_def)
  show ?thesis unfolding same out using ok skip by (auto simp: outcome_tags_def)
qed

lemma junit_only_raises:
  assumes "xml_parser_ok expat"
  shows "raises_only (\<lambda>e. is_value_error e \<or> e = ExpatError) (junit expat data)"
proof -
  have nest: "nested (js_stack junit_start) (fst (expat data))"
    using assms by (simp add: xml_parser_ok_def junit_start_def)
  have run: "raises_only is_value_error (fold_res on_event junit_start (fst (expat data)))"
    using junit_run [OF junit_inv_start nest] by blast
  have failed: "snd (expat data) = None \<or> snd (expat data) = Some ExpatError"
    using assms by (cases "snd (expat data)") (auto simp: xml_parser_ok_def dest: spec [of _ data])
  show ?thesis unfolding junit_def
  proof (intro raises_guard raises_prod raises_rbind)
    fix events failed' assume p: "expat data = (events, failed')"
    with run show "raises_only (\<lambda>e. is_value_error e \<or> e = ExpatError) (fold_res on_event junit_start events)"
      by (auto intro: raises_only_weaken)
    from p failed show "raises_only (\<lambda>e. is_value_error e \<or> e = ExpatError)
        (case failed' of None \<Rightarrow> Inr () | Some e \<Rightarrow> Inl e)" by auto
  qed simp_all
qed

lemma junit_error_simps [simp]: "review_error e \<Longrightarrow> junit_error e" "is_value_error e \<Longrightarrow> junit_error e" "junit_error ExpatError"
  by (simp_all add: junit_error_def)

lemma junit_raises: "xml_parser_ok expat \<Longrightarrow> raises_only junit_error (junit expat data)"
  by (erule raises_only_weaken [OF junit_only_raises]) auto

subsection \<open>Properties\<close>

text \<open>A parser that reports one suite with a failing case, whatever the bytes, and a report without a case.\<close>

definition sample_events :: "xml_event list" where
  "sample_events =
     [StartTag (u ''testsuite'') [(u ''name'', u ''s'')] 1, StartTag (u ''testcase'') [(u ''name'', u ''t'')] 2,
      StartTag (u ''failure'') [(u ''message'', u ''m'')] 3, Chars (u ''ab''), Chars (u ''c''), EndTag (u ''failure''),
      EndTag (u ''testcase''), EndTag (u ''testsuite'')]"

definition sample_parser :: xml_parser where
  "sample_parser = (\<lambda>data. (sample_events, None))"

definition sample_case :: junit_case where
  "sample_case = \<lparr>jc_suite_path = [u ''s''], jc_classname = [], jc_name = u ''t'', jc_source_line = 2, jc_test_index = 1,
     jc_time = [], jc_file = [], jc_line = [], jc_status = [], jc_result = [],
     jc_diagnostics = [\<lparr>dg_kind = u ''failure'', dg_type = [], dg_message = u ''m'', dg_text = u ''abc''\<rparr>],
     jc_outcome = Some (u ''failed'')\<rparr>"

lemma sample_parser_ok: "xml_parser_ok sample_parser"
  by (simp add: xml_parser_ok_def sample_parser_def sample_events_def)

lemma sample_junit: "junit sample_parser [] = Inr [sample_case]"
proof -
  have "fold_res on_event junit_start sample_events =
      Inr \<lparr>js_stack = [], js_suites = [], js_cases = [sample_case], js_current = None, js_diagnostic = None\<rparr>"
    by (simp add: sample_events_def junit_start_def on_start_def start_element_def open_case_def attr_def on_text_def
        extend_text_def on_end_def close_case_def case_kinds_def case_skipped_def outcome_tags_def pop_last_def pop_top_def
        dhas_def Let_def sample_case_def)
       (simp add: u_def)
  then show ?thesis by (simp add: junit_def sample_parser_def MAX_REPORT_def)
qed

text \<open>Over any events an XML parser can deliver, the handlers raise nothing but the refusals of the source
  (and the parser's own error): no pop from an empty list, no access to an absent test case.\<close>

theorem junit_errors:
  assumes "xml_parser_ok expat"
  shows "raises_only (\<lambda>e. is_value_error e \<or> e = ExpatError) (junit expat data)"
  using assms by (rule junit_only_raises)

theorem junit_errors_witness: "raises_only (\<lambda>e. is_value_error e \<or> e = ExpatError) (junit sample_parser [])"
  by (rule junit_errors [OF sample_parser_ok])

lemma junit_exact:
  assumes "junit expat data = Inr cases" "xml_parser_ok expat"
  shows "map case_head cases = reported_cases [] (fst (expat data)) \<and>
    concat (map (\<lambda>c. map dg_kind (jc_diagnostics c)) cases) = reported_outcomes (fst (expat data)) \<and>
    map jc_test_index cases = [1..<Suc (length cases)] \<and> length cases \<le> 10000"
proof -
  obtain st where run: "fold_res on_event junit_start (fst (expat data)) = Inr st" and inv: "junit_inv st"
    and st: "js_cases st = cases" "js_current st = None"
    using junit_Inr [OF assms] by metis
  have "nested (js_stack junit_start) (fst (expat data))" using assms(2) by (simp add: xml_parser_ok_def junit_start_def)
  from junit_run_reads [OF run junit_inv_start this] inv st show ?thesis
    by (simp add: all_cases_def all_kinds_def junit_start_def junit_inv_def)
qed

text \<open>C11: reading an accepted report loses, invents and reorders nothing: there is one case per \<open>testcase\<close>
  element, in document order and numbered from 1, with the names of the suites it stands in and its
  attributes, at most 10000 of them; and their diagnostics are exactly the outcome elements, in order.\<close>

theorem junit_reads_exactly:
  assumes "junit expat data = Inr cases" "xml_parser_ok expat"
  shows "map case_head cases = reported_cases [] (fst (expat data)) \<and>
    concat (map (\<lambda>c. map dg_kind (jc_diagnostics c)) cases) = reported_outcomes (fst (expat data)) \<and>
    map jc_test_index cases = [1..<Suc (length cases)] \<and> length cases \<le> 10000"
  using assms by (rule junit_exact)

theorem junit_reads_exactly_witness:
  "map case_head [sample_case] = reported_cases [] (fst (sample_parser [])) \<and> length [sample_case] \<le> 10000"
  using junit_reads_exactly [OF sample_junit sample_parser_ok] by blast




text \<open>With \<open>changes_only\<close> a row is dropped exactly when its identity names one case on each side and
  the two agree on outcome, time, file, line, status, result and diagnostics.\<close>

theorem compare_cases_unchanged:
  "fst (compare_cases before after True) =
     filter (\<lambda>row. \<not> (\<exists>b a. jr_before row = [b] \<and> jr_after row = [a] \<and> jc_outcome b = jc_outcome a \<and>
       case_details b = case_details a)) (fst (compare_cases before after False))"
proof -
  have "jr_status (case_row old new k) = u ''unchanged'' \<longleftrightarrow>
      (\<exists>b a. dmembers old k = [b] \<and> dmembers new k = [a] \<and> jc_outcome b = jc_outcome a \<and> case_details b = case_details a)"
    if "dmembers old k \<noteq> [] \<or> dmembers new k \<noteq> []" for old new k
    using that by (cases "dmembers old k"; cases "dmembers new k") (auto simp: case_row_def case_status_def)
  moreover have "dmembers (grouped before) k \<noteq> [] \<or> dmembers (grouped after) k \<noteq> []"
    if "k \<in> set (sorted_union (dkeys (grouped before)) (dkeys (grouped after)))" for k
    using that by (auto simp: grouped_keys grouped_members filter_empty_conv)
  ultimately show ?thesis
    by (auto simp: compare_cases_eq Let_def case_row_def intro!: filter_cong)
qed

lemma junit_body_raises:
  assumes "xml_parser_ok expat" "archive_raises review_error zip_open" "raises_only review_error before_file"
    "raises_only review_error after_file"
  shows "raises_only junit_error (junit_body expat zip_open before_file after_file args)"
proof -
  have review: "raises_only junit_error (read_bundle zip_open f p l)" if "raises_only review_error f" for f p l
    using read_bundle_raises [OF assms(2) that] by (rule raises_only_weaken) simp
  have encode: "raises_only junit_error (utf8_encode s)" for s
    using utf8_encode_raises by (rule raises_only_weaken) simp
  show ?thesis unfolding junit_body_def Let_def
    by (intro raises_rbind raises_prod raises_guard review assms junit_raises encode) simp_all
qed

lemma junit_body_bound: "yields (\<lambda>(out, sidecar). length out \<le> MAX_OUTPUT) (junit_body expat zip_open before_file after_file args)"
  unfolding junit_body_def Let_def by (intro yields_intros) simp



end
