(* ===== verification/JunitReport.thy ===== *)
theory JunitReport
  imports Junit Documents
begin

section \<open>What a JUnit review says\<close>

text \<open>
  The JUnit command from its two files to the bytes it writes, as \<open>CoverageReport\<close> does for coverage: whoever
  reads the output back gets the rows of the comparison of the two selected reports. The line numbers
  the XML parser reports are within its input, as counting its line ends gives them.
\<close>

subsection \<open>Cases are printable\<close>

definition lines_within :: "nat \<Rightarrow> xml_event list \<Rightarrow> bool" where
  "lines_within n events \<longleftrightarrow> (\<forall>tag attrs line. StartTag tag attrs line \<in> set events \<longrightarrow> line \<le> n)"

definition xml_lines :: "xml_parser \<Rightarrow> bool" where
  "xml_lines expat \<longleftrightarrow> (\<forall>data. lines_within (length data + 1) (fst (expat data)))"

lemma reported_lines:
  "lines_within n events \<Longrightarrow> (a, b, c, line, d) \<in> set (reported_cases suites events) \<Longrightarrow> line \<le> n"
  by (induction suites events rule: reported_cases.induct)
     (auto simp: lines_within_def element_head_def split: if_splits)

definition case_ok :: "junit_case \<Rightarrow> bool" where
  "case_ok c \<longleftrightarrow> jc_source_line c \<le> MAX_REPORT + 1 \<and> jc_test_index c \<le> 10000"

lemma cases_ok:
  assumes "junit expat data = Inr cases" "xml_parser_ok expat" "xml_lines expat"
  shows "list_all case_ok cases" "length cases \<le> 10000"
proof -
  note exact = junit_exact [OF assms(1,2)]
  show "length cases \<le> 10000" using exact by blast
  obtain st where len: "length data \<le> MAX_REPORT" by (rule junit_Inr [OF assms(1,2)])
  have "case_ok c" if c: "c \<in> set cases" for c
  proof -
    have "case_head c \<in> set (reported_cases [] (fst (expat data)))"
      using exact c by (metis image_eqI image_set)
    then have "jc_source_line c \<le> length data + 1"
      unfolding case_head_def by (rule reported_lines [rotated]) (use assms(3) in \<open>simp add: xml_lines_def\<close>)
    moreover have "jc_test_index c \<in> set [1..<Suc (length cases)]"
      using exact c by (metis image_eqI image_set)
    ultimately show ?thesis using len exact by (auto simp: case_ok_def)
  qed
  then show "list_all case_ok cases" by (simp add: list_all_iff)
qed

lemma case_valid: "case_ok c \<Longrightarrow> jvalid False (case_json c)"
  by (simp add: case_ok_def case_json_def diagnostic_json_def list_all_iff small_printable MAX_REPORT_def split: option.split)

definition row_ok :: "junit_row \<Rightarrow> bool" where
  "row_ok row \<longleftrightarrow> list_all case_ok (jr_before row) \<and> list_all case_ok (jr_after row)"

lemma side_valid: "list_all case_ok cases \<Longrightarrow> jvalid False (JArr (map case_json cases))"
  by (simp add: list_all_iff case_valid)

lemma junit_row_valid: "row_ok row \<Longrightarrow> jvalid False (junit_row_json row)"
  using side_valid [of "jr_before row"] side_valid [of "jr_after row"]
  by (simp add: row_ok_def junit_row_json_def list_all_iff)

lemma compared_rows:
  assumes "list_all case_ok before" "list_all case_ok after" "length before \<le> 10000" "length after \<le> 10000"
    and "compare_cases before after changes_only = (rows, counts)"
  shows "list_all row_ok rows" "length rows \<le> 20000" "dict_ok counts" "dsum counts \<le> 20000"
proof -
  let ?ks = "sorted_union (dkeys (grouped before)) (dkeys (grouped after))"
  let ?all = "map (case_row (grouped before) (grouped after)) ?ks"
  have rows: "rows = filter (\<lambda>row. \<not> changes_only \<or> jr_status row \<noteq> u ''unchanged'') ?all" and counts: "counts = tally (map jr_status ?all)"
    using assms(5) by (simp_all add: compare_cases_eq Let_def)
  have "row_ok row" if "row \<in> set ?all" for row
    using that assms(1,2) by (auto simp: row_ok_def case_row_def grouped_members list_all_iff)
  then show "list_all row_ok rows" by (auto simp: rows list_all_iff)
  have "length ?all \<le> card (case_identity ` set before) + card (case_identity ` set after)"
    by (simp add: length_sorted_union grouped_keys card_Un_le)
  also have "\<dots> \<le> length before + length after"
    by (intro add_mono order_trans [OF card_image_le card_length]) simp_all
  finally have all: "length ?all \<le> 20000" using assms(3,4) by linarith
  show "length rows \<le> 20000" unfolding rows using length_filter_le [of _ ?all] all by (rule order_trans)
  show "dict_ok counts" "dsum counts \<le> 20000" using all by (simp_all add: counts dsum_tally)
qed

subsection \<open>Reading the CSV\<close>

definition junit_csv_read :: "ustr list \<Rightarrow> (json \<times> ustr \<times> ustr \<times> ustr \<times> json \<times> json) res" where
  "junit_csv_read cells =
     rbind (loads False (cells ! 0)) (\<lambda>path.
     rbind (loads False (cells ! 4)) (\<lambda>before.
     rbind (loads False (cells ! 5)) (\<lambda>after. Inr (path, cells ! 1, cells ! 2, cells ! 3, before, after))))"

definition junit_content :: "junit_row \<Rightarrow> json \<times> ustr \<times> ustr \<times> ustr \<times> json \<times> json" where
  "junit_content row = (JArr (map JStr (jr_suite_path row)), jr_classname row, jr_name row, jr_status row,
     JArr (map case_json (jr_before row)), JArr (map case_json (jr_after row)))"

lemma junit_csv_read_row: "row_ok row \<Longrightarrow> junit_csv_read (junit_csv_row row) = Inr (junit_content row)"
proof -
  assume row: "row_ok row"
  have "jvalid (ds_ascii plain_style) v = jvalid False v" for v by (simp add: plain_style_def)
  note plain = loads_dumps [OF style_ok_styles(2), unfolded this]
  have "jvalid False (JArr (map JStr (jr_suite_path row)))" by (simp add: list_all_iff)
  with row side_valid [of "jr_before row"] side_valid [of "jr_after row"] show ?thesis
    by (simp add: junit_csv_read_def junit_csv_row_def junit_content_def row_ok_def plain numeral_eq_Suc del: dumps.simps jvalid.simps)
qed

definition junit_rows_read :: "bytes \<Rightarrow> (json \<times> ustr \<times> ustr \<times> ustr \<times> json \<times> json) list res" where
  "junit_rows_read out = rbind (rbind (utf8_decode out) csv_parse) (\<lambda>t. map_res junit_csv_read (tl t))"

lemma junit_rows_read:
  assumes "utf8_encode (junit_csv_output rows) = Inr out" "list_all row_ok rows"
  shows "junit_rows_read out = Inr (map junit_content rows)"
proof -
  have "csv_parse (junit_csv_output rows) = Inr (junit_csv_header # map junit_csv_row rows)"
    unfolding junit_csv_output_def
    by (rule csv.roundtrip) (simp add: junit_csv_header_def junit_csv_row_def list_all_iff)
  moreover have "map_res junit_csv_read (map junit_csv_row rows) = Inr (map junit_content rows)"
    using assms(2) by (induction rows) (simp_all add: junit_csv_read_row)
  ultimately show ?thesis using utf8_encode_decode [OF assms(1)] by (simp add: junit_rows_read_def)
qed

subsection \<open>The output and the sidecar\<close>

lemma junit_main_Done:
  assumes "junit_main expat zip_open before_file after_file args = Done out sidecar"
  obtains before_bytes before_source after_bytes after_source before after rows counts start where
    "read_bundle zip_open before_file (ca_report args) (u ''JUnit'') = Inr (before_bytes, before_source)"
    "read_bundle zip_open after_file (after_report args) (u ''JUnit'') = Inr (after_bytes, after_source)"
    "junit expat before_bytes = Inr before" "junit expat after_bytes = Inr after"
    "compare_cases before after (ca_changes_only args) = (rows, counts)"
    "start = [(u ''schema'', JStr (u ''moonfort.junit-review.v1'')),
            (u ''before'', JObj (dmerge before_source (testcase_count before))),
            (u ''after'', JObj (dmerge after_source (testcase_count after))),
            (u ''status_counts'', counts_json counts), (u ''row_count'', JInt (int (length rows))),
            (u ''changes_only'', JBool (ca_changes_only args)), (u ''meaning'', JStr junit_meaning)]"
    "utf8_encode (if ca_csv args then junit_csv_output rows
       else pretty (JObj (dmerge start [(u ''rows'', JArr (map junit_row_json rows))]))) = Inr out"
    "length out \<le> MAX_OUTPUT"
    "sidecar = pretty (JObj (dmerge start [(u ''candidate_sha256'', JStr (sha out)), (u ''candidate_size_bytes'', JInt (int (length out)))]))"
proof -
  have "junit_body expat zip_open before_file after_file args = Inr (out, sidecar)"
    using assms by (auto simp: junit_main_def run_command_def split: sum.splits if_splits)
  then obtain bb bsrc ab asrc before after where
    reads: "read_bundle zip_open before_file (ca_report args) (u ''JUnit'') = Inr (bb, bsrc)"
      "read_bundle zip_open after_file (after_report args) (u ''JUnit'') = Inr (ab, asrc)"
      "junit expat bb = Inr before" "junit expat ab = Inr after"
    and rest: "(let (rows, counts) = compare_cases before after (ca_changes_only args); start =
        [(u ''schema'', JStr (u ''moonfort.junit-review.v1'')), (u ''before'', JObj (dmerge bsrc (testcase_count before))),
         (u ''after'', JObj (dmerge asrc (testcase_count after))), (u ''status_counts'', counts_json counts), (u ''row_count'', JInt (int (length rows))),
         (u ''changes_only'', JBool (ca_changes_only args)), (u ''meaning'', JStr junit_meaning)]
      in rbind (utf8_encode (if ca_csv args then junit_csv_output rows
          else pretty (JObj (dmerge start [(u ''rows'', JArr (map junit_row_json rows))])))) (\<lambda>output.
        guard (length output \<le> MAX_OUTPUT) (u ''comparison exceeds 16 MiB output limit'')
        (Inr (output, pretty (JObj (dmerge start [(u ''candidate_sha256'', JStr (sha output)), (u ''candidate_size_bytes'', JInt (int (length output)))])))))) =
      Inr (out, sidecar)"
    unfolding junit_body_def rbind_eq_Inr split_paired_Ex prod.case by blast
  obtain rows counts where rows: "compare_cases before after (ca_changes_only args) = (rows, counts)" by fastforce
  show thesis using rest that [OF reads rows refl] unfolding rows Let_def prod.case rbind_eq_Inr guard_eq_Inr by blast
qed

text \<open>C15: what the JUnit command writes is the comparison of the two selected reports: whenever it succeeds, both
  files are review bundles whose selected artifacts are accepted reports, and reading its output back
  gives exactly the rows of their comparison with all cases of both sides, from the CSV and from the JSON,
  there together with the status counts; the sidecar names the digest and the size of these very bytes.
  (The JSON parts are about bundles whose manifests hold no number beyond the range of a double.)\<close>

theorem junit_report_exact:
  assumes "junit_main expat zip_open before_file after_file args = Done out sidecar" "xml_parser_ok expat" "xml_lines expat"
  shows "\<exists>before_bytes before_source after_bytes after_source before after rows counts document side.
    read_bundle zip_open before_file (ca_report args) (u ''JUnit'') = Inr (before_bytes, before_source) \<and>
    read_bundle zip_open after_file (after_report args) (u ''JUnit'') = Inr (after_bytes, after_source) \<and>
    junit expat before_bytes = Inr before \<and> junit expat after_bytes = Inr after \<and>
    compare_cases before after (ca_changes_only args) = (rows, counts) \<and>
    (ca_csv args \<longrightarrow> junit_rows_read out = Inr (map junit_content rows)) \<and>
    (jfinite (JObj before_source) \<and> jfinite (JObj after_source) \<longrightarrow>
      (\<not> ca_csv args \<longrightarrow> decode out = Inr (JObj document) \<and> jget document ''rows'' = JArr (map junit_row_json rows) \<and>
         jget document ''status_counts'' = counts_json counts) \<and>
      loads True sidecar = Inr (JObj side) \<and> jget side ''status_counts'' = counts_json counts \<and>
      jget side ''candidate_sha256'' = JStr (sha out) \<and> jget side ''candidate_size_bytes'' = JInt (int (length out)))"
  using assms(1)
proof (rule junit_main_Done)
  fix before_bytes before_source after_bytes after_source before after rows counts
    and start :: "(ustr \<times> json) list"
  assume bundles: "read_bundle zip_open before_file (ca_report args) (u ''JUnit'') = Inr (before_bytes, before_source)"
      "read_bundle zip_open after_file (after_report args) (u ''JUnit'') = Inr (after_bytes, after_source)"
    and reports: "junit expat before_bytes = Inr before" "junit expat after_bytes = Inr after"
    and rows: "compare_cases before after (ca_changes_only args) = (rows, counts)"
    and start: "start = [(u ''schema'', JStr (u ''moonfort.junit-review.v1'')),
            (u ''before'', JObj (dmerge before_source (testcase_count before))),
            (u ''after'', JObj (dmerge after_source (testcase_count after))),
            (u ''status_counts'', counts_json counts), (u ''row_count'', JInt (int (length rows))),
            (u ''changes_only'', JBool (ca_changes_only args)), (u ''meaning'', JStr junit_meaning)]"
    and out: "utf8_encode (if ca_csv args then junit_csv_output rows
       else pretty (JObj (dmerge start [(u ''rows'', JArr (map junit_row_json rows))]))) = Inr out" "length out \<le> MAX_OUTPUT"
    and sidecar: "sidecar = pretty (JObj (dmerge start [(u ''candidate_sha256'', JStr (sha out)), (u ''candidate_size_bytes'', JInt (int (length out)))]))"
  let ?document = "dmerge start [(u ''rows'', JArr (map junit_row_json rows))]"
  let ?side = "dmerge start [(u ''candidate_sha256'', JStr (sha out)), (u ''candidate_size_bytes'', JInt (int (length out)))]"
  note before = cases_ok [OF reports(1) assms(2,3)] and after = cases_ok [OF reports(2) assms(2,3)]
  note all = compared_rows [OF before(1) after(1) before(2) after(2) rows]
  have csv: "junit_rows_read out = Inr (map junit_content rows)" if "ca_csv args"
    using junit_rows_read [of rows out] out(1) that all(1) by simp
  have counted: "jvalid False (JObj (dmerge source (testcase_count cases)))"
    if "jread (JObj source)" "jfinite (JObj source)" "length cases \<le> 10000" for source cases
    using that by (intro valid_dmerge) (simp_all add: valid_parts testcase_count_def small_printable del: jvalid.simps(5) jread.simps(4) jfinite.simps(3))
  have valid: "jvalid False (JObj start)" if "jfinite (JObj before_source)" "jfinite (JObj after_source)"
    using counted [OF source_read [OF bundles(1)] that(1) before(2)] counted [OF source_read [OF bundles(2)] that(2) after(2)]
      valid_counts [OF all(3)] all(2,4)
    by (simp add: start small_printable del: jvalid.simps(5)) (simp add: small_printable)
  have rows_valid: "jvalid False (JArr (map junit_row_json rows))" using all(1) by (simp add: list_all_iff junit_row_valid)
  have "decode out = Inr (JObj ?document)" if "\<not> ca_csv args" "jfinite (JObj before_source)" "jfinite (JObj after_source)"
    using out(1) that(1) valid_dmerge [OF valid [OF that(2,3)], of "[(u ''rows'', JArr (map junit_row_json rows))]"]
      rows_valid by (auto intro!: written_document)
  moreover have "loads True sidecar = Inr (JObj ?side)" if "jfinite (JObj before_source)" "jfinite (JObj after_source)"
    unfolding sidecar using valid_dmerge [OF valid [OF that]] out(2)
    by (intro pretty_text.roundtrip) (simp add: MAX_OUTPUT_def small_printable)
  moreover have "jget ?document ''rows'' = JArr (map junit_row_json rows)" "jget ?document ''status_counts'' = counts_json counts"
    "jget ?side ''status_counts'' = counts_json counts" "jget ?side ''candidate_sha256'' = JStr (sha out)"
    "jget ?side ''candidate_size_bytes'' = JInt (int (length out))"
    by (simp_all add: start jget_def dget_dmerge)
  ultimately show ?thesis using bundles reports rows csv by blast
qed

definition lined_parser :: xml_parser where
  "lined_parser = (\<lambda>data. if length data < 3 then ([], Some ExpatError) else (sample_events, None))"

theorem junit_report_exact_witness:
  "\<exists>out sidecar. junit_main lined_parser (\<lambda>_. Inr (make_bundle sample_files)) (Inr []) (Inr [])
       \<lparr>ca_report = u ''results/a'', ca_after_report = None, ca_changes_only = True, ca_csv = True\<rparr> = Done out sidecar \<and>
     junit_rows_read out = Inr []"
proof -
  let ?args = "\<lparr>ca_report = u ''results/a'', ca_after_report = None, ca_changes_only = True, ca_csv = True\<rparr>" and ?zip = "\<lambda>_. Inr (make_bundle sample_files)"
  have ok: "xml_parser_ok lined_parser" "xml_lines lined_parser"
    by (auto simp: xml_parser_ok_def xml_lines_def lines_within_def lined_parser_def sample_events_def)
  have read: "junit lined_parser [1, 2, 3] = Inr [sample_case]"
    using sample_junit by (simp add: junit_def lined_parser_def sample_parser_def MAX_REPORT_def)
  obtain source where stored: "read_bundle ?zip (Inr []) (u ''results/a'') (u ''JUnit'') = Inr ([1, 2, 3], source)"
    using one_file_read [of "[1, 2, 3]"] by (simp add: sample_files_def)
  have "jr_status (case_row (grouped [sample_case]) (grouped [sample_case]) k) = u ''unchanged''" if "k \<in> set (dkeys (grouped [sample_case]))" for k
    using that by (simp add: grouped_keys case_row_def grouped_members case_status_def)
  then obtain counts where rows: "compare_cases [sample_case] [sample_case] True = ([], counts)"
    by (simp add: compare_cases_eq Let_def filter_empty_conv)
  have "list_all is_scalar (junit_csv_output [])" "length (junit_csv_output []) \<le> 1000"
    by (simp_all add: junit_csv_output_def csv_text_def junit_csv_header_def) (simp_all add: csv_row_def csv_field_def u_def is_scalar_def)
  then have enc: "utf8_encode (junit_csv_output []) = Inr (utf8_bytes (junit_csv_output []))" "length (utf8_bytes (junit_csv_output [])) \<le> MAX_OUTPUT"
    using utf8_bytes_length [of "junit_csv_output []"] by (simp_all add: utf8_encode_def MAX_OUTPUT_def)
  obtain sidecar where run: "junit_main lined_parser ?zip (Inr []) (Inr []) ?args = Done (utf8_bytes (junit_csv_output [])) sidecar"
    by (simp add: junit_main_def run_command_def junit_body_def after_report_def stored read rows enc Let_def)
  from junit_report_exact [OF run ok] rows show ?thesis using run
    by (auto simp: after_report_def stored read)
qed

end
