(* ===== verification/SqlCells.thy ===== *)
theory SqlCells
  imports ReviewBundle
begin

section \<open>Typed SQLite values and identifiers (tools/sqlite_review.py)\<close>

text \<open>
  The values SQLite hands to the tools (one constructor per storage class), their JSON form
  \<open>cell\<close> and its reader \<open>parameter\<close>, base64, the quoting of identifiers with a reference
  lexer for quoted identifiers, and ASCII case folding. The round trip of \<open>cell\<close> and
  \<open>parameter\<close> is the interpretation \<open>cells\<close> of the codec interface; later theories key groups and
  rows by cells and rely on its facts.
\<close>

datatype sqlval = SNull | SInt int | SReal pyfloat | SText ustr | SBlob bytes

subsection \<open>Base64\<close>

definition b64_digit :: "nat \<Rightarrow> nat" where
  "b64_digit n =
     (if n < 26 then 65 + n else if n < 52 then 71 + n else if n < 62 then n - 4 else if n = 62 then 43 else 47)"

definition b64_value :: "nat \<Rightarrow> nat option" where
  "b64_value c =
     (if 65 \<le> c \<and> c \<le> 90 then Some (c - 65) else if 97 \<le> c \<and> c \<le> 122 then Some (c - 71)
      else if is_digit c then Some (c + 4) else if c = 43 then Some 62 else if c = 47 then Some 63 else None)"

fun b64encode :: "bytes \<Rightarrow> ustr" where
  "b64encode [] = []"
| "b64encode [a] = [b64_digit (unat a div 4), b64_digit (unat a mod 4 * 16), 61, 61]"
| "b64encode [a, b] =
     [b64_digit (unat a div 4), b64_digit (unat a mod 4 * 16 + unat b div 16), b64_digit (unat b mod 16 * 4), 61]"
| "b64encode (a # b # c # r) =
     b64_digit (unat a div 4) # b64_digit (unat a mod 4 * 16 + unat b div 16) #
     b64_digit (unat b mod 16 * 4 + unat c div 64) # b64_digit (unat c mod 64) # b64encode r"

text \<open>\<open>base64.b64decode(s, validate=True)\<close>: groups of four characters, padding in the last one only.\<close>

fun b64decode :: "ustr \<Rightarrow> bytes res" where
  "b64decode [] = Inr []"
| "b64decode (w # x # y # z # r) =
     (case (b64_value w, b64_value x) of
        (Some p, Some q) \<Rightarrow>
          if y = 61 \<and> z = 61 \<and> r = [] then Inr [of_nat (p * 4 + q div 16)]
          else (case b64_value y of None \<Rightarrow> Inl Base64Error
            | Some s \<Rightarrow>
                if z = 61 \<and> r = [] then Inr [of_nat (p * 4 + q div 16), of_nat (q mod 16 * 16 + s div 4)]
                else (case b64_value z of None \<Rightarrow> Inl Base64Error
                  | Some t \<Rightarrow> rbind (b64decode r) (\<lambda>d.
                      Inr (of_nat (p * 4 + q div 16) # of_nat (q mod 16 * 16 + s div 4) # of_nat (s mod 4 * 64 + t) # d))))
      | _ \<Rightarrow> Inl Base64Error)"
| "b64decode _ = Inl Base64Error"

lemma b64_value_digit: "n < 64 \<Longrightarrow> b64_value (b64_digit n) = Some n"
  by (auto simp: b64_digit_def b64_value_def is_digit_def)

lemma b64_digit_pad: "n < 64 \<Longrightarrow> b64_digit n \<noteq> 61"
  by (auto simp: b64_digit_def)

lemma byte_bound: "unat (a :: byte) < 256"
proof -
  have "unat a < 2 ^ LENGTH(8)" by (rule unsigned_less)
  then show ?thesis by simp
qed

lemma two_digits: "(x::nat) < k \<Longrightarrow> (m * k + x) div k = m \<and> (m * k + x) mod k = x"
  by simp

lemma small_sum: "(m::nat) < a \<Longrightarrow> x < k \<Longrightarrow> m * k + x < a * k"
proof -
  assume "m < a" "x < k"
  then have "m * k + x < m * k + k" by simp
  also have "\<dots> = Suc m * k" by simp
  also have "\<dots> \<le> a * k" using \<open>m < a\<close> by (intro mult_le_mono1) simp
  finally show ?thesis .
qed

text \<open>The three ways a group of bytes is cut into six-bit digits and put together again.\<close>

lemma cut2:
  fixes a b :: byte
  defines "q \<equiv> unat a mod 4 * 16 + unat b div 16"
  shows "q < 64" "q div 16 = unat a mod 4" "q mod 16 = unat b div 16"
proof -
  have b: "unat b div 16 < 16" using byte_bound [of b] by (simp add: div_less_iff_less_mult)
  show "q < 64" using small_sum [of "unat a mod 4" 4 "unat b div 16" 16] b by (simp add: q_def)
  show "q div 16 = unat a mod 4" "q mod 16 = unat b div 16" using two_digits [OF b] by (simp_all add: q_def)
qed

lemma cut3:
  fixes b c :: byte
  defines "s \<equiv> unat b mod 16 * 4 + unat c div 64"
  shows "s < 64" "s div 4 = unat b mod 16" "s mod 4 = unat c div 64"
proof -
  have c: "unat c div 64 < 4" using byte_bound [of c] by (simp add: div_less_iff_less_mult)
  show "s < 64" using small_sum [of "unat b mod 16" 16 "unat c div 64" 4] c by (simp add: s_def)
  show "s div 4 = unat b mod 16" "s mod 4 = unat c div 64" using two_digits [OF c] by (simp_all add: s_def)
qed

lemma rejoin:
  fixes a :: byte
  shows "(of_nat (unat a div 4 * 4 + unat a mod 4) :: byte) = a"
    "(of_nat (unat a div 16 * 16 + unat a mod 16) :: byte) = a"
    "(of_nat (unat a div 64 * 64 + unat a mod 64) :: byte) = a"
  by (simp_all add: div_mult_mod_eq)

lemma byte_div4: "unat (a :: byte) div 4 < 64"
  using byte_bound [of a] by (simp add: div_less_iff_less_mult)

lemma b64_roundtrip: "b64decode (b64encode b) = Inr b"
proof (induction b rule: b64encode.induct)
  case 1
  then show ?case by simp
next
  case (2 a)
  have "unat a mod 4 * 16 < 64" using cut2(1) [of a 0] by simp
  moreover have "unat a mod 4 * 16 div 16 = unat a mod 4" by simp
  ultimately show ?case using byte_div4 [of a] rejoin(1) [of a] by (simp add: b64_value_digit)
next
  case (3 a b)
  have q: "unat b mod 16 * 4 < 64" "unat b mod 16 * 4 div 4 = unat b mod 16" using cut3(1) [of b 0] by simp_all
  show ?case using cut2 [where a = a and b = b] q byte_div4 [of a] rejoin(1) [of a] rejoin(2) [of b]
    by (simp add: b64_value_digit b64_digit_pad)
next
  case (4 a b c r)
  have t: "unat c mod 64 < 64" by simp
  show ?case using 4 cut2 [where a = a and b = b] cut3 [where b = b and c = c] t byte_div4 [of a]
      rejoin(1) [of a] rejoin(2) [of b] rejoin(3) [of c]
    by (simp add: b64_value_digit b64_digit_pad)
qed

interpretation base64: codec b64encode b64decode "\<lambda>_. True"
  by unfold_locales (rule b64_roundtrip)

subsection \<open>Cells and parameters\<close>

definition typed :: "string \<Rightarrow> json \<Rightarrow> json" where
  "typed kind v = JObj [(u ''type'', JStr (u kind)), (u ''value'', v)]"

fun cell :: "sqlval \<Rightarrow> json res" where
  "cell SNull = Inr (typed ''null'' JNull)"
| "cell (SBlob b) = Inr (typed ''blob'' (JStr (b64encode b)))"
| "cell (SText s) = Inr (typed ''text'' (JStr s))"
| "cell (SInt i) = Inr (typed ''integer'' (JStr (str_int i)))"
| "cell (SReal x) = guard (isfinite x) (u ''nonfinite SQLite real is unsupported'') (Inr (typed ''real'' (JStr (frepr x))))"

definition parameter :: "json \<Rightarrow> sqlval res" where
  "parameter value =
     (case value of
        JObj d \<Rightarrow>
          guard (jkeys d = {u ''type'', u ''value''}) (u ''filter value requires type and value'')
          (let kind = jget d ''type''; data = jget d ''value'' in
           if kind = JStr (u ''null'') then guard (data = JNull) (u ''null filter value must be null'') (Inr SNull)
           else (case data of
             JStr s \<Rightarrow>
               if kind = JStr (u ''text'') then Inr (SText s)
               else if kind = JStr (u ''integer'') then
                 guard (re_integer s \<and> length s \<le> 20) (u ''invalid integer filter'')
                 (rbind (py_int s) (\<lambda>i.
                  guard (- (2 ^ 63) \<le> i \<and> i < 2 ^ 63) (u ''integer filter outside signed 64-bit range'') (Inr (SInt i))))
               else if kind = JStr (u ''real'') then
                 guard (length s \<le> 64 \<and> re_real s) (u ''invalid real filter'')
                 (rbind (float_of_text s) (\<lambda>x.
                  guard (isfinite x) (u ''nonfinite real filter'') (Inr (SReal x))))
               else if kind = JStr (u ''blob'') then
                 rbind (b64decode s) (\<lambda>b.
                 guard (b64encode b = s) (u ''blob filter requires canonical base64'') (Inr (SBlob b)))
               else Inl (ValueError (u ''unsupported filter storage type''))
           | _ \<Rightarrow> Inl (ValueError (u ''non-null filter values must be strings''))))
      | _ \<Rightarrow> Inl (ValueError (u ''filter value requires type and value'')))"

text \<open>What a SQLite row can hold: 64-bit integers and finite doubles whose shortest text fits a filter value.\<close>

fun storable :: "sqlval \<Rightarrow> bool" where
  "storable (SInt i) = (- (2 ^ 63) \<le> i \<and> i < 2 ^ 63)"
| "storable (SReal x) = (isfinite x \<and> fcanon x \<and> length (frepr x) \<le> 64)"
| "storable _ = True"

lemma jkeys_typed [simp]: "jkeys [(u ''type'', a), (u ''value'', b)] = {u ''type'', u ''value''}"
  by (simp add: jkeys_def)

lemma jget_typed [simp]:
  "jget [(u ''type'', a), (u ''value'', b)] ''type'' = a" "jget [(u ''type'', a), (u ''value'', b)] ''value'' = b"
  by (simp_all add: jget_def)

lemma int64_text:
  assumes "- (2 ^ 63) \<le> i" "i < 2 ^ 63"
  shows "length (str_int i) \<le> 20" "int_printable i"
proof -
  have "nat \<bar>i\<bar> < 10 ^ 19" using assms by simp
  then have len: "length (str_nat (nat \<bar>i\<bar>)) \<le> 19" using length_str_nat [of 19 "nat \<bar>i\<bar>"] by simp
  then show "length (str_int i) \<le> 20" by (auto simp: str_int_def abs_if split: if_splits)
  show "int_printable i" using len by (simp add: int_printable_def)
qed

lemma parameter_cell: "storable v \<Longrightarrow> \<exists>j. cell v = Inr j \<and> parameter j = Inr v"
proof (cases v)
  case (SInt i)
  assume "storable v"
  with SInt int64_text [of i] show ?thesis
    by (simp add: typed_def parameter_def re_integer_str_int py_int_str_int)
next
  case (SReal x)
  assume "storable v"
  with SReal show ?thesis
    by (simp add: typed_def parameter_def re_real_frepr float_of_text_frepr)
qed (simp_all add: typed_def parameter_def base64.roundtrip)

definition cell_of :: "sqlval \<Rightarrow> json" where
  "cell_of v = (case cell v of Inr j \<Rightarrow> j | Inl e \<Rightarrow> JNull)"

lemma cell_storable: "storable v \<Longrightarrow> cell v = Inr (cell_of v)"
  using parameter_cell [of v] by (auto simp: cell_of_def)

interpretation cells: codec cell_of parameter storable
proof unfold_locales
  fix v assume "storable v"
  then show "parameter (cell_of v) = Inr v" using parameter_cell [of v] by (auto simp: cell_of_def)
qed

lemma cell_raises: "raises_only is_value_error (cell v)"
  by (cases v) (auto intro!: raises)

lemma b64decode_raises: "raises_only is_value_error (b64decode s)"
  by (induction s rule: b64decode.induct) (auto split: option.splits intro!: raises)

lemma float_of_text_raises: "raises_only is_value_error (float_of_text s)"
  by (auto simp: float_of_text_def split: option.splits prod.splits list.splits)

lemma parameter_raises: "raises_only is_value_error (parameter v)"
  unfolding parameter_def Let_def
  by (auto simp: py_int_raises b64decode_raises float_of_text_raises split: json.splits intro!: raises)

text \<open>An accepted parameter is storable and is the value its cell states.\<close>

lemma re_integer_canonical: "re_integer s \<Longrightarrow> py_int s = Inr i \<Longrightarrow> s = str_int i"
proof -
  assume re: "re_integer s" and i: "py_int s = Inr i"
  show "s = str_int i"
  proof (cases "starts_with s (u ''-'')")
    case True
    then obtain t where s: "s = 45 # t" by (auto simp: starts_with_iff u_def)
    with re True have t: "re_digits t" "hd t \<noteq> 48" by (auto simp: re_integer_def Let_def u_def)
    then have nat: "re_natural t" by (simp add: re_natural_def)
    from i s True have iv: "i = - int (digits_value t)" by (auto simp: py_int_def Let_def split: if_splits)
    have "digits_value t \<noteq> 0"
    proof
      assume "digits_value t = 0"
      with re_natural_canonical [OF nat] have "t = u ''0''" by (simp add: str_nat_0)
      with t(2) show False by (simp add: u_def)
    qed
    with iv re_natural_canonical [OF nat] s show ?thesis by (simp add: str_int_def)
  next
    case False
    with re have nat: "re_natural s" by (auto simp: re_integer_def re_natural_def Let_def)
    from i False have "i = int (digits_value s)" by (auto simp: py_int_def Let_def split: if_splits)
    with re_natural_canonical [OF nat] show ?thesis by (simp add: str_int_def)
  qed
qed

subsection \<open>Identifiers\<close>

definition quoted :: "json \<Rightarrow> ustr res" where
  "quoted name =
     (case name of
        JStr s \<Rightarrow> guard (0 \<notin> set s) (u ''invalid identifier'') (Inr (34 # replace1 34 [34, 34] s @ [34]))
      | _ \<Rightarrow> Inl (ValueError (u ''invalid identifier'')))"

definition quote :: "ustr \<Rightarrow> ustr" where
  "quote s = 34 # replace1 34 [34, 34] s @ [34]"

lemma quoted_Inr: "quoted v = Inr q \<longleftrightarrow> (\<exists>s. v = JStr s \<and> 0 \<notin> set s \<and> q = quote s)"
  by (cases v) (auto simp: quoted_def quote_def res_simps)

lemma quoted_raises: "raises_only is_value_error (quoted v)"
  by (auto simp: quoted_def split: json.splits intro!: raises)

text \<open>The SQL lexer on a double-quoted identifier: the name it denotes and the rest of the text.\<close>

fun lex_body :: "ustr \<Rightarrow> (ustr \<times> ustr) option" where
  "lex_body [] = None"
| "lex_body (c # s) =
     (if c = 34 then
        (case s of d # r \<Rightarrow> if d = 34 then map_option (\<lambda>(n, q). (34 # n, q)) (lex_body r) else Some ([], s)
         | [] \<Rightarrow> Some ([], []))
      else map_option (\<lambda>(n, q). (c # n, q)) (lex_body s))"

definition lex_identifier :: "ustr \<Rightarrow> (ustr \<times> ustr) option" where
  "lex_identifier s = (case s of c # r \<Rightarrow> if c = 34 then lex_body r else None | [] \<Rightarrow> None)"

lemma lex_body_quote:
  "\<not> starts_with r [34] \<Longrightarrow> lex_body (replace1 34 [34, 34] s @ 34 # r) = Some (s, r)"
  by (induction s) (auto split: list.splits)

lemma lex_identifier_quote: "\<not> starts_with r [34] \<Longrightarrow> lex_identifier (quote s @ r) = Some (s, r)"
  by (simp add: lex_identifier_def quote_def lex_body_quote)

definition fold_char :: "nat \<Rightarrow> nat" where
  "fold_char c = (if 65 \<le> c \<and> c \<le> 90 then c + 32 else c)"

definition folded :: "ustr \<Rightarrow> ustr" where
  "folded s = map fold_char s"

lemma folded_idem [simp]: "folded (folded s) = folded s"
  by (simp add: folded_def fold_char_def)

subsection \<open>Properties\<close>

text \<open>C25: a cell loses nothing: every storable SQLite value (null, 64-bit integer, finite double, text or blob)
  is written as a typed cell that the filter reader takes back as the very same value, so two cells
  are equal exactly when storage class and value are.\<close>

theorem cell_roundtrip:
  assumes "storable v" "storable w"
  shows "\<exists>j. cell v = Inr j \<and> parameter j = Inr v \<and> (cell w = Inr j \<longleftrightarrow> v = w)"
  using cell_storable [OF assms(1)] cell_storable [OF assms(2)] cells.roundtrip [OF assms(1)]
    cells.enc_eq_iff [OF assms] by auto

theorem cell_roundtrip_witness:
  "\<exists>j. cell (SInt (- 9223372036854775808)) = Inr j \<and> parameter j = Inr (SInt (- 9223372036854775808)) \<and>
    (cell (SText (u ''-9223372036854775808'')) = Inr j \<longleftrightarrow> SInt (- 9223372036854775808) = SText (u ''-9223372036854775808''))"
  by (rule cell_roundtrip) simp_all

text \<open>A quoted name cannot escape its quotes: the SQL lexer reads what \<open>quoted\<close> writes as one identifier,
  the name itself, whatever it contains, and stops at the text that follows; and names with a NUL
  are refused.\<close>

theorem quoted_is_one_identifier:
  "quoted (JStr name) = Inr q \<Longrightarrow> \<not> starts_with rest [34] \<Longrightarrow>
     lex_identifier (q @ rest) = Some (name, rest) \<and> 0 \<notin> set q"
  by (simp only: quoted_Inr json.inject) (auto simp: lex_identifier_quote, auto simp: quote_def replace1_def split: if_splits)

theorem quoted_is_one_identifier_witness:
  "lex_identifier (34 # u ''a'' @ [34, 34] @ u '' OR 1'' @ [34] @ u '' = ?'') = Some (u ''a'' @ [34] @ u '' OR 1'', u '' = ?'') \<and>
   0 \<notin> set (34 # u ''a'' @ [34, 34] @ u '' OR 1'' @ [34])"
proof -
  have "quoted (JStr (u ''a'' @ [34] @ u '' OR 1'')) = Inr (34 # u ''a'' @ [34, 34] @ u '' OR 1'' @ [34])"
    by (simp add: quoted_def u_def)
  from quoted_is_one_identifier [OF this, of "u '' = ?''"] show ?thesis by (simp add: u_def)
qed

end
