(* ===== verification/SqlReader.thy ===== *)
theory SqlReader
  imports SqlCells
begin

section \<open>The database reader (tools/sqlite_review.py)\<close>

text \<open>
  The authorizer callback, the progress budget, the connection \<open>database\<close> configures, and the schema
  inventory. SQLite itself is a parameter, the record \<open>engine\<close>: what opening the bytes gives and
  what each statement of a configured connection returns, as rows followed by the error it
  stops with, if any. The three PRAGMA statements deliver rows of the documented types.
\<close>

subsection \<open>Schema objects\<close>

record column =
  co_name :: ustr
  co_declared_type :: ustr
  co_not_null :: bool
  co_primary_key_position :: int
  co_generated :: bool
  co_generated_kind :: ustr
  co_default_sql :: "ustr option"

record relation =
  rl_id :: int
  rl_referenced_table :: ustr
  rl_columns :: "ustr list"
  rl_referenced_columns :: "ustr option list"
  rl_on_update :: ustr
  rl_on_delete :: ustr
  rl_match :: ustr

record schema_object =
  so_name :: ustr
  so_kind :: ustr
  so_row_selection_supported :: bool
  so_without_rowid :: bool
  so_strict :: bool
  so_columns :: "column list"
  so_foreign_keys :: "relation list"
  so_incoming :: "(relation \<times> ustr) list"

definition stored_columns :: "schema_object \<Rightarrow> column list" where
  "stored_columns t = filter (\<lambda>c. \<not> co_generated c) (so_columns t)"

subsection \<open>The authorizer\<close>

datatype auth_action = ActSelect | ActRead | ActPragma | ActFunction | ActOther int

datatype verdict = SqliteOk | SqliteDeny

type_synonym authorizer = "auth_action \<Rightarrow> ustr option \<Rightarrow> ustr option \<Rightarrow> ustr option \<Rightarrow> ustr option \<Rightarrow> verdict"

definition rowid_aliases :: "ustr list" where
  "rowid_aliases = map u [''rowid'', ''_rowid_'', ''oid'']"

definition readable_names :: "schema_object \<Rightarrow> ustr list" where
  "readable_names t =
     map co_name (stored_columns t) @
     (if so_without_rowid t then []
      else filter (\<lambda>name. name \<notin> set (map (folded \<circ> co_name) (so_columns t))) rowid_aliases) @ [[]]"

definition allowed_tables :: "schema_object list \<Rightarrow> (ustr, ustr list) dict" where
  "allowed_tables tables =
     foldl (\<lambda>d t. if so_kind t \<noteq> u ''table'' then d else dput (so_name t) (readable_names t) d) [] tables"

definition allowed_read :: "(ustr, ustr list) dict \<Rightarrow> ustr option \<Rightarrow> ustr option \<Rightarrow> bool" where
  "allowed_read allowed arg1 arg2 =
     (case (arg1, arg2) of
        (Some t, Some c) \<Rightarrow> (case dget allowed t of None \<Rightarrow> False | Some names \<Rightarrow> c \<in> set names)
      | _ \<Rightarrow> False)"

definition authorize :: "(ustr, ustr list) dict option \<Rightarrow> authorizer" where
  "authorize allowed action arg1 arg2 db origin =
     (if action = ActSelect then SqliteOk
      else if action = ActRead \<and> db = Some (u ''main'') \<and> origin = None \<and>
           (case allowed of None \<Rightarrow> True | Some d \<Rightarrow> allowed_read d arg1 arg2) then SqliteOk
      else if action = ActRead \<and> db = None \<and> origin = None \<and> arg2 = Some [] \<and>
           (case (allowed, arg1) of (Some d, Some t) \<Rightarrow> dhas d t | _ \<Rightarrow> False) then SqliteOk
      else if allowed = None \<and> action = ActPragma \<and>
           arg1 \<in> {Some (u ''table_list''), Some (u ''table_xinfo''), Some (u ''foreign_key_list'')} then SqliteOk
      else let functions = [''typeof'', ''instr''] @
             (if allowed = None then [] else [''count'', ''sum'', ''avg'', ''min'', ''max'', ''coalesce''])
           in if action = ActFunction \<and> (case arg2 of None \<Rightarrow> False | Some f \<Rightarrow> f \<in> set (map u functions)) then SqliteOk
              else SqliteDeny)"

definition read_authorizer :: "schema_object list option \<Rightarrow> authorizer" where
  "read_authorizer tables = authorize (map_option allowed_tables tables)"

subsection \<open>The connection\<close>

text \<open>\<open>progress\<close>: SQLite calls it every 1000 instructions and stops the statement when it returns 1.\<close>

definition progress :: "int \<Rightarrow> int \<times> int" where
  "progress remaining = (let r = remaining - 1 in (r, if r \<le> 0 then 1 else 0))"

definition progress_budget :: int where "progress_budget = 5000"
definition progress_interval :: nat where "progress_interval = 1000"
definition MAX_SELECTION :: nat where "MAX_SELECTION = 64 * 1024"

datatype sql_limit = LimitLength | LimitSqlLength | LimitColumn | LimitAttached

record conn =
  cn_data :: bytes
  cn_pragmas :: "ustr list"
  cn_limits :: "(sql_limit \<times> nat) list"
  cn_authorizer :: authorizer

record table_row =
  tr_db :: ustr
  tr_name :: ustr
  tr_kind :: ustr
  tr_count :: int
  tr_without_rowid :: int
  tr_strict :: int

record xinfo_row =
  xr_name :: ustr
  xr_declared :: ustr
  xr_notnull :: int
  xr_default :: "ustr option"
  xr_pk :: int
  xr_hidden :: int

record fk_row =
  fr_id :: int
  fr_sequence :: int
  fr_parent :: ustr
  fr_child :: ustr
  fr_target :: "ustr option"
  fr_update :: ustr
  fr_delete :: ustr
  fr_match :: ustr

text \<open>A cursor: the rows a statement delivers and the error it stops with.\<close>

type_synonym 'r cursor = "'r list \<times> pyerr option"

record statement_result =
  sr_description :: "ustr list option"
  sr_rows :: "sqlval list cursor"

record engine =
  en_supported :: bool
  en_version :: ustr
  en_open :: "bytes \<Rightarrow> unit res"
  en_table_list :: "conn \<Rightarrow> ustr \<Rightarrow> table_row cursor"
  en_table_xinfo :: "conn \<Rightarrow> ustr \<Rightarrow> xinfo_row cursor"
  en_foreign_key_list :: "conn \<Rightarrow> ustr \<Rightarrow> fk_row cursor"
  en_execute :: "conn \<Rightarrow> ustr \<Rightarrow> sqlval list \<Rightarrow> statement_result res"

definition for_rows :: "('s \<Rightarrow> 'r \<Rightarrow> 's res) \<Rightarrow> 's \<Rightarrow> 'r cursor \<Rightarrow> 's res" where
  "for_rows f s c =
     (case c of (rows, failed) \<Rightarrow>
        rbind (fold_res f s rows) (\<lambda>s'. case failed of None \<Rightarrow> Inr s' | Some e \<Rightarrow> Inl e))"

lemma for_rows_Inr: "for_rows f s c = Inr t \<longleftrightarrow> fold_res f s (fst c) = Inr t \<and> snd c = None"
  by (cases c) (auto simp: for_rows_def res_simps split: option.splits)

lemma for_rows_raises [raises]:
  "(\<And>s r. r \<in> set (fst c) \<Longrightarrow> raises_only P (f s r)) \<Longrightarrow> (\<And>e. snd c = Some e \<Longrightarrow> P e) \<Longrightarrow> raises_only P (for_rows f s c)"
  by (cases c) (auto simp: for_rows_def split: option.splits intro!: raises)

definition sqlite_magic :: bytes where
  "sqlite_magic = bs ''SQLite format 3'' @ [0]"

definition database :: "engine \<Rightarrow> bytes \<Rightarrow> conn res" where
  "database en data =
     guard (en_supported en) (u ''requires Python 3.11+ and SQLite 3.37+ with deserialize support'')
     (guard (length data \<le> MAX_REPORT \<and> starts_with data sqlite_magic \<and> 100 \<le> length data)
       (u ''selected artifact is not a bounded SQLite 3 database'')
     (guard (take 2 (drop 18 data) = [1, 1])
       (u ''requires a standalone rollback-journal database; WAL-mode files are unsupported'')
     (rbind (en_open en data) (\<lambda>_.
       Inr \<lparr>cn_data = data,
            cn_pragmas = map u [''PRAGMA query_only=ON'', ''PRAGMA trusted_schema=OFF'', ''PRAGMA temp_store=MEMORY''],
            cn_limits = [(LimitLength, MAX_REPORT), (LimitSqlLength, MAX_SELECTION), (LimitColumn, 256), (LimitAttached, 0)],
            cn_authorizer = read_authorizer None\<rparr>))))"

subsection \<open>The inventory\<close>

definition fk_step :: "(int, relation) dict \<Rightarrow> fk_row \<Rightarrow> (int, relation) dict res" where
  "fk_step groups r =
     guard (length groups < 128 \<or> dhas groups (fr_id r)) (u ''table exceeds 128 foreign keys'')
     (let rel = (case dget groups (fr_id r) of Some rel \<Rightarrow> rel
        | None \<Rightarrow> \<lparr>rl_id = fr_id r, rl_referenced_table = fr_parent r, rl_columns = [], rl_referenced_columns = [],
                   rl_on_update = fr_update r, rl_on_delete = fr_delete r, rl_match = fr_match r\<rparr>)
      in guard (fr_sequence r = int (length (rl_columns rel)) \<and> fr_sequence r < 128) (u ''unsupported foreign-key column sequence'')
         (Inr (dput (fr_id r) (rel\<lparr>rl_columns := rl_columns rel @ [fr_child r],
            rl_referenced_columns := rl_referenced_columns rel @ [fr_target r]\<rparr>) groups)))"

definition foreign_keys :: "engine \<Rightarrow> conn \<Rightarrow> ustr \<Rightarrow> relation list res" where
  "foreign_keys en cn table =
     rbind (quoted (JStr table)) (\<lambda>q.
     rbind (for_rows fk_step [] (en_foreign_key_list en cn (u ''PRAGMA main.foreign_key_list('' @ q @ u '')''))) (\<lambda>groups.
       Inr (List.map_filter (dget groups) (sort (dkeys groups)))))"

definition generated_kind :: "int \<Rightarrow> ustr" where
  "generated_kind hidden =
     (if hidden = 0 then u ''stored-column'' else if hidden = 2 then u ''virtual''
      else if hidden = 3 then u ''stored'' else u ''hidden'')"

definition xinfo_step :: "column list \<Rightarrow> xinfo_row \<Rightarrow> column list res" where
  "xinfo_step columns r = Inr (columns @
     [\<lparr>co_name = xr_name r, co_declared_type = xr_declared r, co_not_null = (xr_notnull r \<noteq> 0),
       co_primary_key_position = xr_pk r, co_generated = (xr_hidden r \<noteq> 0),
       co_generated_kind = generated_kind (xr_hidden r), co_default_sql = xr_default r\<rparr>])"

definition table_step :: "engine \<Rightarrow> conn \<Rightarrow> schema_object list \<Rightarrow> table_row \<Rightarrow> schema_object list res" where
  "table_step en cn tables r =
     (if tr_db r \<noteq> u ''main'' \<or> starts_with (tr_name r) (u ''sqlite_'') then Inr tables
      else
        guard (length tables < 100) (u ''database exceeds 100 schema objects'')
        (guard (tr_count r \<le> 128) (u ''schema object exceeds 128 columns'')
        (rbind (if tr_kind r = u ''table'' then
                  rbind (quoted (JStr (tr_name r))) (\<lambda>q.
                    for_rows xinfo_step [] (en_table_xinfo en cn (u ''PRAGMA main.table_xinfo('' @ q @ u '')'')))
                else Inr []) (\<lambda>columns.
         rbind (if tr_kind r = u ''table'' then foreign_keys en cn (tr_name r) else Inr []) (\<lambda>fks.
           Inr (tables @
             [\<lparr>so_name = tr_name r, so_kind = tr_kind r, so_row_selection_supported = (tr_kind r = u ''table''),
               so_without_rowid = (tr_without_rowid r \<noteq> 0), so_strict = (tr_strict r \<noteq> 0), so_columns = columns,
               so_foreign_keys = fks, so_incoming = []\<rparr>]))))))"

definition incoming :: "schema_object list \<Rightarrow> schema_object \<Rightarrow> (relation \<times> ustr) list" where
  "incoming tables parent =
     concat (map (\<lambda>child. map (\<lambda>rel. (rel, so_name child))
       (filter (\<lambda>rel. folded (rl_referenced_table rel) = folded (so_name parent)) (so_foreign_keys child))) tables)"

definition inventory :: "engine \<Rightarrow> conn \<Rightarrow> schema_object list res" where
  "inventory en cn =
     rbind (for_rows (table_step en cn) [] (en_table_list en cn (u ''PRAGMA main.table_list''))) (\<lambda>found.
     let tables = sort_key so_name found
     in Inr (map (\<lambda>parent. parent\<lparr>so_incoming := incoming tables parent\<rparr>) tables))"

subsection \<open>Schema objects as JSON\<close>

definition text_json :: "ustr option \<Rightarrow> json" where
  "text_json v = (case v of None \<Rightarrow> JNull | Some s \<Rightarrow> JStr s)"

definition column_json :: "column \<Rightarrow> json" where
  "column_json c = JObj
     [(u ''name'', JStr (co_name c)), (u ''declared_type'', JStr (co_declared_type c)), (u ''not_null'', JBool (co_not_null c)),
      (u ''primary_key_position'', JInt (co_primary_key_position c)), (u ''generated'', JBool (co_generated c)),
      (u ''generated_kind'', JStr (co_generated_kind c)), (u ''default_sql'', text_json (co_default_sql c))]"

definition relation_members :: "relation \<Rightarrow> (ustr \<times> json) list" where
  "relation_members r =
     [(u ''id'', JInt (rl_id r)), (u ''referenced_table'', JStr (rl_referenced_table r)),
      (u ''columns'', JArr (map JStr (rl_columns r))), (u ''referenced_columns'', JArr (map text_json (rl_referenced_columns r))),
      (u ''on_update'', JStr (rl_on_update r)), (u ''on_delete'', JStr (rl_on_delete r)), (u ''match'', JStr (rl_match r))]"

definition incoming_json :: "relation \<times> ustr \<Rightarrow> json" where
  "incoming_json rc = JObj (relation_members (fst rc) @ [(u ''child_table'', JStr (snd rc))])"

definition object_json :: "schema_object \<Rightarrow> json" where
  "object_json t = JObj
     [(u ''name'', JStr (so_name t)), (u ''kind'', JStr (so_kind t)),
      (u ''row_selection_supported'', JBool (so_row_selection_supported t)), (u ''without_rowid'', JBool (so_without_rowid t)),
      (u ''strict'', JBool (so_strict t)), (u ''columns'', JArr (map column_json (so_columns t))),
      (u ''foreign_keys'', JArr (map (\<lambda>r. JObj (relation_members r)) (so_foreign_keys t))),
      (u ''incoming_foreign_keys'', JArr (map incoming_json (so_incoming t)))]"

subsection \<open>What the inventory reads\<close>

definition relation_of :: "(int, relation) dict \<Rightarrow> int \<Rightarrow> relation list" where
  "relation_of d k = (case dget d k of None \<Rightarrow> [] | Some rel \<Rightarrow> [rel])"

interpretation fk_children: collector fk_step "\<lambda>d k. concat (map rl_columns (relation_of d k))" fr_id fr_child
  by unfold_locales (auto simp: fk_step_def relation_of_def Let_def res_simps dget_dput split: option.splits)

interpretation fk_targets: collector fk_step "\<lambda>d k. concat (map rl_referenced_columns (relation_of d k))" fr_id fr_target
  by unfold_locales (auto simp: fk_step_def relation_of_def Let_def res_simps dget_dput split: option.splits)

definition fk_inv :: "fk_row list \<Rightarrow> (int, relation) dict \<Rightarrow> bool" where
  "fk_inv seen d \<longleftrightarrow> dict_ok d \<and> set (dkeys d) = fr_id ` set seen \<and> length d \<le> 128 \<and>
     (\<forall>k rel. dget d k = Some rel \<longrightarrow> rl_id rel = k \<and>
        map fr_sequence (filter (\<lambda>r. fr_id r = k) seen) = map int [0..<length (rl_columns rel)] \<and>
        length (rl_columns rel) = length (filter (\<lambda>r. fr_id r = k) seen) \<and> length (rl_columns rel) \<le> 128)"

lemma length_dput: "length (dput k v d) = (if dhas d k then length d else Suc (length d))"
  by (induction d) (auto simp: dhas_def)

lemma fk_inv_step:
  assumes "fk_inv seen d" "fk_step d r = Inr d'"
  shows "fk_inv (seen @ [r]) d'"
proof -
  let ?k = "fr_id r"
  from assms(2) obtain rel where rel: "rel = (case dget d ?k of Some rel \<Rightarrow> rel
        | None \<Rightarrow> \<lparr>rl_id = ?k, rl_referenced_table = fr_parent r, rl_columns = [], rl_referenced_columns = [],
                   rl_on_update = fr_update r, rl_on_delete = fr_delete r, rl_match = fr_match r\<rparr>)"
    and d': "d' = dput ?k (rel\<lparr>rl_columns := rl_columns rel @ [fr_child r],
            rl_referenced_columns := rl_referenced_columns rel @ [fr_target r]\<rparr>) d"
    and ok: "length d < 128 \<or> dhas d ?k" "fr_sequence r = int (length (rl_columns rel))" "fr_sequence r < 128"
    by (auto simp: fk_step_def Let_def res_simps)
  have fresh: "filter (\<lambda>r. fr_id r = ?k) seen = []" if "dget d ?k = None"
  proof -
    have "?k \<notin> fr_id ` set seen" using assms(1) that dget_None_iff [of d ?k] by (simp add: fk_inv_def)
    then show ?thesis by (metis (mono_tags, lifting) filter_False imageI)
  qed
  have props: "rl_id rel = ?k" "map fr_sequence (filter (\<lambda>r. fr_id r = ?k) seen) = map int [0..<length (rl_columns rel)]"
      "length (rl_columns rel) = length (filter (\<lambda>r. fr_id r = ?k) seen)"
    using assms(1) fresh by (cases "dget d ?k"; simp add: rel fk_inv_def)+
  have old: "rl_id rel' = k \<and> map fr_sequence (filter (\<lambda>r. fr_id r = k) seen) = map int [0..<length (rl_columns rel')] \<and>
        length (rl_columns rel') = length (filter (\<lambda>r. fr_id r = k) seen) \<and> length (rl_columns rel') \<le> 128"
    if "dget d k = Some rel'" for k rel'
    using assms(1) that unfolding fk_inv_def by blast
  have "dict_ok d'" "set (dkeys d') = fr_id ` set (seen @ [r])" "length d' \<le> 128"
    using assms(1) ok(1) by (auto simp: d' fk_inv_def dkeys_dput length_dput)
  moreover have "rl_id rel' = k \<and> map fr_sequence (filter (\<lambda>r. fr_id r = k) (seen @ [r])) = map int [0..<length (rl_columns rel')] \<and>
        length (rl_columns rel') = length (filter (\<lambda>r. fr_id r = k) (seen @ [r])) \<and> length (rl_columns rel') \<le> 128"
    if "dget d' k = Some rel'" for k rel'
    using that props ok(2,3) old [of k rel'] by (cases "k = ?k") (auto simp: d' dget_dput)
  ultimately show ?thesis unfolding fk_inv_def by blast
qed

lemma fk_run_inv: "fold_res fk_step [] rows = Inr d \<Longrightarrow> fk_inv rows d"
proof (erule fold_res_inv [where P = fk_inv])
  show "fk_inv [] []" by (simp add: fk_inv_def)
qed (rule fk_inv_step)

subsection \<open>Properties\<close>

text \<open>The tables a custom query may read, and what it may read of them.\<close>

lemma allowed_tables_get:
  assumes "distinct (map so_name tables)"
  shows "dget (allowed_tables tables) n = map_option readable_names (find (\<lambda>t. so_kind t = u ''table'' \<and> so_name t = n) tables)"
proof -
  let ?P = "\<lambda>n t. so_kind t = u ''table'' \<and> so_name t = n"
  have gen: "dget (foldl (\<lambda>d t. if so_kind t \<noteq> u ''table'' then d else dput (so_name t) (readable_names t) d) d ts) n =
      (case find (?P n) ts of Some t \<Rightarrow> Some (readable_names t) | None \<Rightarrow> dget d n)"
    if "distinct (map so_name ts)" for d ts n
    using that
  proof (induction ts arbitrary: d)
    case Nil
    then show ?case by simp
  next
    case (Cons t ts)
    have "find (?P n) ts = None" if "so_name t = n"
    proof -
      have "so_name t \<notin> so_name ` set ts" using Cons.prems by simp
      then show ?thesis unfolding find_None_iff using that by (metis image_eqI)
    qed
    with Cons show ?case by (auto simp: dget_dput split: option.splits)
  qed
  show ?thesis
    using gen [OF assms, of "[]" n] by (simp add: allowed_tables_def split: option.splits)
qed

lemma allowed_tables_has:
  assumes "distinct (map so_name tables)"
  shows "dhas (allowed_tables tables) n \<longleftrightarrow> (\<exists>t \<in> set tables. so_kind t = u ''table'' \<and> so_name t = n)"
proof -
  let ?P = "\<lambda>t. so_kind t = u ''table'' \<and> so_name t = n"
  have "find ?P tables = None \<longleftrightarrow> \<not> (\<exists>t \<in> set tables. ?P t)" by (auto simp: find_None_iff)
  then show ?thesis unfolding dhas_iff allowed_tables_get [OF assms] by (cases "find ?P tables") simp_all
qed

lemma allowed_read_iff:
  assumes "distinct (map so_name tables)"
  shows "allowed_read (allowed_tables tables) arg1 arg2 \<longleftrightarrow>
    (\<exists>t \<in> set tables. so_kind t = u ''table'' \<and> arg1 = Some (so_name t) \<and> (\<exists>c \<in> set (readable_names t). arg2 = Some c))"
proof (cases "arg1 = None \<or> arg2 = None")
  case True
  then show ?thesis by (auto simp: allowed_read_def split: option.splits)
next
  case False
  then obtain n c where nc: "arg1 = Some n" "arg2 = Some c" by auto
  have uniq: "t' = t" if "t \<in> set tables" "t' \<in> set tables" "so_name t' = so_name t" for t t'
    using assms that by (auto simp: distinct_map inj_on_def)
  have found: "find (\<lambda>t. so_kind t = u ''table'' \<and> so_name t = n) tables = Some t"
    if "t \<in> set tables" "so_kind t = u ''table''" "so_name t = n" for t
  proof (cases "find (\<lambda>t. so_kind t = u ''table'' \<and> so_name t = n) tables")
    case None
    with that show ?thesis by (auto simp: find_None_iff)
  next
    case (Some t')
    then have "t' \<in> set tables" "so_name t' = n" by (auto simp: find_Some_iff)
    with that uniq [of t t'] Some show ?thesis by simp
  qed
  show ?thesis
  proof (cases "\<exists>t \<in> set tables. so_kind t = u ''table'' \<and> so_name t = n")
    case True
    then obtain t where t: "t \<in> set tables" "so_kind t = u ''table''" "so_name t = n" by blast
    then have "dget (allowed_tables tables) n = Some (readable_names t)" using found [OF t] allowed_tables_get [OF assms, of n] by auto
    with t nc uniq show ?thesis by (auto simp: allowed_read_def)
  next
    case False
    with nc allowed_tables_has [OF assms, of n] show ?thesis by (auto simp: allowed_read_def dhas_iff split: option.splits)
  qed
qed



text \<open>The statement budget: over the life of a connection the progress callback lets SQLite continue 4999
  times and stops it at every call from the 5000th on.\<close>

fun callbacks :: "nat \<Rightarrow> int \<Rightarrow> int list" where
  "callbacks 0 remaining = []"
| "callbacks (Suc n) remaining = (case progress remaining of (r, stop) \<Rightarrow> stop # callbacks n r)"

theorem progress_budget_exact:
  "callbacks n progress_budget = map (\<lambda>i. if i < 4999 then 0 else 1) [0..<n]"
proof -
  have "callbacks n r = map (\<lambda>i. if int i < r - 1 then 0 else 1) [0..<n]" for r
  proof (induction n arbitrary: r)
    case 0
    then show ?case by simp
  next
    case (Suc n)
    have up: "[0..<Suc n] = 0 # map Suc [0..<n]" by (metis map_Suc_upt upt_conv_Cons zero_less_Suc)
    show ?case unfolding up by (simp add: progress_def Let_def Suc algebra_simps)
  qed
  then show ?thesis by (simp add: progress_budget_def)
qed

lemma listed_relations:
  assumes "fk_inv rows d"
  shows "map rl_id (List.map_filter (dget d) (sort (dkeys d))) = sort (dkeys d)"
    and "sort (dkeys d) = sort (remdups (map fr_id rows))"
    and "rel \<in> set (List.map_filter (dget d) (sort (dkeys d))) \<Longrightarrow> dget d (rl_id rel) = Some rel"
proof -
  have get: "\<exists>rel. dget d k = Some rel \<and> rl_id rel = k" if "k \<in> set (dkeys d)" for k
    using that dget_None_iff [of d k] assms unfolding fk_inv_def by (cases "dget d k") auto
  have ids: "map rl_id (List.map_filter (dget d) ks) = ks" if "set ks \<subseteq> set (dkeys d)" for ks
    using that by (induction ks) (use get in \<open>force simp: List.map_filter_simps\<close>)+
  show "map rl_id (List.map_filter (dget d) (sort (dkeys d))) = sort (dkeys d)" by (rule ids) simp
  show "sort (dkeys d) = sort (remdups (map fr_id rows))"
    using assms by (intro sorted_distinct_set_unique) (auto simp: fk_inv_def dict_ok_def)
  show "dget d (rl_id rel) = Some rel" if "rel \<in> set (List.map_filter (dget d) (sort (dkeys d)))"
  proof -
    from that obtain k where k: "k \<in> set (dkeys d)" "dget d k = Some rel" by (auto simp: List.map_filter_def)
    with get [OF k(1)] show ?thesis by simp
  qed
qed


text \<open>An engine that answers every statement with nothing, and one foreign key for the table it is asked about.\<close>

definition sample_engine :: engine where
  "sample_engine = \<lparr>en_supported = True, en_version = u ''3.45.0'', en_open = (\<lambda>_. Inr ()),
     en_table_list = (\<lambda>_ _. ([\<lparr>tr_db = u ''main'', tr_name = u ''t'', tr_kind = u ''table'', tr_count = 1,
        tr_without_rowid = 0, tr_strict = 0\<rparr>], None)),
     en_table_xinfo = (\<lambda>_ _. ([\<lparr>xr_name = u ''c'', xr_declared = u ''INTEGER'', xr_notnull = 0, xr_default = None,
        xr_pk = 0, xr_hidden = 0\<rparr>], None)),
     en_foreign_key_list = (\<lambda>_ _. ([\<lparr>fr_id = 0, fr_sequence = 0, fr_parent = u ''t'', fr_child = u ''c'', fr_target = None,
        fr_update = u ''NO ACTION'', fr_delete = u ''NO ACTION'', fr_match = u ''NONE''\<rparr>], None)),
     en_execute = (\<lambda>_ _ _. Inr \<lparr>sr_description = None, sr_rows = ([], None)\<rparr>)\<rparr>"

definition sample_conn :: conn where
  "sample_conn = \<lparr>cn_data = [], cn_pragmas = [], cn_limits = [], cn_authorizer = read_authorizer None\<rparr>"


end
