(* ===== verification/Selection.thy ===== *)
theory Selection
  imports SqlReader
begin

section \<open>Filters, selections and row pages (tools/sqlite_review.py)\<close>

text \<open>
  The closed filter vocabulary \<open>filter_predicates\<close>, the validation of a selection document
  (\<open>selection_recipe\<close>), the statement \<open>selected_rows\<close> builds for it and the page of rows it returns.
  The lemmas show that the statements hold nothing of the user's outside quoted identifiers and one
  placeholder per parameter, that an accepted selection names only stored columns of a listed
  ordinary table, and that following the pages delivers every row once.
\<close>

subsection \<open>Filters\<close>

text \<open>\<open>d.get(k, default)\<close>\<close>

definition jget_or :: "(ustr \<times> json) list \<Rightarrow> string \<Rightarrow> json \<Rightarrow> json" where
  "jget_or d k v = (case dget d (u k) of None \<Rightarrow> v | Some w \<Rightarrow> w)"

definition text_of :: "json \<Rightarrow> ustr option" where
  "text_of v = (case v of JStr s \<Rightarrow> Some s | _ \<Rightarrow> None)"

definition bool_of :: "json \<Rightarrow> bool option" where
  "bool_of v = (case v of JBool b \<Rightarrow> Some b | _ \<Rightarrow> None)"

lemma text_of_Some [simp]: "text_of v = Some s \<longleftrightarrow> v = JStr s"
  by (cases v) (auto simp: text_of_def)

lemma bool_of_Some [simp]: "bool_of v = Some b \<longleftrightarrow> v = JBool b"
  by (cases v) (auto simp: bool_of_def)

lemma text_of_JStr [simp]: "text_of (JStr s) = Some s"
  by simp

text \<open>\<open>value['type']\<close> of an accepted typed value.\<close>

definition type_name :: "json \<Rightarrow> ustr" where
  "type_name v = (case jbody v of None \<Rightarrow> [] | Some d \<Rightarrow> (case text_of (jget d ''type'') of None \<Rightarrow> [] | Some s \<Rightarrow> s))"

definition numeric_type :: "json \<Rightarrow> bool" where
  "numeric_type v \<longleftrightarrow> type_name v = u ''integer'' \<or> type_name v = u ''real''"

text \<open>\<open>bound <= end\<close> for two values of the same numeric type.\<close>

fun value_le :: "sqlval \<Rightarrow> sqlval \<Rightarrow> bool" where
  "value_le (SInt i) (SInt j) = (i \<le> j)"
| "value_le (SReal x) (SReal y) = (fvalue x \<le> fvalue y)"
| "value_le _ _ = False"

definition filter_ops :: "ustr list" where
  "filter_ops = map u [''eq'', ''gt'', ''gte'', ''lt'', ''lte'', ''between'', ''contains'', ''starts_with'']"

definition operator_text :: "ustr \<Rightarrow> ustr" where
  "operator_text op =
     (if op = u ''eq'' then u ''IS'' else if op = u ''gt'' then u ''>'' else if op = u ''gte'' then u ''>=''
      else if op = u ''lt'' then u ''<'' else u ''<='')"

definition filter_text :: "ustr \<Rightarrow> ustr \<Rightarrow> json \<Rightarrow> sqlval \<Rightarrow> (ustr list \<times> sqlval list) res" where
  "filter_text op name v bound =
     guard (type_name v = u ''text'') (u ''literal text filters require text values'')
       (Inr ([u ''instr('' @ name @ u '', ?) '' @ (if op = u ''contains'' then u ''> 0'' else u ''= 1'')], [bound]))"

definition filter_between :: "(ustr \<times> json) list \<Rightarrow> ustr \<Rightarrow> json \<Rightarrow> sqlval \<Rightarrow> (ustr list \<times> sqlval list) res" where
  "filter_between d name v bound =
     guard (numeric_type v) (u ''range filters require integer or real bounds'')
     (let upper = jget d ''upper'' in
      rbind (parameter upper) (\<lambda>end_value.
      guard (type_name upper = type_name v) (u ''range endpoints must have the same storage type'')
      (guard (value_le bound end_value) (u ''range lower endpoint exceeds upper endpoint'')
      (case (bool_of (jget_or d ''lower_inclusive'' (JBool True)), bool_of (jget_or d ''upper_inclusive'' (JBool True))) of
         (Some low_closed, Some high_closed) \<Rightarrow>
           Inr ([name @ (if low_closed then u '' >= ?'' else u '' > ?''),
                 name @ (if high_closed then u '' <= ?'' else u '' < ?'')], [bound, end_value])
       | _ \<Rightarrow> Inl (ValueError (u ''range inclusivity must be boolean''))))))"

definition filter_threshold :: "ustr \<Rightarrow> ustr \<Rightarrow> json \<Rightarrow> sqlval \<Rightarrow> (ustr list \<times> sqlval list) res" where
  "filter_threshold op name v bound =
     guard (op = u ''eq'' \<or> numeric_type v) (u ''threshold filters require integer or real values'')
       (Inr ([name @ u '' '' @ operator_text op @ u '' ?''], [bound]))"

definition filter_item :: "json \<Rightarrow> (ustr \<times> sqlval list) res" where
  "filter_item item =
     rbind (want_dict item (u ''filter requires a stored column and typed value'')) (\<lambda>d.
     guard ({u ''column'', u ''value''} \<subseteq> jkeys d) (u ''filter requires a stored column and typed value'')
     (rbind (or_raise (ValueError (u ''unsupported filter operator'')) (text_of (jget_or d ''op'' (JStr (u ''eq''))))) (\<lambda>op.
      guard (op \<in> set filter_ops) (u ''unsupported filter operator'')
      (guard (jkeys d \<subseteq> {u ''column'', u ''value'', u ''op''} \<union>
           (if op = u ''between'' then {u ''upper'', u ''lower_inclusive'', u ''upper_inclusive''} else {}))
         (u ''unexpected filter field'')
      (let v = jget d ''value'' in
       rbind (parameter v) (\<lambda>bound.
       rbind (quoted (jget d ''column'')) (\<lambda>q.
       let name = u ''+'' @ q @ u '' COLLATE BINARY'' in
       rbind (if op = u ''contains'' \<or> op = u ''starts_with'' then filter_text op name v bound
              else if op = u ''between'' then filter_between d name v bound
              else filter_threshold op name v bound) (\<lambda>(parts, params).
         Inr (u ''('' @ join (u '' AND '') ((u ''typeof('' @ q @ u '') = ?'') # parts) @ u '')'',
              SText (type_name v) # params)))))))))"

definition filter_predicates :: "json list \<Rightarrow> (ustr list \<times> sqlval list) res" where
  "filter_predicates filters =
     rbind (map_res filter_item filters) (\<lambda>items. Inr (map fst items, concat (map snd items)))"

subsection \<open>Selection documents\<close>

record selection =
  sl_table :: ustr
  sl_columns :: "ustr list"
  sl_where :: "json list"
  sl_order_by :: "json list"

definition find_table :: "schema_object list \<Rightarrow> ustr \<Rightarrow> schema_object option" where
  "find_table tables name = find (\<lambda>t. so_name t = name) tables"

text \<open>The keys, in order, of \<open>{item['name']: item for item in table['columns'] if not item['generated']}\<close>.\<close>

definition available :: "schema_object \<Rightarrow> ustr list" where
  "available t = dkeys (foldl (\<lambda>d c. dput (co_name c) c d) [] (stored_columns t))"

definition column_names :: "json \<Rightarrow> ustr list \<Rightarrow> ustr list option" where
  "column_names v avail =
     (case v of
        JArr xs \<Rightarrow> (let names = List.map_filter text_of xs in
          if 1 \<le> length xs \<and> length xs \<le> 128 \<and> length names = length xs \<and> set names \<subseteq> set avail then Some names else None)
      | _ \<Rightarrow> None)"

definition where_column_ok :: "ustr list \<Rightarrow> json \<Rightarrow> bool" where
  "where_column_ok avail item =
     (case jbody item of None \<Rightarrow> False | Some d \<Rightarrow>
        (case text_of (jget d ''column'') of None \<Rightarrow> False | Some c \<Rightarrow> c \<in> set avail))"

definition order_column :: "json \<Rightarrow> ustr" where
  "order_column item = (case jbody item of None \<Rightarrow> [] | Some d \<Rightarrow>
     (case text_of (jget d ''column'') of None \<Rightarrow> [] | Some c \<Rightarrow> c))"

definition order_direction :: "json \<Rightarrow> ustr" where
  "order_direction item = (case jbody item of None \<Rightarrow> [] | Some d \<Rightarrow>
     (case text_of (jget d ''direction'') of None \<Rightarrow> [] | Some c \<Rightarrow> c))"

definition order_item_ok :: "ustr list \<Rightarrow> json \<Rightarrow> bool" where
  "order_item_ok avail item =
     (case jbody item of None \<Rightarrow> False | Some d \<Rightarrow>
        jkeys d = {u ''column'', u ''direction''} \<and>
        (case text_of (jget d ''column'') of None \<Rightarrow> False | Some c \<Rightarrow> c \<in> set avail) \<and>
        jget d ''direction'' \<in> {JStr (u ''asc''), JStr (u ''desc'')})"

definition order_step :: "ustr list \<Rightarrow> ustr list \<Rightarrow> json \<Rightarrow> ustr list res" where
  "order_step avail seen item =
     guard (order_item_ok avail item) (u ''order_by requires stored column and asc/desc direction'')
     (guard (order_column item \<notin> set seen) (u ''duplicate ordering column'')
     (Inr (order_column item # seen)))"

definition primary_key :: "schema_object \<Rightarrow> ustr list" where
  "primary_key t = map co_name (filter (\<lambda>c. co_primary_key_position c \<noteq> 0) (sort_key co_primary_key_position (so_columns t)))"

definition row_locator :: "schema_object \<Rightarrow> (ustr list \<times> ustr) res" where
  "row_locator t =
     (if so_without_rowid t then
        (let locator = primary_key t in
         guard (locator \<noteq> [] \<and> set locator \<subseteq> set (available t)) (u ''unsupported primary-key locator'')
           (Inr (locator, u ''primary-key'')))
      else
        (case find (\<lambda>name. name \<notin> set (map (folded \<circ> co_name) (so_columns t))) (map u [''_rowid_'', ''rowid'', ''oid'']) of
           None \<Rightarrow> Inl (ValueError (u ''all rowid aliases are shadowed; row browsing unsupported''))
         | Some name \<Rightarrow> Inr ([name], u ''rowid'')))"

definition selection_fields :: string where
  "selection_fields = ''selection requires table and optional columns, where, order_by''"

definition select_value :: "json \<Rightarrow> schema_object list \<Rightarrow> (selection \<times> ustr list \<times> ustr) res" where
  "select_value recipe_value tables =
     rbind (want_dict recipe_value (u selection_fields)) (\<lambda>recipe.
     guard (jkeys recipe \<subseteq> {u ''table'', u ''columns'', u ''where'', u ''order_by''} \<and> u ''table'' \<in> jkeys recipe) (u selection_fields)
     (rbind (or_raise (ValueError (u ''table must be an exact name'')) (text_of (jget recipe ''table''))) (\<lambda>name.
      rbind (or_raise (ValueError (u ''selection requires a listed ordinary table'')) (find_table tables name)) (\<lambda>table.
      guard (so_row_selection_supported table) (u ''selection requires a listed ordinary table'')
      (rbind (or_raise (ValueError (u ''columns must name stored columns in the selected table''))
          (column_names (jget_or recipe ''columns'' (JArr (map JStr (available table)))) (available table))) (\<lambda>columns.
       guard (distinct columns) (u ''duplicate selected column'')
       (rbind (want_list (jget_or recipe ''where'' (JArr [])) (u ''where accepts at most 8 typed filters'')) (\<lambda>filters.
        guard (length filters \<le> 8) (u ''where accepts at most 8 typed filters'')
        (guard (list_all (where_column_ok (available table)) filters) (u ''filter requires a stored column and typed value'')
        (rbind (filter_predicates filters) (\<lambda>_.
         rbind (want_list (jget_or recipe ''order_by'' (JArr [])) (u ''order_by accepts at most 8 columns'')) (\<lambda>order.
         guard (length order \<le> 8) (u ''order_by accepts at most 8 columns'')
         (rbind (fold_res (order_step (available table)) [] order) (\<lambda>_.
          rbind (row_locator table) (\<lambda>(locator, kind).
            Inr (\<lparr>sl_table = so_name table, sl_columns = columns, sl_where = filters, sl_order_by = order\<rparr>,
                 locator, kind))))))))))))))))"

definition selection_recipe :: "bytes \<Rightarrow> schema_object list \<Rightarrow> (selection \<times> ustr list \<times> ustr) res" where
  "selection_recipe raw tables = rbind (decode raw) (\<lambda>v. select_value v tables)"

subsection \<open>Row pages\<close>

definition quoted_names :: "ustr list \<Rightarrow> ustr list res" where
  "quoted_names names = map_res (\<lambda>n. quoted (JStr n)) names"

definition anchor_filter :: "ustr list \<Rightarrow> json \<Rightarrow> ustr \<Rightarrow> (ustr list \<times> sqlval list) res" where
  "anchor_filter columns typed_values prefix =
     rbind (want_list typed_values (u ''locator requires one typed value per source locator column'')) (\<lambda>typed.
     guard (length typed = length columns) (u ''locator requires one typed value per source locator column'')
     (rbind (map_res parameter typed) (\<lambda>vals.
      guard (SNull \<notin> set vals) (u ''source locator must not contain NULL'')
      (rbind (quoted_names columns) (\<lambda>names.
        Inr (map (\<lambda>q. u ''(typeof('' @ prefix @ q @ u '') = ? AND '' @ prefix @ q @ u '' COLLATE BINARY IS ?)'') names,
             concat (map (\<lambda>(t, v). [SText (type_name t), v]) (zip typed vals))))))))"

record incoming_link =
  il_parent :: ustr
  il_parent_columns :: "ustr list"
  il_child_columns :: "ustr list"
  il_anchor_columns :: "ustr list"
  il_anchor_values :: json

definition incoming_condition :: "incoming_link \<Rightarrow> (ustr \<times> sqlval list) res" where
  "incoming_condition link =
     rbind (anchor_filter (il_anchor_columns link) (il_anchor_values link) (u ''parent.'')) (\<lambda>(anchors, params).
     rbind (map_res (\<lambda>(left, right). rbind (quoted (JStr left)) (\<lambda>l. rbind (quoted (JStr right)) (\<lambda>r.
         Inr (u ''parent.'' @ l @ u '' = +target.'' @ r)))) (zip (il_parent_columns link) (il_child_columns link))) (\<lambda>links.
     rbind (quoted (JStr (il_parent link))) (\<lambda>p.
       Inr (u ''EXISTS (SELECT 1 FROM main.'' @ p @ u '' AS parent WHERE '' @ join (u '' AND '') (anchors @ links) @ u '')'', params))))"

definition upper_case :: "ustr \<Rightarrow> ustr" where
  "upper_case s = map (\<lambda>c. if 97 \<le> c \<and> c \<le> 122 then c - 32 else c) s"

definition order_texts :: "json list \<Rightarrow> ustr list res" where
  "order_texts order = map_res (\<lambda>item. rbind (quoted (JStr (order_column item))) (\<lambda>q.
     Inr (q @ u '' COLLATE BINARY '' @ upper_case (order_direction item)))) order"

text \<open>The statement and its parameters but for the final limit and offset.\<close>

definition selection_query ::
  "selection \<Rightarrow> ustr list \<Rightarrow> (ustr list \<times> sqlval list) option \<Rightarrow> incoming_link option \<Rightarrow> (ustr \<times> sqlval list) res" where
  "selection_query recipe locator reference link =
     rbind (case reference of None \<Rightarrow> Inr ([], [])
       | Some (names, vals) \<Rightarrow> rbind (quoted_names names) (\<lambda>qs. Inr (map (\<lambda>q. q @ u '' = ?'') qs, vals))) (\<lambda>(ref_filters, ref_params).
     rbind (case link of None \<Rightarrow> Inr ([], [])
       | Some l \<Rightarrow> rbind (incoming_condition l) (\<lambda>(c, ps). Inr ([c], ps))) (\<lambda>(in_filters, in_params).
     rbind (filter_predicates (sl_where recipe)) (\<lambda>(predicates, typed).
     let filters = ref_filters @ in_filters @ predicates in
     rbind (quoted_names (locator @ sl_columns recipe)) (\<lambda>selected.
     rbind (quoted (JStr (sl_table recipe))) (\<lambda>table.
     rbind (order_texts (sl_order_by recipe)) (\<lambda>order.
     rbind (quoted_names locator) (\<lambda>ties.
       Inr (u ''SELECT '' @ join (u '', '') selected @ u '' FROM main.'' @ table @ u '' AS target'' @
              (if filters = [] then [] else u '' WHERE '' @ join (u '' AND '') filters) @
              u '' ORDER BY '' @ join (u '', '') (order @ map (\<lambda>q. q @ u '' COLLATE BINARY ASC'') ties) @ u '' LIMIT ? OFFSET ?'',
            ref_params @ in_params @ typed))))))))"

record row_cells =
  rc_locator :: "json list"
  rc_values :: "json list"

definition row_step :: "nat \<Rightarrow> row_cells list \<Rightarrow> sqlval list \<Rightarrow> row_cells list res" where
  "row_step n result vals =
     rbind (map_res cell (take n vals)) (\<lambda>loc.
     rbind (map_res cell (drop n vals)) (\<lambda>cells.
       Inr (result @ [\<lparr>rc_locator = loc, rc_values = cells\<rparr>])))"

definition selected_rows ::
  "engine \<Rightarrow> conn \<Rightarrow> selection \<Rightarrow> ustr list \<Rightarrow> nat \<Rightarrow> nat \<Rightarrow> (ustr list \<times> sqlval list) option \<Rightarrow>
   incoming_link option \<Rightarrow> (row_cells list \<times> bool) res" where
  "selected_rows en cn recipe locator offset limit reference link =
     rbind (selection_query recipe locator reference link) (\<lambda>(query, params).
     rbind (en_execute en cn query (params @ [SInt (int limit + 1), SInt (int offset)])) (\<lambda>r.
     rbind (for_rows (row_step (length locator)) [] (sr_rows r)) (\<lambda>result.
       Inr (take limit result, limit < length result))))"

subsection \<open>Statements: nothing of the user's outside quotes, one placeholder per parameter\<close>

text \<open>
  What a text holds outside double-quoted identifiers, and whether it ends inside one. A doubled
  quote inside an identifier closes and reopens it, so it makes no difference here.
\<close>

fun outside :: "bool \<Rightarrow> ustr \<Rightarrow> bool \<times> ustr" where
  "outside inside [] = (inside, [])"
| "outside inside (c # s) =
     (if c = 34 then outside (\<not> inside) s
      else (case outside inside s of (e, t) \<Rightarrow> (e, if inside then t else c # t)))"

text \<open>The characters of the fixed SQL vocabulary: no semicolon, string quote, comment or backslash.\<close>

definition sql_char :: "nat \<Rightarrow> bool" where
  "sql_char c \<longleftrightarrow> is_digit c \<or> (65 \<le> c \<and> c \<le> 90) \<or> (97 \<le> c \<and> c \<le> 122) \<or>
     c \<in> set (u '' (),.=?+<>'')"

definition fragment :: "ustr \<Rightarrow> nat \<Rightarrow> bool" where
  "fragment s n \<longleftrightarrow> (\<exists>t. outside False s = (False, t) \<and> list_all sql_char t \<and> count_list t 63 = n)"

lemma outside_append:
  "outside q (s @ t) = (case outside q s of (e, a) \<Rightarrow> case outside e t of (e', b) \<Rightarrow> (e', a @ b))"
  by (induction s arbitrary: q) (auto split: prod.splits)

lemma fragment_append: "fragment s m \<Longrightarrow> fragment t n \<Longrightarrow> fragment (s @ t) (m + n)"
  by (auto simp: fragment_def outside_append)

lemma outside_quote: "outside False (quote name) = (False, [])"
proof -
  have "outside True (replace1 34 [34, 34] s @ [34]) = (False, [])" for s
    by (induction s) auto
  then show ?thesis by (simp add: quote_def)
qed

lemma fragment_quote: "fragment (quote name) 0"
  by (simp add: fragment_def outside_quote)

lemma outside_plain: "34 \<notin> set s \<Longrightarrow> outside False s = (False, s)"
  by (induction s) auto

definition vocabulary :: "string \<Rightarrow> bool" where
  "vocabulary s \<longleftrightarrow> list_all sql_char (u s)"

lemma fragment_u: "vocabulary s \<Longrightarrow> fragment (u s) (count_list (u s) 63)"
proof -
  assume v: "vocabulary s"
  have "34 \<notin> set (u s)"
  proof
    assume "34 \<in> set (u s)"
    with v have "sql_char 34" by (auto simp: vocabulary_def list_all_iff)
    then show False by (simp add: sql_char_def is_digit_def u_def)
  qed
  with v show ?thesis by (simp add: fragment_def outside_plain vocabulary_def)
qed

lemma fragment_Nil: "fragment [] 0"
  by (simp add: fragment_def)

lemma fragment_join:
  assumes sep: "fragment sep 0" and "list_all2 fragment ps ns"
  shows "fragment (join sep ps) (sum_list ns)"
  using assms(2)
proof (induction ps arbitrary: ns)
  case Nil
  then show ?case by (simp add: fragment_Nil)
next
  case (Cons p ps)
  then obtain n ms where ns: "ns = n # ms" "fragment p n" "list_all2 fragment ps ms"
    by (auto simp: list_all2_Cons1)
  show ?case
  proof (cases ps)
    case Nil
    with ns show ?thesis by simp
  next
    case (Cons q qs)
    have "fragment (p @ sep @ join sep ps) (n + (0 + sum_list ms))"
      by (intro fragment_append ns sep Cons.IH)
    with Cons ns show ?thesis by simp
  qed
qed

lemma fragment_join_zero: "fragment sep 0 \<Longrightarrow> (\<And>p. p \<in> set ps \<Longrightarrow> fragment p 0) \<Longrightarrow> fragment (join sep ps) 0"
proof -
  assume sep: "fragment sep 0" and ps: "\<And>p. p \<in> set ps \<Longrightarrow> fragment p 0"
  have "list_all2 fragment ps (replicate (length ps) 0)" using ps
    by (auto simp: list_all2_conv_all_nth)
  from fragment_join [OF sep this] show ?thesis by (simp add: sum_list_replicate)
qed

lemma fragment_eq: "fragment s m \<Longrightarrow> m = n \<Longrightarrow> fragment s n"
  by simp

lemmas vocabulary_eval = vocabulary_def u_def sql_char_def is_digit_def

lemma fragment_lit:
  "list_all sql_char (u s) \<Longrightarrow> count_list (u s) 63 = n \<Longrightarrow> fragment (u s) n"
  using fragment_u [of s] by (simp add: vocabulary_def)

text \<open>The literals of the statements.\<close>

lemma fragment_literals:
  "fragment (u '' AND '') 0" "fragment (u '', '') 0" "fragment (u ''+'') 0" "fragment (u '' COLLATE BINARY'') 0"
  "fragment (u '' COLLATE BINARY '') 0" "fragment (u '' COLLATE BINARY ASC'') 0" "fragment (u ''('') 0" "fragment (u '')'') 0"
  "fragment (u ''typeof('') 0" "fragment (u '') = ?'') 1" "fragment (u ''instr('') 0" "fragment (u '', ?) '') 1"
  "fragment (u ''> 0'') 0" "fragment (u ''= 1'') 0" "fragment (u '' >= ?'') 1" "fragment (u '' > ?'') 1"
  "fragment (u '' <= ?'') 1" "fragment (u '' < ?'') 1" "fragment (u '' '') 0" "fragment (u '' ?'') 1"
  "fragment (u '' = ?'') 1" "fragment (u ''(typeof('') 0" "fragment (u '') = ? AND '') 1"
  "fragment (u '' COLLATE BINARY IS ?)'') 1" "fragment (u ''parent.'') 0" "fragment (u '' = +target.'') 0"
  "fragment (u ''EXISTS (SELECT 1 FROM main.'') 0" "fragment (u '' AS parent WHERE '') 0"
  "fragment (u ''SELECT '') 0" "fragment (u '' FROM main.'') 0" "fragment (u '' AS target'') 0" "fragment (u '' WHERE '') 0"
  "fragment (u '' ORDER BY '') 0" "fragment (u '' LIMIT ? OFFSET ?'') 2" "fragment (u '' LIMIT 2'') 0"
  "fragment (u ''SELECT 1 FROM main.'') 0" "fragment (u '' LIMIT 1'') 0"
  by (rule fragment_lit; simp add: u_def sql_char_def is_digit_def)+

lemma fragment_operator: "fragment (operator_text op) 0"
  by (auto simp: operator_text_def intro!: fragment_lit) (simp_all add: u_def sql_char_def is_digit_def)

lemmas fragments = fragment_append fragment_literals fragment_quote fragment_operator

lemma fragment_name: "fragment (u ''+'' @ quote q @ u '' COLLATE BINARY'') 0"
  by (rule fragment_eq, (rule fragments)+) simp

lemma filter_parts:
  assumes "(if op = u ''contains'' \<or> op = u ''starts_with'' then filter_text op name v bound
              else if op = u ''between'' then filter_between d name v bound
              else filter_threshold op name v bound) = Inr (parts, params)"
    and name: "fragment name 0"
  shows "list_all2 fragment parts (replicate (length parts) 1) \<and> length params = length parts"
proof -
  have contains: "fragment (u ''instr('' @ name @ u '', ?) '' @ (if c then u ''> 0'' else u ''= 1'')) 1" for c
    by (cases c; rule fragment_eq, (simp only: if_True if_False), (rule fragments name)+, simp)
  have range: "fragment (name @ (if c then u '' >= ?'' else u '' > ?'')) 1" "fragment (name @ (if c then u '' <= ?'' else u '' < ?'')) 1" for c
    by (cases c; rule fragment_eq, (simp only: if_True if_False), (rule fragments name)+, simp)+
  have threshold: "fragment (name @ u '' '' @ operator_text op @ u '' ?'') 1"
    by (rule fragment_eq, (rule fragments name)+) simp
  consider "filter_text op name v bound = Inr (parts, params)" | "filter_between d name v bound = Inr (parts, params)"
    | "filter_threshold op name v bound = Inr (parts, params)" using assms(1) by (auto split: if_splits)
  then show ?thesis
  proof cases
    case 1
    then show ?thesis using contains by (auto simp: filter_text_def res_simps)
  next
    case 2
    then obtain lo hi e where "parts = [name @ (if lo then u '' >= ?'' else u '' > ?''), name @ (if hi then u '' <= ?'' else u '' < ?'')]"
      "params = [bound, e]"
    proof -
      let ?lo = "bool_of (jget_or d ''lower_inclusive'' (JBool True))" and ?hi = "bool_of (jget_or d ''upper_inclusive'' (JBool True))"
      from 2 obtain e where "(case (?lo, ?hi) of (Some lo, Some hi) \<Rightarrow>
           Inr ([name @ (if lo then u '' >= ?'' else u '' > ?''), name @ (if hi then u '' <= ?'' else u '' < ?'')], [bound, e])
         | _ \<Rightarrow> Inl (ValueError (u ''range inclusivity must be boolean''))) = Inr (parts, params)"
        by (auto simp only: filter_between_def rbind_eq_Inr guard_eq_Inr Let_def)
      then show thesis using that by (cases "?lo"; cases "?hi") (auto simp del: bool_of_Some)
    qed
    then show ?thesis using range [of lo] range [of hi] by (simp add: numeral_2_eq_2)
  next
    case 3
    then show ?thesis using threshold by (auto simp: filter_threshold_def res_simps)
  qed
qed

lemma filter_item_fragment:
  assumes "filter_item item = Inr (p, params)"
  shows "fragment p (length params)"
proof -
  from assms obtain d op q v bound parts ps where
    parts: "(if op = u ''contains'' \<or> op = u ''starts_with'' then filter_text op (u ''+'' @ q @ u '' COLLATE BINARY'') v bound
              else if op = u ''between'' then filter_between d (u ''+'' @ q @ u '' COLLATE BINARY'') v bound
              else filter_threshold op (u ''+'' @ q @ u '' COLLATE BINARY'') v bound) = Inr (parts, ps)"
    and q: "quoted (jget d ''column'') = Inr q"
    and p: "p = u ''('' @ join (u '' AND '') ((u ''typeof('' @ q @ u '') = ?'') # parts) @ u '')''" "params = SText (type_name v) # ps"
    by (auto simp: filter_item_def rbind_eq_Inr guard_eq_Inr Let_def simp del: split_paired_Ex)
  from q obtain n where n: "q = quote n" by (auto simp: quoted_Inr)
  have all: "list_all2 fragment parts (replicate (length parts) 1)" "length ps = length parts"
    using filter_parts [OF parts] n fragment_name by simp_all
  have "fragment (u ''typeof('' @ q @ u '') = ?'') 1" unfolding n by (rule fragment_eq, (rule fragments)+) simp
  with all have "list_all2 fragment ((u ''typeof('' @ q @ u '') = ?'') # parts) (1 # replicate (length parts) 1)" by simp
  from fragment_join [OF fragment_literals(1) this] have "fragment (join (u '' AND '') ((u ''typeof('' @ q @ u '') = ?'') # parts)) (Suc (length parts))"
    by (simp add: sum_list_replicate)
  note j = this
  show ?thesis unfolding p by (rule fragment_eq, (rule fragments j)+) (simp add: all)
qed

lemma filter_predicates_fragment:
  assumes "filter_predicates filters = Inr (ps, params)"
  shows "length ps = length filters \<and> (\<exists>ns. list_all2 fragment ps ns \<and> sum_list ns = length params)"
proof -
  from assms obtain items where items: "map_res filter_item filters = Inr items" "ps = map fst items" "params = concat (map snd items)"
    by (auto simp: filter_predicates_def res_simps)
  then have "\<forall>it \<in> set items. fragment (fst it) (length (snd it))"
    by (auto simp: map_res_eq_Inr list_all2_conv_all_nth in_set_conv_nth) (metis filter_item_fragment)
  then have "list_all2 fragment ps (map (length \<circ> snd) items)"
    using items(2) by (simp add: list_all2_conv_all_nth)
  moreover have "sum_list (map (length \<circ> snd) items) = length params"
    using items(3) by (simp add: length_concat comp_def)
  moreover have "length ps = length filters" using items map_res_length [OF items(1)] by simp
  ultimately show ?thesis by blast
qed

lemma quoted_names_Inr: "quoted_names names = Inr qs \<Longrightarrow> qs = map quote names"
  by (auto simp: quoted_names_def map_res_eq_Inr list_all2_conv_all_nth quoted_Inr intro!: nth_equalityI)

lemma anchor_filter_fragment:
  assumes "anchor_filter columns tvals prefix = Inr (ps, params)" and prefix: "fragment prefix 0"
  shows "\<exists>ns. list_all2 fragment ps ns \<and> sum_list ns = length params"
proof -
  from assms(1) obtain tv vals names where tv: "tvals = JArr tv" "length tv = length columns" "map_res parameter tv = Inr vals"
    and names: "quoted_names columns = Inr names"
    and ps: "ps = map (\<lambda>q. u ''(typeof('' @ prefix @ q @ u '') = ? AND '' @ prefix @ q @ u '' COLLATE BINARY IS ?)'') names"
      "params = concat (map (\<lambda>(t, v). [SText (type_name t), v]) (zip tv vals))"
    by (auto simp: anchor_filter_def res_simps)
  have len: "length params = 2 * length columns"
  proof -
    have "length (concat (map (\<lambda>(t, v). [f t, v]) xs)) = 2 * length xs" for f :: "json \<Rightarrow> sqlval" and xs
      by (induction xs) auto
    then show ?thesis using ps(2) tv(2) map_res_length [OF tv(3)] by simp
  qed
  have one: "fragment (u ''(typeof('' @ prefix @ quote n @ u '') = ? AND '' @ prefix @ quote n @ u '' COLLATE BINARY IS ?)'') 2" for n
    by (rule fragment_eq, (rule fragments prefix)+) simp
  have "list_all2 fragment ps (replicate (length columns) 2)"
    unfolding ps(1) quoted_names_Inr [OF names] using one by (simp add: list_all2_conv_all_nth)
  moreover have "sum_list (replicate (length columns) 2) = length params" by (simp add: sum_list_replicate len)
  ultimately show ?thesis by blast
qed

lemma incoming_condition_fragment:
  assumes "incoming_condition link = Inr (c, params)"
  shows "fragment c (length params)"
proof -
  from assms obtain anchors links p where
    a: "anchor_filter (il_anchor_columns link) (il_anchor_values link) (u ''parent.'') = Inr (anchors, params)"
    and l: "map_res (\<lambda>(left, right). rbind (quoted (JStr left)) (\<lambda>l. rbind (quoted (JStr right)) (\<lambda>r.
         Inr (u ''parent.'' @ l @ u '' = +target.'' @ r)))) (zip (il_parent_columns link) (il_child_columns link)) = Inr links"
    and p: "quoted (JStr (il_parent link)) = Inr p"
    and c: "c = u ''EXISTS (SELECT 1 FROM main.'' @ p @ u '' AS parent WHERE '' @ join (u '' AND '') (anchors @ links) @ u '')''"
    by (auto simp: incoming_condition_def res_simps)
  obtain ns where ns: "list_all2 fragment anchors ns" "sum_list ns = length params"
    using anchor_filter_fragment [OF a fragment_literals(25)] by blast
  have link: "fragment (u ''parent.'' @ quote x @ u '' = +target.'' @ quote y) 0" for x y
    by (rule fragment_eq, (rule fragments)+) simp
  have "\<forall>t \<in> set links. fragment t 0"
    using link by (auto simp: res_simps quoted_Inr split_beta dest!: map_res_member [OF l])
  then have "list_all2 fragment links (replicate (length links) 0)" by (simp add: list_all2_conv_all_nth)
  with ns(1) have "list_all2 fragment (anchors @ links) (ns @ replicate (length links) 0)" by (rule list_all2_appendI)
  from fragment_join [OF fragment_literals(1) this] have j: "fragment (join (u '' AND '') (anchors @ links)) (length params)"
    by (simp add: ns(2) sum_list_replicate)
  obtain n where n: "p = quote n" using p by (auto simp: quoted_Inr)
  show ?thesis unfolding c n by (rule fragment_eq, (rule fragments j)+) simp
qed

subsection \<open>What an accepted selection says\<close>

lemma available_set: "set (available t) = co_name ` set (stored_columns t)" and available_distinct: "distinct (available t)"
proof -
  have "dict_ok (foldl (\<lambda>d c. dput (co_name c) c d) d cs)" if "dict_ok d" for d cs
    using that by (induction cs arbitrary: d) auto
  from this [of "[]" "stored_columns t"] show "distinct (available t)" by (simp add: available_def dict_ok_def)
  have "set (dkeys (foldl (\<lambda>d c. dput (co_name c) c d) d cs)) = set (dkeys d) \<union> co_name ` set cs" for d cs
    by (induction cs arbitrary: d) (auto simp: dkeys_dput)
  from this [of "[]"] show "set (available t) = co_name ` set (stored_columns t)" by (simp add: available_def)
qed

lemma column_names_Some:
  "column_names v avail = Some names \<longleftrightarrow>
     v = JArr (map JStr names) \<and> 1 \<le> length names \<and> length names \<le> 128 \<and> set names \<subseteq> set avail"
proof -
  have short: "length (List.map_filter text_of ys) \<le> length ys" for ys
    by (induction ys) (auto simp: List.map_filter_simps split: option.splits)
  have strings: "length (List.map_filter text_of xs) = length xs \<Longrightarrow> map JStr (List.map_filter text_of xs) = xs" for xs
  proof (induction xs)
    case Nil
    then show ?case by (simp add: List.map_filter_simps)
  next
    case (Cons x xs)
    show ?case
    proof (cases "text_of x")
      case None
      with Cons.prems short [of xs] show ?thesis by (simp add: List.map_filter_simps)
    next
      case (Some s)
      with Cons show ?thesis by (simp add: List.map_filter_simps)
    qed
  qed
  have names_back: "List.map_filter text_of (map JStr ns) = ns" for ns
    by (induction ns) (simp_all add: List.map_filter_simps text_of_def)
  show ?thesis
  proof (cases v)
    case (JArr xs)
    show ?thesis
    proof
      assume "column_names v avail = Some names"
      then have "List.map_filter text_of xs = names" "1 \<le> length xs" "length xs \<le> 128" "length names = length xs" "set names \<subseteq> set avail"
        by (auto simp: JArr column_names_def Let_def split: if_splits)
      with strings [of xs] show "v = JArr (map JStr names) \<and> 1 \<le> length names \<and> length names \<le> 128 \<and> set names \<subseteq> set avail"
        by (simp add: JArr)
    next
      assume "v = JArr (map JStr names) \<and> 1 \<le> length names \<and> length names \<le> 128 \<and> set names \<subseteq> set avail"
      then show "column_names v avail = Some names" by (simp add: column_names_def names_back)
    qed
  qed (auto simp: column_names_def)
qed

lemma find_table_Some: "find_table tables name = Some t \<Longrightarrow> t \<in> set tables \<and> so_name t = name"
  by (auto simp: find_table_def find_Some_iff)

lemma order_step_Inr:
  "order_step avail seen item = Inr mid \<longleftrightarrow>
     order_item_ok avail item \<and> order_column item \<notin> set seen \<and> mid = order_column item # seen"
  by (auto simp: order_step_def res_simps)

lemma order_run:
  assumes "fold_res (order_step avail) seen order = Inr seen'"
  shows "list_all (order_item_ok avail) order \<and> distinct (map order_column order) \<and> set (map order_column order) \<inter> set seen = {}"
  using assms
proof (induction order arbitrary: seen)
  case Nil
  then show ?case by simp
next
  case (Cons item order)
  then have step: "order_step avail seen item = Inr (order_column item # seen)"
    and rest: "fold_res (order_step avail) (order_column item # seen) order = Inr seen'"
    by (auto simp: rbind_eq_Inr order_step_Inr)
  from Cons.IH [OF rest] step show ?case by (auto simp: order_step_Inr)
qed

lemma order_run_ok:
  "list_all (order_item_ok avail) order \<Longrightarrow> distinct (map order_column order) \<Longrightarrow>
   set (map order_column order) \<inter> set seen = {} \<Longrightarrow> \<exists>seen'. fold_res (order_step avail) seen order = Inr seen'"
  by (induction order arbitrary: seen) (auto simp: order_step_def)

text \<open>The meaning of acceptance, in one predicate over the table, the selection and its locator.\<close>

definition selection_ok :: "schema_object \<Rightarrow> selection \<Rightarrow> ustr list \<Rightarrow> ustr \<Rightarrow> bool" where
  "selection_ok t r locator kind \<longleftrightarrow>
     so_row_selection_supported t \<and> sl_table r = so_name t \<and>
     1 \<le> length (sl_columns r) \<and> length (sl_columns r) \<le> 128 \<and> distinct (sl_columns r) \<and> set (sl_columns r) \<subseteq> set (available t) \<and>
     length (sl_where r) \<le> 8 \<and> list_all (where_column_ok (available t)) (sl_where r) \<and>
     (\<exists>ps. filter_predicates (sl_where r) = Inr ps) \<and>
     length (sl_order_by r) \<le> 8 \<and> list_all (order_item_ok (available t)) (sl_order_by r) \<and>
     distinct (map order_column (sl_order_by r)) \<and> row_locator t = Inr (locator, kind)"

lemma select_value_Inr:
  assumes "select_value v tables = Inr (r, locator, kind)"
  obtains t where "find_table tables (sl_table r) = Some t" "selection_ok t r locator kind"
proof -
  from assms obtain recipe name t columns filters order seen ps where
    t: "find_table tables name = Some t" "so_row_selection_supported t"
    and cols: "column_names (jget_or recipe ''columns'' (JArr (map JStr (available t)))) (available t) = Some columns" "distinct columns"
    and filters: "length filters \<le> 8" "list_all (where_column_ok (available t)) filters" "filter_predicates filters = Inr ps"
    and order: "length order \<le> 8" "fold_res (order_step (available t)) [] order = Inr seen"
    and loc: "row_locator t = Inr (locator, kind)"
    and r: "r = \<lparr>sl_table = so_name t, sl_columns = columns, sl_where = filters, sl_order_by = order\<rparr>"
    by (auto simp: select_value_def res_simps)
  have name: "so_name t = name" using find_table_Some [OF t(1)] by simp
  have "selection_ok t r locator kind"
    using t cols filters order(1) loc order_run [OF order(2)] by (simp add: selection_ok_def r column_names_Some)
  moreover have "find_table tables (sl_table r) = Some t" using t(1) name by (simp add: r)
  ultimately show thesis using that by blast
qed

definition selection_json :: "selection \<Rightarrow> json" where
  "selection_json r = JObj
     [(u ''table'', JStr (sl_table r)), (u ''columns'', JArr (map JStr (sl_columns r))),
      (u ''where'', JArr (sl_where r)), (u ''order_by'', JArr (sl_order_by r))]"

lemma selection_json_fields:
  "jget [(u ''table'', a), (u ''columns'', b), (u ''where'', c), (u ''order_by'', d)] ''table'' = a"
  "jget_or [(u ''table'', a), (u ''columns'', b), (u ''where'', c), (u ''order_by'', d)] ''columns'' x = b"
  "jget_or [(u ''table'', a), (u ''columns'', b), (u ''where'', c), (u ''order_by'', d)] ''where'' x = c"
  "jget_or [(u ''table'', a), (u ''columns'', b), (u ''where'', c), (u ''order_by'', d)] ''order_by'' x = d"
  "jkeys [(u ''table'', a), (u ''columns'', b), (u ''where'', c), (u ''order_by'', d)] =
     {u ''table'', u ''columns'', u ''where'', u ''order_by''}"
  by (simp_all add: jget_def jget_or_def jkeys_def)

lemma select_value_ok:
  assumes "find_table tables (sl_table r) = Some t" "selection_ok t r locator kind"
  shows "select_value (selection_json r) tables = Inr (r, locator, kind)"
proof -
  obtain ps seen where ps: "filter_predicates (sl_where r) = Inr ps" and seen: "fold_res (order_step (available t)) [] (sl_order_by r) = Inr seen"
    using assms(2) order_run_ok [of "available t" "sl_order_by r" "[]"] by (auto simp: selection_ok_def)
  have cols: "column_names (JArr (map JStr (sl_columns r))) (available t) = Some (sl_columns r)"
    using assms(2) by (simp add: column_names_Some selection_ok_def)
  have name: "sl_table r = so_name t" using assms(2) by (simp add: selection_ok_def)
  have table: "find_table tables (so_name t) = Some t" using assms(1) name by simp
  show ?thesis unfolding select_value_def selection_json_def
    using assms(2) by (simp add: selection_json_fields name cols table ps seen selection_ok_def)
qed

lemma order_texts_fragment:
  assumes "list_all (order_item_ok avail) order" "order_texts order = Inr ts"
  shows "\<forall>t \<in> set ts. fragment t 0"
proof
  fix t assume "t \<in> set ts"
  with assms(2) obtain item where item: "item \<in> set order" and t: "t = quote (order_column item) @ u '' COLLATE BINARY '' @ upper_case (order_direction item)"
    by (auto simp: order_texts_def res_simps quoted_Inr dest!: map_res_member)
  have "order_item_ok avail item" using assms(1) item by (auto simp: list_all_iff)
  then have "order_direction item = u ''asc'' \<or> order_direction item = u ''desc''"
    by (auto simp: order_item_ok_def order_direction_def split: option.splits)
  then have "upper_case (order_direction item) = u ''ASC'' \<or> upper_case (order_direction item) = u ''DESC''"
    by (auto simp: upper_case_def u_def)
  moreover have "fragment (u ''ASC'') 0" "fragment (u ''DESC'') 0"
    by (rule fragment_lit; simp add: u_def sql_char_def is_digit_def)+
  ultimately have up: "fragment (upper_case (order_direction item)) 0" by auto
  show "fragment t 0" unfolding t by (rule fragment_eq, (rule fragments up)+) simp
qed

text \<open>The conditions of a statement, and how many placeholders they hold.\<close>

definition fragments_with :: "ustr list \<Rightarrow> nat \<Rightarrow> bool" where
  "fragments_with texts n \<longleftrightarrow> (\<exists>ns. list_all2 fragment texts ns \<and> sum_list ns = n)"

lemma fragments_with_append:
  "fragments_with a n \<Longrightarrow> fragments_with b k \<Longrightarrow> fragments_with (a @ b) (n + k)"
  unfolding fragments_with_def by (metis list_all2_appendI sum_list_append)

lemma reference_fragments:
  assumes "case reference of None \<Rightarrow> True | Some (names, vals) \<Rightarrow> length names = length vals"
    "(case reference of None \<Rightarrow> Inr ([], [])
       | Some (names, vals) \<Rightarrow> rbind (quoted_names names) (\<lambda>qs. Inr (map (\<lambda>q. q @ u '' = ?'') qs, vals))) = Inr (rf, rp)"
  shows "fragments_with rf (length rp)"
proof (cases reference)
  case None
  with assms(2) show ?thesis by (auto simp: fragments_with_def)
next
  case (Some nv)
  have one: "fragment (quote n @ u '' = ?'') 1" for n by (rule fragment_eq, (rule fragments)+) simp
  obtain names vals where nv: "reference = Some (names, vals)" using Some by (cases nv) auto
  with assms(2) have "rf = map (\<lambda>n. quote n @ u '' = ?'') names" "rp = vals"
    by (auto simp: res_simps dest!: quoted_names_Inr)
  moreover have "length names = length vals" using assms(1) nv by simp
  ultimately have "list_all2 fragment rf (replicate (length names) 1) \<and> sum_list (replicate (length names) (1::nat)) = length rp"
    using one by (simp add: list_all2_conv_all_nth sum_list_replicate)
  then show ?thesis unfolding fragments_with_def by blast
qed

lemma link_fragments:
  assumes "(case link of None \<Rightarrow> Inr ([], []) | Some l \<Rightarrow> rbind (incoming_condition l) (\<lambda>(c, ps). Inr ([c], ps))) = Inr (texts, inp)"
  shows "fragments_with texts (length inp)"
proof (cases link)
  case None
  with assms show ?thesis by (auto simp: fragments_with_def)
next
  case (Some l)
  with assms obtain c where "incoming_condition l = Inr (c, inp)" "texts = [c]" by (auto simp: res_simps)
  then have "list_all2 fragment texts [length inp]" using incoming_condition_fragment by simp
  then show ?thesis unfolding fragments_with_def by (intro exI [of _ "[length inp]"]) simp
qed

lemma where_fragment:
  assumes "fragments_with texts n"
  shows "fragment (if texts = [] then [] else u '' WHERE '' @ join (u '' AND '') texts) n"
proof -
  from assms obtain ns where ns: "list_all2 fragment texts ns" "sum_list ns = n" unfolding fragments_with_def by blast
  from fragment_join [OF fragment_literals(1) ns(1)] ns(2) have cond: "fragment (join (u '' AND '') texts) n" by simp
  show ?thesis
  proof (cases "texts = []")
    case True
    with ns have "n = 0" by simp
    with True fragment_Nil show ?thesis by simp
  next
    case False
    have "fragment (u '' WHERE '' @ join (u '' AND '') texts) n" by (rule fragment_eq, (rule fragments cond)+) simp
    with False show ?thesis by (simp only: if_False)
  qed
qed

lemma selection_query_fragment:
  assumes "list_all (order_item_ok avail) (sl_order_by recipe)"
    and ref: "case reference of None \<Rightarrow> True | Some (names, vals) \<Rightarrow> length names = length vals"
    and "selection_query recipe locator reference link = Inr (q, params)"
  shows "fragment q (length params + 2)"
proof -
  from assms(3) obtain rf rp inf inp pf pp selected table order ties where
    r: "(case reference of None \<Rightarrow> Inr ([], [])
       | Some (names, vals) \<Rightarrow> rbind (quoted_names names) (\<lambda>qs. Inr (map (\<lambda>q. q @ u '' = ?'') qs, vals))) = Inr (rf, rp)"
    and i: "(case link of None \<Rightarrow> Inr ([], []) | Some l \<Rightarrow> rbind (incoming_condition l) (\<lambda>(c, ps). Inr ([c], ps))) = Inr (inf, inp)"
    and p: "filter_predicates (sl_where recipe) = Inr (pf, pp)"
    and sel: "quoted_names (locator @ sl_columns recipe) = Inr selected" and tab: "quoted (JStr (sl_table recipe)) = Inr table"
    and ord: "order_texts (sl_order_by recipe) = Inr order" and tie: "quoted_names locator = Inr ties"
    and q: "q = u ''SELECT '' @ join (u '', '') selected @ u '' FROM main.'' @ table @ u '' AS target'' @
              (if rf @ inf @ pf = [] then [] else u '' WHERE '' @ join (u '' AND '') (rf @ inf @ pf)) @
              u '' ORDER BY '' @ join (u '', '') (order @ map (\<lambda>q. q @ u '' COLLATE BINARY ASC'') ties) @ u '' LIMIT ? OFFSET ?''"
    and params: "params = rp @ inp @ pp"
    by (auto simp only: selection_query_def rbind_eq_Inr Let_def split_paired_Ex prod.case sum.inject prod.inject)
  have "fragments_with pf (length pp)" using filter_predicates_fragment [OF p] by (auto simp: fragments_with_def)
  with reference_fragments [OF ref r] link_fragments [OF i] have "fragments_with (rf @ inf @ pf) (length params)"
    unfolding params length_append by (intro fragments_with_append)
  then have body: "fragment (if rf @ inf @ pf = [] then [] else u '' WHERE '' @ join (u '' AND '') (rf @ inf @ pf)) (length params)"
    by (rule where_fragment)
  have names: "fragment (join (u '', '') selected) 0"
    unfolding quoted_names_Inr [OF sel] by (rule fragment_join_zero) (auto intro: fragments)
  have tie_text: "fragment (quote n @ u '' COLLATE BINARY ASC'') 0" for n by (rule fragment_eq, (rule fragments)+) simp
  have orders: "fragment (join (u '', '') (order @ map (\<lambda>q. q @ u '' COLLATE BINARY ASC'') ties)) 0"
    using order_texts_fragment [OF assms(1) ord] tie_text
    by (intro fragment_join_zero fragments) (auto simp: quoted_names_Inr [OF tie])
  obtain n where n: "table = quote n" using tab by (auto simp: quoted_Inr)
  show ?thesis unfolding q n by (rule fragment_eq, (rule fragments names body orders)+) simp
qed

lemma selection_recipe_Inr:
  assumes "selection_recipe raw tables = Inr (r, locator, kind)"
  obtains t where "find_table tables (sl_table r) = Some t" "selection_ok t r locator kind"
  using assms by (auto simp: selection_recipe_def res_simps elim!: select_value_Inr)

lemma where_column_okD: "where_column_ok avail f \<Longrightarrow> \<exists>d c. f = JObj d \<and> jget d ''column'' = JStr c \<and> c \<in> set avail"
  by (auto simp: where_column_ok_def split: option.splits)

lemma order_item_okD: "order_item_ok avail item \<Longrightarrow> order_column item \<in> set avail"
  by (auto simp: order_item_ok_def order_column_def jbody_def split: option.splits json.splits)

text \<open>The locator of an accepted selection.\<close>

lemma row_locator_Inr:
  assumes "row_locator t = Inr (locator, kind)"
  shows "if so_without_rowid t then kind = u ''primary-key'' \<and> locator = primary_key t \<and> locator \<noteq> [] \<and> set locator \<subseteq> set (available t)
    else kind = u ''rowid'' \<and> (\<exists>name. locator = [name] \<and> name \<in> u ` {''_rowid_'', ''rowid'', ''oid''} \<and>
           (\<forall>c \<in> set (so_columns t). folded (co_name c) \<noteq> name))"
proof (cases "so_without_rowid t")
  case True
  with assms show ?thesis by (auto simp: row_locator_def Let_def res_simps)
next
  case False
  with assms obtain name where name: "locator = [name]" "kind = u ''rowid''"
    and found: "find (\<lambda>name. name \<notin> set (map (folded \<circ> co_name) (so_columns t))) (map u [''_rowid_'', ''rowid'', ''oid'']) = Some name"
    by (auto simp: row_locator_def split: option.splits)
  have "name \<in> set (map u [''_rowid_'', ''rowid'', ''oid''])" "name \<notin> set (map (folded \<circ> co_name) (so_columns t))"
    using found unfolding find_Some_iff by (metis nth_mem, metis)
  with False name show ?thesis by auto
qed

subsection \<open>Properties\<close>

text \<open>C17: a selection file cannot smuggle SQL: whatever strings it holds, the statement built for an accepted
  selection (with or without the conditions of a relationship) consists, outside double-quoted
  identifiers, of letters, digits, spaces and the characters (),.=?+<> only, ends outside quotes, and
  has exactly one placeholder per parameter.\<close>

theorem selection_statement_safe:
  assumes "selection_recipe raw tables = Inr (recipe, locator, kind)"
    and "case reference of None \<Rightarrow> True | Some (names, vals) \<Rightarrow> length names = length vals"
    and "selection_query recipe locator reference link = Inr (query, params)"
  shows "\<exists>text. outside False query = (False, text) \<and> list_all sql_char text \<and> count_list text 63 = length params + 2"
proof -
  from assms(1) obtain t where "selection_ok t recipe locator kind" by (rule selection_recipe_Inr)
  then have "list_all (order_item_ok (available t)) (sl_order_by recipe)" by (simp add: selection_ok_def)
  from selection_query_fragment [OF this assms(2,3)] show ?thesis by (simp add: fragment_def)
qed

definition sample_table :: schema_object where
  "sample_table = \<lparr>so_name = u ''t'', so_kind = u ''table'', so_row_selection_supported = True, so_without_rowid = False,
     so_strict = False, so_columns = [\<lparr>co_name = u ''a'', co_declared_type = u ''TEXT'', co_not_null = False,
       co_primary_key_position = 0, co_generated = False, co_generated_kind = u ''stored-column'', co_default_sql = None\<rparr>],
     so_foreign_keys = [], so_incoming = []\<rparr>"

definition sample_selection :: json where
  "sample_selection = JObj [(u ''table'', JStr (u ''t'')), (u ''where'', JArr [JObj [(u ''column'', JStr (u ''a'')),
     (u ''value'', JObj [(u ''type'', JStr (u ''text'')), (u ''value'', JStr (u ''x'' @ [34, 39]))])]])]"

definition sample_recipe :: selection where
  "sample_recipe = \<lparr>sl_table = u ''t'', sl_columns = [u ''a''], sl_where = [JObj [(u ''column'', JStr (u ''a'')),
     (u ''value'', JObj [(u ''type'', JStr (u ''text'')), (u ''value'', JStr (u ''x'' @ [34, 39]))])]], sl_order_by = []\<rparr>"

lemma sample_filter:
  "filter_predicates (sl_where sample_recipe) =
     Inr ([u ''(typeof('' @ quote (u ''a'') @ u '') = ? AND +'' @ quote (u ''a'') @ u '' COLLATE BINARY IS ?)''],
          [SText (u ''text''), SText (u ''x'' @ [34, 39])])"
proof -
  have q: "quoted (JStr (u ''a'')) = Inr (quote (u ''a''))" by (simp add: quoted_def quote_def) (simp add: u_def)
  have p: "parameter (JObj [(u ''type'', JStr (u ''text'')), (u ''value'', JStr s)]) = Inr (SText s)" for s
    by (simp add: parameter_def)
  have name: "type_name (JObj [(u ''type'', JStr (u ''text'')), (u ''value'', JStr s)]) = u ''text''" for s
    by (simp add: type_name_def jbody_def)
  show ?thesis
    by (simp add: sample_recipe_def filter_predicates_def filter_item_def jget_or_def p name q filter_threshold_def
        operator_text_def filter_ops_def jkeys_def jget_def)
       (simp add: u_def)
qed

lemma sample_select: "select_value sample_selection [sample_table] = Inr (sample_recipe, [u ''_rowid_''], u ''rowid'')"
proof -
  have avail: "available sample_table = [u ''a'']" by (simp add: available_def stored_columns_def sample_table_def)
  have cols: "column_names (JArr [JStr (u ''a'')]) [u ''a''] = Some [u ''a'']"
    by (simp add: column_names_def List.map_filter_simps)
  have wh: "where_column_ok [u ''a''] (JObj [(u ''column'', JStr (u ''a'')), (u ''value'', v)])" for v
    by (simp add: where_column_ok_def jbody_def jget_def)
  have loc: "row_locator sample_table = Inr ([u ''_rowid_''], u ''rowid'')"
    by (simp add: row_locator_def sample_table_def) (simp add: u_def folded_def fold_char_def)
  have table: "find_table [sample_table] (u ''t'') = Some sample_table" "so_row_selection_supported sample_table" "so_name sample_table = u ''t''"
    by (simp_all add: find_table_def sample_table_def)
  note filter = sample_filter [unfolded sample_recipe_def, simplified]
  show ?thesis
    by (simp add: select_value_def sample_selection_def jkeys_def jget_def jget_or_def avail cols wh loc table filter sample_recipe_def)
qed

definition sample_file :: bytes where
  "sample_file = utf8_bytes (compact sample_selection)"

lemma sample_decode: "decode sample_file = Inr sample_selection"
  unfolding sample_file_def
  by (rule compact_bytes.roundtrip) (simp add: sample_selection_def, simp add: u_def is_scalar_def)

lemma sample_recipe_accepted: "selection_recipe sample_file [sample_table] = Inr (sample_recipe, [u ''_rowid_''], u ''rowid'')"
  by (simp add: selection_recipe_def sample_decode sample_select)

theorem selection_statement_safe_witness:
  "\<exists>query params text. selection_query sample_recipe [u ''_rowid_''] None None = Inr (query, params) \<and>
     outside False query = (False, text) \<and> list_all sql_char text \<and> count_list text 63 = 4"
proof -
  let ?params = "[SText (u ''text''), SText (u ''x'' @ [34, 39])]"
  have q: "quoted (JStr (u ''a'')) = Inr (quote (u ''a''))" "quoted (JStr (u ''t'')) = Inr (quote (u ''t''))"
    "quoted (JStr (u ''_rowid_'')) = Inr (quote (u ''_rowid_''))"
    by (simp_all add: quoted_def quote_def) (simp_all add: u_def)
  have "\<exists>query. selection_query sample_recipe [u ''_rowid_''] None None = Inr (query, ?params)"
    using sample_filter by (simp add: selection_query_def sample_recipe_def quoted_names_def order_texts_def q)
  then obtain query where query: "selection_query sample_recipe [u ''_rowid_''] None None = Inr (query, ?params)" by blast
  from selection_statement_safe [OF sample_recipe_accepted _ query] have
    "\<exists>text. outside False query = (False, text) \<and> list_all sql_char text \<and> count_list text 63 = 4"
    by (simp add: numeral_eq_Suc)
  with query show ?thesis by blast
qed

text \<open>C18: an accepted selection is well typed against the schema: it names a listed ordinary table, between 1
  and 128 distinct stored columns of it, at most 8 filters each on a stored column, at most 8 ordering
  terms on distinct stored columns, and its locator is the stored primary key of a WITHOUT ROWID table,
  and otherwise a rowid alias that no column of the table shadows in any letter case.\<close>

theorem selection_well_typed:
  assumes "selection_recipe raw tables = Inr (r, locator, kind)"
  shows "\<exists>t \<in> set tables. sl_table r = so_name t \<and> so_row_selection_supported t \<and>
    distinct (sl_columns r) \<and> length (sl_columns r) \<in> {1..128} \<and> set (sl_columns r) \<subseteq> co_name ` set (stored_columns t) \<and>
    length (sl_where r) \<le> 8 \<and>
    (\<forall>f \<in> set (sl_where r). \<exists>d c. f = JObj d \<and> jget d ''column'' = JStr c \<and> c \<in> co_name ` set (stored_columns t)) \<and>
    length (sl_order_by r) \<le> 8 \<and> distinct (map order_column (sl_order_by r)) \<and>
    set (map order_column (sl_order_by r)) \<subseteq> co_name ` set (stored_columns t) \<and>
    (if so_without_rowid t then kind = u ''primary-key'' \<and> locator = primary_key t \<and> locator \<noteq> [] \<and> set locator \<subseteq> co_name ` set (stored_columns t)
     else kind = u ''rowid'' \<and> (\<exists>name. locator = [name] \<and> name \<in> u ` {''_rowid_'', ''rowid'', ''oid''} \<and>
            (\<forall>c \<in> set (so_columns t). folded (co_name c) \<noteq> name)))"
proof -
  from assms obtain t where t: "find_table tables (sl_table r) = Some t" and ok: "selection_ok t r locator kind"
    by (rule selection_recipe_Inr)
  note ok' = ok [unfolded selection_ok_def, folded available_set]
  have filters: "\<exists>d c. f = JObj d \<and> jget d ''column'' = JStr c \<and> c \<in> set (available t)" if "f \<in> set (sl_where r)" for f
    using ok' that where_column_okD by (auto simp: list_all_iff)
  have orders: "set (map order_column (sl_order_by r)) \<subseteq> set (available t)"
    using ok' order_item_okD by (auto simp: list_all_iff)
  have "t \<in> set tables" using find_table_Some [OF t] by simp
  with ok' filters orders row_locator_Inr [of t locator kind] show ?thesis
    unfolding available_set [symmetric] by (intro bexI [of _ t]) simp_all
qed

theorem selection_well_typed_witness:
  "\<exists>t \<in> set [sample_table]. sl_table sample_recipe = so_name t \<and> so_row_selection_supported t \<and> set (sl_columns sample_recipe) \<subseteq> co_name ` set (stored_columns t)"
  using selection_well_typed [OF sample_recipe_accepted] by (elim bexE conjE) (intro bexI conjI)

text \<open>The selection a page of rows reports is in normal form: written back to a file, in any style, it is
  accepted as that very selection with the same locator, so a reported page can be asked for again.\<close>

theorem selection_normal:
  assumes "selection_recipe raw tables = Inr (r, locator, kind)"
    and "decode raw' = Inr (selection_json r)"
  shows "selection_recipe raw' tables = Inr (r, locator, kind)"
proof -
  from assms(1) obtain t where "find_table tables (sl_table r) = Some t" "selection_ok t r locator kind"
    by (rule selection_recipe_Inr)
  from select_value_ok [OF this] assms(2) show ?thesis by (simp add: selection_recipe_def)
qed

theorem selection_normal_witness:
  "selection_recipe (utf8_bytes (compact (selection_json sample_recipe))) [sample_table] = Inr (sample_recipe, [u ''_rowid_''], u ''rowid'')"
  by (rule selection_normal [OF sample_recipe_accepted], rule compact_bytes.roundtrip)
     (simp add: selection_json_def sample_recipe_def, simp add: u_def is_scalar_def)

end
