(* ===== verification/Paging.thy ===== *)
theory Paging
  imports Prelude
begin

section \<open>Pages and their continuation\<close>

text \<open>
  Every paged command of the tools reports an offset to continue at, or none. \<open>follow\<close> is the
  reader of such pages; the interface \<open>pager\<close> is what a paged command promises, and its client
  lemma says that following the reported offsets delivers the whole content once, in order, in as
  many pages as the content needs.
\<close>

definition next_offset :: "nat \<Rightarrow> 'r list \<Rightarrow> bool \<Rightarrow> nat option" where
  "next_offset offset rows more = (if more then Some (offset + length rows) else None)"

fun follow :: "(nat \<Rightarrow> nat \<Rightarrow> ('r list \<times> bool) res) \<Rightarrow> nat \<Rightarrow> nat \<Rightarrow> nat \<Rightarrow> 'r list res" where
  "follow fetch limit 0 offset = Inl OutOfFuel"
| "follow fetch limit (Suc n) offset =
     rbind (fetch offset limit) (\<lambda>(rows, more).
       case next_offset offset rows more of
         None \<Rightarrow> Inr rows
       | Some offset' \<Rightarrow> rbind (follow fetch limit n offset') (\<lambda>rest. Inr (rows @ rest)))"

locale pager =
  fixes fetch :: "'s \<Rightarrow> nat \<Rightarrow> nat \<Rightarrow> ('r list \<times> bool) res"
    and content :: "'s \<Rightarrow> 'r list"
    and valid :: "'s \<Rightarrow> bool"
  assumes fetch_page: "valid s \<Longrightarrow>
    fetch s offset limit = Inr (take limit (drop offset (content s)), offset + limit < length (content s))"
begin

lemma page_bound: "valid s \<Longrightarrow> fetch s offset limit = Inr (rows, more) \<Longrightarrow> length rows \<le> limit"
  by (auto simp: fetch_page)

lemma page_full: "valid s \<Longrightarrow> fetch s offset limit = Inr (rows, True) \<Longrightarrow> length rows = limit"
  by (auto simp: fetch_page)

lemma page_empty: "valid s \<Longrightarrow> 1 \<le> limit \<Longrightarrow> fetch s 0 limit = Inr ([], more) \<longleftrightarrow> content s = [] \<and> \<not> more"
  by (auto simp: fetch_page)

lemma follow_content:
  assumes "valid s" "1 \<le> limit" "length (content s) \<le> offset + Suc n * limit"
  shows "follow (fetch s) limit (Suc n) offset = Inr (drop offset (content s))"
  using assms(3)
proof (induction n arbitrary: offset)
  case 0
  then show ?case by (simp add: fetch_page [OF assms(1)] next_offset_def)
next
  case (Suc n)
  show ?case
  proof (cases "offset + limit < length (content s)")
    case True
    then have len: "length (take limit (drop offset (content s))) = limit" by simp
    have "follow (fetch s) limit (Suc n) (offset + limit) = Inr (drop (offset + limit) (content s))"
      using Suc.prems by (intro Suc.IH) (simp add: algebra_simps)
    moreover have "take limit (drop offset (content s)) @ drop (offset + limit) (content s) = drop offset (content s)"
      by (metis add.commute append_take_drop_id drop_drop)
    ultimately show ?thesis unfolding follow.simps(2) [of "fetch s" limit "Suc n" offset]
      using True len by (simp add: fetch_page [OF assms(1)] next_offset_def del: follow.simps length_take length_drop)
  next
    case False
    then show ?thesis by (simp add: fetch_page [OF assms(1)] next_offset_def)
  qed
qed

text \<open>No more pages than the content needs: the reader stops by itself.\<close>

lemma follow_enough:
  assumes "valid s" "1 \<le> limit"
  shows "\<exists>n. \<forall>m \<ge> n. follow (fetch s) limit m 0 = Inr (content s)"
proof (intro exI allI impI)
  fix m assume m: "Suc (length (content s)) \<le> m"
  then obtain k where k: "m = Suc k" by (cases m) auto
  have "length (content s) \<le> Suc k * limit" using m assms(2) unfolding k by (cases limit) auto
  then show "follow (fetch s) limit m 0 = Inr (content s)"
    using follow_content [OF assms, of 0 k] by (simp add: k)
qed

end

end
