(* ===== verification/Relations.thy ===== *)
theory Relations
  imports Selection Commands Paging
begin

section \<open>Following declared foreign keys (tools/sqlite_review.py)\<close>

text \<open>
  \<open>resolve_relationship\<close>, \<open>anchor_row\<close>, and the two ways of following a declared foreign key
  from one retained row: to the parent rows it references (\<open>relation_rows\<close>) and to the child rows
  that reference it (\<open>referencing_rows\<close>). The lemmas say which columns a resolved relationship
  compares, what each reported status means, and, for an engine that answers LIMIT and OFFSET as
  documented, what pages hold.
\<close>

subsection \<open>Resolving a declaration\<close>

text \<open>The dictionary \<open>{folded(name): name}\<close> of the stored columns.\<close>

definition folded_columns :: "schema_object \<Rightarrow> (ustr, ustr) dict" where
  "folded_columns t = foldl (\<lambda>d c. dput (folded (co_name c)) (co_name c) d) [] (stored_columns t)"

definition resolve_names :: "ustr option list \<Rightarrow> schema_object \<Rightarrow> ustr list res" where
  "resolve_names names t =
     guard (list_all (\<lambda>n. case n of None \<Rightarrow> False | Some s \<Rightarrow> dhas (folded_columns t) (folded s)) names)
       (u ''foreign key requires stored source and target columns'')
     (Inr (List.map_filter (\<lambda>n. Option.bind n (\<lambda>s. dget (folded_columns t) (folded s))) names))"

definition resolve_relationship ::
  "relation \<Rightarrow> schema_object \<Rightarrow> schema_object list \<Rightarrow> (ustr list \<times> schema_object \<times> ustr list) res" where
  "resolve_relationship rel child tables =
     rbind (resolve_names (map Some (rl_columns rel)) child) (\<lambda>child_columns.
     rbind (or_raise (ValueError (u ''foreign key target must be a listed ordinary table''))
         (find (\<lambda>t. folded (so_name t) = folded (rl_referenced_table rel)) tables)) (\<lambda>parent.
     guard (so_row_selection_supported parent) (u ''foreign key target must be a listed ordinary table'')
     (let declared = rl_referenced_columns rel in
      rbind (if list_all (\<lambda>n. n = None) declared then
               (let parent_columns = primary_key parent in
                guard (length parent_columns = length child_columns) (u ''implicit foreign key requires a matching target primary key'')
                  (Inr (map Some parent_columns)))
             else Inr declared) (\<lambda>parent_columns.
      rbind (resolve_names parent_columns parent) (\<lambda>resolved. Inr (child_columns, parent, resolved))))))"

subsection \<open>One retained row\<close>

definition anchor_row :: "engine \<Rightarrow> conn \<Rightarrow> ustr \<Rightarrow> ustr list \<Rightarrow> ustr list \<Rightarrow> json \<Rightarrow> sqlval list res" where
  "anchor_row en cn table columns locator_columns locator =
     rbind (anchor_filter locator_columns locator []) (\<lambda>(predicates, params).
     rbind (quoted_names columns) (\<lambda>names.
     rbind (quoted (JStr table)) (\<lambda>t.
     rbind (en_execute en cn (u ''SELECT '' @ join (u '', '') names @ u '' FROM main.'' @ t @ u '' WHERE '' @
         join (u '' AND '') predicates @ u '' LIMIT 2'') params) (\<lambda>r.
     rbind (case snd (sr_rows r) of None \<Rightarrow> Inr (fst (sr_rows r)) | Some e \<Rightarrow> Inl e) (\<lambda>anchors.
       guard (length anchors = 1) (u ''source locator must identify exactly one retained row'') (Inr (anchors ! 0)))))))"

subsection \<open>Requests\<close>

record review_page =
  rp_recipe :: selection
  rp_locator :: "ustr list"
  rp_kind :: ustr
  rp_rows :: "row_cells list"
  rp_more :: bool
  rp_metadata :: "(ustr \<times> json) list"

text \<open>\<open>json.dumps({...}).encode()\<close>, the way a request passes parts of itself to the selection reader.\<close>

definition request_bytes :: "(ustr \<times> json) list \<Rightarrow> bytes" where
  "request_bytes d = utf8_bytes (dumps ascii_style (JObj d))"

definition copy_fields :: "string list \<Rightarrow> (ustr \<times> json) list \<Rightarrow> (ustr \<times> json) list" where
  "copy_fields keys d = List.map_filter (\<lambda>k. map_option (Pair (u k)) (dget d (u k))) keys"

definition foreign_key_id :: "json \<Rightarrow> int option" where
  "foreign_key_id v = (case v of JInt i \<Rightarrow> if 0 \<le> i then Some i else None | _ \<Rightarrow> None)"

definition find_relation :: "relation list \<Rightarrow> int \<Rightarrow> relation option" where
  "find_relation rels i = find (\<lambda>r. rl_id r = i) rels"

definition names_json :: "ustr list \<Rightarrow> json" where
  "names_json names = JArr (map JStr names)"

definition source_row_json :: "ustr \<Rightarrow> ustr \<Rightarrow> ustr list \<Rightarrow> json \<Rightarrow> ustr list \<Rightarrow> json list \<Rightarrow> json" where
  "source_row_json table kind columns vals reference_columns reference_values = JObj
     [(u ''table'', JStr table),
      (u ''locator'', JObj [(u ''kind'', JStr kind), (u ''columns'', names_json columns), (u ''values'', vals)]),
      (u ''reference_columns'', names_json reference_columns), (u ''reference_values'', JArr reference_values)]"

subsection \<open>From a parent row to the rows that reference it\<close>

definition referencing_status ::
  "engine \<Rightarrow> conn \<Rightarrow> selection \<Rightarrow> ustr list \<Rightarrow> nat \<Rightarrow> nat \<Rightarrow> incoming_link \<Rightarrow> sqlval list \<Rightarrow> (ustr \<times> row_cells list \<times> bool) res" where
  "referencing_status en cn target locator offset limit link key =
     (if SNull \<in> set key then Inr (u ''null-parent-key'', [], False)
      else
        rbind (selected_rows en cn target locator offset limit None (Some link)) (\<lambda>(rows, more).
        rbind (if rows = [] \<and> offset \<noteq> 0 then rbind (selected_rows en cn target locator 0 1 None (Some link)) (\<lambda>(found, _). Inr found)
               else Inr rows) (\<lambda>found.
          Inr (if found \<noteq> [] then u ''matching-child-rows'' else u ''no-matching-child-rows'', rows, more))))"

definition referencing_meaning :: ustr where
  "referencing_meaning = u ''Incoming rows use parent affinity and collation, followed by exact child filters. A declaration does not certify integrity, unique ownership or causal impact.''"

definition referencing_request :: string where
  "referencing_request = ''referencing selection requires database_sha256, table, locator, child_table, foreign_key and optional columns, where, order_by''"

definition referencing_rows ::
  "engine \<Rightarrow> conn \<Rightarrow> bytes \<Rightarrow> schema_object list \<Rightarrow> nat \<Rightarrow> nat \<Rightarrow> ustr \<Rightarrow> review_page res" where
  "referencing_rows en cn raw tables offset limit database_sha256 =
     rbind (decode raw) (\<lambda>v.
     rbind (want_dict v (u referencing_request)) (\<lambda>request.
     guard (u ` {''table'', ''locator'', ''child_table'', ''foreign_key'', ''database_sha256''} \<subseteq> jkeys request \<and>
            jkeys request \<subseteq> u ` {''table'', ''locator'', ''child_table'', ''foreign_key'', ''database_sha256'', ''columns'', ''where'', ''order_by''})
       (u referencing_request)
     (guard (jget request ''database_sha256'' = JStr database_sha256)
       (u ''referencing selection database fingerprint does not match retained artifact'')
     (rbind (selection_recipe (request_bytes [(u ''table'', jget request ''table'')]) tables) (\<lambda>(anchor, anchor_columns, anchor_kind).
     rbind (selection_recipe (request_bytes ((u ''table'', jget request ''child_table'') #
         copy_fields [''columns'', ''where'', ''order_by''] request)) tables) (\<lambda>(target, locator, kind).
     rbind (or_raise StopIteration (find_table tables (sl_table target))) (\<lambda>child.
     rbind (or_raise (ValueError (u ''foreign_key must be a listed integer id'')) (foreign_key_id (jget request ''foreign_key''))) (\<lambda>identity.
     rbind (or_raise (ValueError (u ''foreign key is not declared by the selected child table''))
         (find_relation (so_foreign_keys child) identity)) (\<lambda>rel.
     rbind (resolve_relationship rel child tables) (\<lambda>(child_columns, parent, parent_columns).
     guard (so_name parent = sl_table anchor) (u ''selected child foreign key does not reference the anchor table'')
     (rbind (anchor_row en cn (so_name parent) parent_columns anchor_columns (jget request ''locator'')) (\<lambda>key.
      let link = \<lparr>il_parent = so_name parent, il_parent_columns = parent_columns, il_child_columns = child_columns,
            il_anchor_columns = anchor_columns, il_anchor_values = jget request ''locator''\<rparr> in
      rbind (referencing_status en cn target locator offset limit link key) (\<lambda>(status, rows, more).
      rbind (map_res cell key) (\<lambda>reference_values.
        Inr \<lparr>rp_recipe = target, rp_locator = locator, rp_kind = kind, rp_rows = rows, rp_more = more, rp_metadata =
          [(u ''source_row'', source_row_json (so_name parent) anchor_kind anchor_columns (jget request ''locator'') parent_columns reference_values),
           (u ''relationship'', JObj (dmerge (relation_members rel)
              [(u ''child_table'', JStr (so_name child)), (u ''resolved_child_columns'', names_json child_columns),
               (u ''resolved_table'', JStr (so_name parent)), (u ''resolved_columns'', names_json parent_columns)])),
           (u ''reference_status'', JStr status), (u ''matching'', JStr referencing_meaning)]\<rparr>))))))))))))))"

subsection \<open>From a row to the parents it references\<close>

definition related_status ::
  "engine \<Rightarrow> conn \<Rightarrow> selection \<Rightarrow> ustr list \<Rightarrow> nat \<Rightarrow> nat \<Rightarrow> ustr \<Rightarrow> ustr list \<Rightarrow> sqlval list \<Rightarrow> (ustr \<times> row_cells list \<times> bool) res" where
  "related_status en cn target locator offset limit parent parent_columns key =
     (if SNull \<in> set key then Inr (u ''null-reference'', [], False)
      else
        rbind (quoted_names parent_columns) (\<lambda>names.
        rbind (quoted (JStr parent)) (\<lambda>p.
        rbind (en_execute en cn (u ''SELECT 1 FROM main.'' @ p @ u '' WHERE '' @ join (u '' AND '') (map (\<lambda>q. q @ u '' = ?'') names) @
            u '' LIMIT 1'') key) (\<lambda>r.
        rbind (case sr_rows r of (row # _, _) \<Rightarrow> Inr True | ([], None) \<Rightarrow> Inr False | ([], Some e) \<Rightarrow> Inl e) (\<lambda>found.
        rbind (selected_rows en cn target locator offset limit (Some (parent_columns, key)) None) (\<lambda>(rows, more).
          Inr (if found then u ''matching-parent-rows'' else u ''no-matching-parent'', rows, more)))))))"

definition related_meaning :: ustr where
  "related_meaning = u ''Parent column affinity and declared collation; all matching parent rows are retained. Declaration validity and uniqueness are not certified.''"

definition related_request :: string where
  "related_request = ''related selection requires database_sha256, table, locator, foreign_key and optional columns, order_by''"

definition relation_rows ::
  "engine \<Rightarrow> conn \<Rightarrow> bytes \<Rightarrow> schema_object list \<Rightarrow> nat \<Rightarrow> nat \<Rightarrow> ustr \<Rightarrow> review_page res" where
  "relation_rows en cn raw tables offset limit database_sha256 =
     rbind (decode raw) (\<lambda>v.
     rbind (want_dict v (u related_request)) (\<lambda>request.
     guard (jkeys request \<subseteq> u ` {''table'', ''locator'', ''foreign_key'', ''database_sha256'', ''columns'', ''order_by''} \<and>
            u ` {''table'', ''locator'', ''foreign_key'', ''database_sha256''} \<subseteq> jkeys request) (u related_request)
     (guard (jget request ''database_sha256'' = JStr database_sha256)
       (u ''related selection database fingerprint does not match retained artifact'')
     (rbind (selection_recipe (request_bytes [(u ''table'', jget request ''table'')]) tables) (\<lambda>(source_recipe, source_locator, source_kind).
     rbind (or_raise StopIteration (find_table tables (sl_table source_recipe))) (\<lambda>table.
     rbind (or_raise (ValueError (u ''foreign_key must be a listed integer id'')) (foreign_key_id (jget request ''foreign_key''))) (\<lambda>identity.
     rbind (or_raise (ValueError (u ''foreign key is not declared by the selected table''))
         (find_relation (so_foreign_keys table) identity)) (\<lambda>rel.
     rbind (resolve_relationship rel table tables) (\<lambda>(source_columns, parent, parent_columns).
     rbind (selection_recipe (request_bytes ((u ''table'', JStr (so_name parent)) # copy_fields [''columns'', ''order_by''] request)) tables)
       (\<lambda>(target, target_locator, target_kind).
     rbind (anchor_row en cn (so_name table) source_columns source_locator (jget request ''locator'')) (\<lambda>key.
     rbind (related_status en cn target target_locator offset limit (so_name parent) parent_columns key) (\<lambda>(status, rows, more).
     rbind (map_res cell key) (\<lambda>reference_values.
       Inr \<lparr>rp_recipe = target, rp_locator = target_locator, rp_kind = target_kind, rp_rows = rows, rp_more = more, rp_metadata =
         [(u ''source_row'', source_row_json (so_name table) source_kind source_locator (jget request ''locator'') source_columns reference_values),
          (u ''relationship'', JObj (dmerge (relation_members rel)
             [(u ''resolved_table'', JStr (so_name parent)), (u ''resolved_columns'', names_json parent_columns)])),
          (u ''reference_status'', JStr status), (u ''matching'', JStr related_meaning)]\<rparr>)))))))))))))"

subsection \<open>What a resolved relationship compares\<close>

lemma folded_columns_get:
  "dget (folded_columns t) f = Some c \<Longrightarrow> c \<in> co_name ` set (stored_columns t) \<and> folded c = f"
proof -
  have "dget (foldl (\<lambda>d c. dput (folded (co_name c)) (co_name c) d) d cs) f = Some c \<Longrightarrow>
      dget d f = Some c \<or> c \<in> co_name ` set cs \<and> folded c = f" for d cs
  proof (induction cs arbitrary: d)
    case Nil
    then show ?case by simp
  next
    case (Cons a cs)
    from Cons.IH [of "dput (folded (co_name a)) (co_name a) d"] Cons.prems show ?case
      by (auto simp: dget_dput split: if_splits)
  qed
  from this [of "[]"] show "dget (folded_columns t) f = Some c \<Longrightarrow> c \<in> co_name ` set (stored_columns t) \<and> folded c = f"
    by (simp add: folded_columns_def)
qed

definition resolves_to :: "schema_object \<Rightarrow> ustr option \<Rightarrow> ustr \<Rightarrow> bool" where
  "resolves_to t n c \<longleftrightarrow> (\<exists>s. n = Some s \<and> folded c = folded s) \<and> c \<in> co_name ` set (stored_columns t)"

lemma resolve_names_Inr:
  assumes "resolve_names names t = Inr cs"
  shows "list_all2 (resolves_to t) names cs"
proof -
  from assms have all: "list_all (\<lambda>n. case n of None \<Rightarrow> False | Some s \<Rightarrow> dhas (folded_columns t) (folded s)) names"
    and cs: "cs = List.map_filter (\<lambda>n. Option.bind n (\<lambda>s. dget (folded_columns t) (folded s))) names"
    by (auto simp: resolve_names_def res_simps)
  from all show ?thesis unfolding cs
  proof (induction names)
    case Nil
    then show ?case by (simp add: List.map_filter_simps)
  next
    case (Cons n names)
    then obtain s c where n: "n = Some s" "dget (folded_columns t) (folded s) = Some c"
      by (auto simp: dhas_iff split: option.splits)
    with Cons folded_columns_get [OF n(2)] show ?case by (simp add: List.map_filter_simps resolves_to_def)
  qed
qed

lemma find_Some_mem: "find P xs = Some x \<Longrightarrow> x \<in> set xs \<and> P x"
  by (auto simp: find_Some_iff)

lemma resolve_relationship_Inr:
  assumes "resolve_relationship rel child tables = Inr (child_columns, parent, parent_columns)"
  shows "parent \<in> set tables \<and> so_row_selection_supported parent \<and> folded (so_name parent) = folded (rl_referenced_table rel) \<and>
    list_all2 (resolves_to child) (map Some (rl_columns rel)) child_columns \<and>
    (if list_all (\<lambda>n. n = None) (rl_referenced_columns rel)
     then length (primary_key parent) = length child_columns \<and> list_all2 (resolves_to parent) (map Some (primary_key parent)) parent_columns
     else list_all2 (resolves_to parent) (rl_referenced_columns rel) parent_columns)"
proof -
  from assms obtain declared where
    c: "resolve_names (map Some (rl_columns rel)) child = Inr child_columns"
    and p: "find (\<lambda>t. folded (so_name t) = folded (rl_referenced_table rel)) tables = Some parent" "so_row_selection_supported parent"
    and d: "(if list_all (\<lambda>n. n = None) (rl_referenced_columns rel) then
               (let parent_columns = primary_key parent in
                guard (length parent_columns = length child_columns) (u ''implicit foreign key requires a matching target primary key'')
                 (Inr (map Some parent_columns)))
             else Inr (rl_referenced_columns rel)) = Inr declared"
    and r: "resolve_names declared parent = Inr parent_columns"
    by (auto simp: resolve_relationship_def Let_def rbind_eq_Inr guard_eq_Inr or_raise_eq_Inr)
  from d resolve_names_Inr [OF r] find_Some_mem [OF p(1)] p(2) resolve_names_Inr [OF c]
  show ?thesis by (simp add: Let_def guard_eq_Inr split: if_splits)
qed

subsection \<open>Pages of rows\<close>

definition row_cell :: "nat \<Rightarrow> sqlval list \<Rightarrow> row_cells res" where
  "row_cell n vals = rbind (map_res cell (take n vals)) (\<lambda>loc. rbind (map_res cell (drop n vals)) (\<lambda>cells.
     Inr \<lparr>rc_locator = loc, rc_values = cells\<rparr>))"

lemma row_run: "fold_res (row_step n) acc rows = rbind (map_res (row_cell n) rows) (\<lambda>cs. Inr (acc @ cs))"
proof (induction rows arbitrary: acc)
  case Nil
  then show ?case by simp
next
  case (Cons vals rows)
  have step: "row_step n acc vals = rbind (row_cell n vals) (\<lambda>c. Inr (acc @ [c]))"
    by (simp add: row_step_def row_cell_def rbind_assoc)
  show ?case by (simp add: step Cons rbind_assoc)
qed

lemma map_res_slice: "map_res f xs = Inr ys \<Longrightarrow> map_res f (take n (drop k xs)) = Inr (take n (drop k ys))"
  by (auto simp: map_res_eq_Inr intro: list_all2_takeI list_all2_dropI)

record page_source =
  ps_engine :: engine
  ps_conn :: conn
  ps_recipe :: selection
  ps_locator :: "ustr list"
  ps_reference :: "(ustr list \<times> sqlval list) option"
  ps_link :: "incoming_link option"
  ps_rows :: "sqlval list list"

text \<open>
  The engine answers the statement as SQLite documents LIMIT and OFFSET: of the ordered rows
  \<open>ps_rows\<close> it skips the offset and delivers at most the limit; and every row can be shown.
\<close>

definition page_source_ok :: "page_source \<Rightarrow> bool" where
  "page_source_ok s \<longleftrightarrow>
     (\<exists>query params. selection_query (ps_recipe s) (ps_locator s) (ps_reference s) (ps_link s) = Inr (query, params) \<and>
       (\<forall>n k. \<exists>d. en_execute (ps_engine s) (ps_conn s) query (params @ [SInt (int n), SInt (int k)]) =
          Inr \<lparr>sr_description = d, sr_rows = (take n (drop k (ps_rows s)), None)\<rparr>)) \<and>
     (\<exists>cells. map_res (row_cell (length (ps_locator s))) (ps_rows s) = Inr cells)"

definition page_fetch :: "page_source \<Rightarrow> nat \<Rightarrow> nat \<Rightarrow> (row_cells list \<times> bool) res" where
  "page_fetch s offset limit =
     selected_rows (ps_engine s) (ps_conn s) (ps_recipe s) (ps_locator s) offset limit (ps_reference s) (ps_link s)"

definition page_content :: "page_source \<Rightarrow> row_cells list" where
  "page_content s = (case map_res (row_cell (length (ps_locator s))) (ps_rows s) of Inr cells \<Rightarrow> cells | Inl _ \<Rightarrow> [])"

lemma page_fetch_slice:
  assumes "page_source_ok s"
  shows "page_fetch s offset limit = Inr (take limit (drop offset (page_content s)), offset + limit < length (page_content s))"
proof -
  from assms obtain query params cells where
    q: "selection_query (ps_recipe s) (ps_locator s) (ps_reference s) (ps_link s) = Inr (query, params)"
    and answers: "\<And>n k. \<exists>d. en_execute (ps_engine s) (ps_conn s) query (params @ [SInt (int n), SInt (int k)]) =
          Inr \<lparr>sr_description = d, sr_rows = (take n (drop k (ps_rows s)), None)\<rparr>"
    and cells: "map_res (row_cell (length (ps_locator s))) (ps_rows s) = Inr cells"
    unfolding page_source_ok_def by blast
  obtain d where run: "en_execute (ps_engine s) (ps_conn s) query (params @ [SInt (int limit + 1), SInt (int offset)]) =
      Inr \<lparr>sr_description = d, sr_rows = (take (Suc limit) (drop offset (ps_rows s)), None)\<rparr>"
    using answers [of "Suc limit" offset] by (auto simp: algebra_simps)
  have content: "page_content s = cells" by (simp add: page_content_def cells)
  have len: "take limit (take (Suc limit) xs) = take limit xs" "limit < min (length xs) (Suc limit) \<longleftrightarrow> limit < length xs" for xs :: "row_cells list"
    by auto
  have arith: "limit < length cells - offset \<longleftrightarrow> offset + limit < length cells" by arith
  show ?thesis
    by (simp add: page_fetch_def selected_rows_def q run for_rows_def row_run map_res_slice [OF cells] content len arith)
qed

interpretation sql_pages: pager page_fetch page_content page_source_ok
  by unfold_locales (rule page_fetch_slice)

subsection \<open>Statuses\<close>

lemma referencing_status_pages:
  assumes "page_source_ok s" "ps_reference s = None" "ps_link s = Some link" "1 \<le> limit" "SNull \<notin> set key"
  shows "referencing_status (ps_engine s) (ps_conn s) (ps_recipe s) (ps_locator s) offset limit link key =
    Inr (if page_content s \<noteq> [] then u ''matching-child-rows'' else u ''no-matching-child-rows'',
         take limit (drop offset (page_content s)), offset + limit < length (page_content s))"
proof -
  have fetch: "selected_rows (ps_engine s) (ps_conn s) (ps_recipe s) (ps_locator s) k n None (Some link) =
      Inr (take n (drop k (page_content s)), k + n < length (page_content s))" for k n
    using sql_pages.fetch_page [OF assms(1), of k n] assms(2,3) by (simp add: page_fetch_def)
  show ?thesis
    using assms(4,5) by (cases "page_content s"; cases "offset = 0") (auto simp: referencing_status_def fetch)
qed

lemma foreign_key_id_Some [simp]: "foreign_key_id v = Some i \<longleftrightarrow> v = JInt i \<and> 0 \<le> i"
  by (cases v) (auto simp: foreign_key_id_def)

lemma find_relation_Some: "find_relation rels i = Some r \<Longrightarrow> r \<in> set rels \<and> rl_id r = i"
  by (auto simp: find_relation_def dest: find_Some_mem)

subsection \<open>Properties\<close>

text \<open>A resolved foreign key compares the columns the schema declares: the referenced table is the listed
  ordinary table of that name up to ASCII case, the child columns are, one for one, stored columns of
  the child named as declared up to ASCII case, and the parent columns are the declared ones, or, when
  the declaration names none, the whole primary key of the parent with as many columns as the child side.\<close>

theorem relationship_resolved:
  assumes "resolve_relationship rel child tables = Inr (child_columns, parent, parent_columns)"
  shows "parent \<in> set tables \<and> so_row_selection_supported parent \<and> folded (so_name parent) = folded (rl_referenced_table rel) \<and>
    list_all2 (resolves_to child) (map Some (rl_columns rel)) child_columns \<and>
    (if list_all (\<lambda>n. n = None) (rl_referenced_columns rel)
     then length (primary_key parent) = length child_columns \<and> list_all2 (resolves_to parent) (map Some (primary_key parent)) parent_columns
     else list_all2 (resolves_to parent) (rl_referenced_columns rel) parent_columns)"
  by (rule resolve_relationship_Inr [OF assms])

definition sample_relation :: relation where
  "sample_relation = \<lparr>rl_id = 0, rl_referenced_table = u ''T'', rl_columns = [u ''A''], rl_referenced_columns = [Some (u ''a'')],
     rl_on_update = u ''NO ACTION'', rl_on_delete = u ''NO ACTION'', rl_match = u ''NONE''\<rparr>"

theorem relationship_resolved_witness:
  "list_all2 (resolves_to sample_table) (map Some (rl_columns sample_relation)) [u ''a'']"
proof -
  have "resolve_relationship sample_relation sample_table [sample_table] = Inr ([u ''a''], sample_table, [u ''a''])"
    by (simp add: resolve_relationship_def sample_relation_def sample_table_def resolve_names_def folded_columns_def
        stored_columns_def dhas_def List.map_filter_simps Let_def)
       (simp add: u_def folded_def fold_char_def)
  from relationship_resolved [OF this] show ?thesis by (elim conjE)
qed

text \<open>C21: paging ends and loses nothing: with an engine that answers LIMIT and OFFSET as documented, a reader
  that asks for the first page of an accepted selection and then for every reported next offset stops by
  itself, having received every selected row exactly once and in order.\<close>

theorem pages_deliver_all:
  assumes "page_source_ok s" "1 \<le> limit"
  shows "\<exists>n. \<forall>m \<ge> n. follow (\<lambda>offset limit. selected_rows (ps_engine s) (ps_conn s) (ps_recipe s) (ps_locator s)
      offset limit (ps_reference s) (ps_link s)) limit m 0 = Inr (page_content s)"
  using sql_pages.follow_enough [OF assms] by (simp add: page_fetch_def [abs_def])

definition sample_pages :: "sqlval list list \<Rightarrow> page_source" where
  "sample_pages rows = \<lparr>ps_engine = sample_engine\<lparr>en_execute := \<lambda>_ _ params.
       (case rev params of SInt k # SInt n # _ \<Rightarrow> Inr \<lparr>sr_description = None, sr_rows = (take (nat n) (drop (nat k) rows), None)\<rparr>
        | _ \<Rightarrow> Inl SqliteError)\<rparr>,
     ps_conn = sample_conn, ps_recipe = sample_recipe, ps_locator = [u ''_rowid_''], ps_reference = None, ps_link = None, ps_rows = rows\<rparr>"

lemma sample_query: "\<exists>query. selection_query sample_recipe [u ''_rowid_''] None None = Inr (query, [SText (u ''text''), SText (u ''x'' @ [34, 39])])"
proof -
  have q: "quoted (JStr (u ''a'')) = Inr (quote (u ''a''))" "quoted (JStr (u ''t'')) = Inr (quote (u ''t''))"
    "quoted (JStr (u ''_rowid_'')) = Inr (quote (u ''_rowid_''))"
    by (simp_all add: quoted_def quote_def) (simp_all add: u_def)
  show ?thesis using sample_filter by (simp add: selection_query_def sample_recipe_def quoted_names_def order_texts_def q)
qed

lemma sample_pages_ok: "map_res (row_cell 1) rows = Inr cells \<Longrightarrow> page_source_ok (sample_pages rows) \<and> page_content (sample_pages rows) = cells"
  using sample_query by (auto simp: page_source_ok_def sample_pages_def page_content_def)

definition sample_rows :: "sqlval list list" where
  "sample_rows = [[SInt 1, SText (u ''p'')], [SInt 2, SNull], [SInt 5, SInt 7]]"

lemma sample_cells:
  "map_res (row_cell 1) sample_rows = Inr
     [\<lparr>rc_locator = [typed ''integer'' (JStr (str_int 1))], rc_values = [typed ''text'' (JStr (u ''p''))]\<rparr>,
      \<lparr>rc_locator = [typed ''integer'' (JStr (str_int 2))], rc_values = [typed ''null'' JNull]\<rparr>,
      \<lparr>rc_locator = [typed ''integer'' (JStr (str_int 5))], rc_values = [typed ''integer'' (JStr (str_int 7))]\<rparr>]"
  by (simp add: sample_rows_def row_cell_def)

theorem pages_deliver_all_witness:
  "\<exists>n. \<forall>m \<ge> n. follow (\<lambda>offset limit. selected_rows (ps_engine (sample_pages sample_rows)) (ps_conn (sample_pages sample_rows))
      (ps_recipe (sample_pages sample_rows)) (ps_locator (sample_pages sample_rows)) offset limit
      (ps_reference (sample_pages sample_rows)) (ps_link (sample_pages sample_rows))) 2 m 0 =
    Inr (page_content (sample_pages sample_rows)) \<and> length (page_content (sample_pages sample_rows)) = 3"
  using pages_deliver_all [of "sample_pages sample_rows" 2] sample_pages_ok [OF sample_cells] by simp

text \<open>The status of an incoming relationship does not depend on the page: with an engine that answers LIMIT
  and OFFSET as documented, matching-child-rows is reported exactly when some child row references the
  anchor, also on an empty page past the last one, and the page is the requested slice of those rows.\<close>

theorem referencing_status_exact:
  assumes "page_source_ok s" "ps_reference s = None" "ps_link s = Some link" "1 \<le> limit"
  shows "referencing_status (ps_engine s) (ps_conn s) (ps_recipe s) (ps_locator s) offset limit link key =
    Inr (if SNull \<in> set key then (u ''null-parent-key'', [], False)
         else (if page_content s = [] then u ''no-matching-child-rows'' else u ''matching-child-rows'',
               take limit (drop offset (page_content s)), offset + limit < length (page_content s)))"
  using referencing_status_pages [OF assms, of key offset] by (cases "SNull \<in> set key") (simp_all add: referencing_status_def)

definition sample_link :: incoming_link where
  "sample_link = \<lparr>il_parent = u ''t'', il_parent_columns = [u ''a''], il_child_columns = [u ''a''], il_anchor_columns = [u ''_rowid_''],
     il_anchor_values = JArr [typed ''integer'' (JStr (u ''1''))]\<rparr>"

definition sample_incoming :: page_source where
  "sample_incoming = (sample_pages sample_rows)\<lparr>ps_link := Some sample_link\<rparr>"

lemma sample_incoming_ok: "page_source_ok sample_incoming \<and> page_content sample_incoming \<noteq> []"
proof -
  have q: "quoted (JStr (u ''a'')) = Inr (quote (u ''a''))" "quoted (JStr (u ''t'')) = Inr (quote (u ''t''))"
    "quoted (JStr (u ''_rowid_'')) = Inr (quote (u ''_rowid_''))"
    by (simp_all add: quoted_def quote_def) (simp_all add: u_def)
  have one: "parameter (typed ''integer'' (JStr (u ''1''))) = Inr (SInt 1)"
    by (simp add: parameter_def typed_def) (simp add: u_def re_integer_def re_digits_def is_digit_def py_int_def digits_value_def)
  have "\<exists>query params. selection_query sample_recipe [u ''_rowid_''] None (Some sample_link) = Inr (query, params)"
    using sample_filter by (simp add: selection_query_def sample_recipe_def quoted_names_def order_texts_def q
        incoming_condition_def sample_link_def anchor_filter_def one)
  with sample_cells show ?thesis
    by (auto simp: page_source_ok_def sample_incoming_def sample_pages_def page_content_def)
qed

theorem referencing_status_exact_witness:
  "\<exists>rows more. referencing_status (ps_engine sample_incoming) (ps_conn sample_incoming) (ps_recipe sample_incoming)
     (ps_locator sample_incoming) 1000 10 sample_link [SInt 1] = Inr (u ''matching-child-rows'', rows, more)"
  using referencing_status_exact [of sample_incoming sample_link 10 1000 "[SInt 1]"] sample_incoming_ok
  by (simp add: sample_incoming_def sample_pages_def)

lemma selected_rows_length: "selected_rows en cn r loc offset limit reference link = Inr (rows, again) \<Longrightarrow> length rows \<le> limit"
  by (auto simp: selected_rows_def rbind_eq_Inr)

lemma referencing_status_length: "referencing_status en cn r loc offset limit link key = Inr (status, rows, again) \<Longrightarrow> length rows \<le> limit"
  by (auto simp: referencing_status_def rbind_eq_Inr dest: selected_rows_length split: if_splits)


definition linked_table :: schema_object where
  "linked_table = sample_table\<lparr>so_foreign_keys := [sample_relation]\<rparr>"

definition null_engine :: engine where
  "null_engine = sample_engine\<lparr>en_execute := \<lambda>_ _ _. Inr \<lparr>sr_description = None, sr_rows = ([[SNull]], None)\<rparr>\<rparr>"

definition sample_fields :: "(ustr \<times> json) list" where
  "sample_fields = [(u ''database_sha256'', JStr (u ''f'')), (u ''table'', JStr (u ''t'')), (u ''child_table'', JStr (u ''t'')),
     (u ''foreign_key'', JInt 0), (u ''locator'', JArr [typed ''integer'' (JStr (u ''1''))])]"

definition sample_request :: bytes where
  "sample_request = utf8_bytes (compact (JObj sample_fields))"

lemma linked_recipe:
  "selection_recipe (request_bytes [(u ''table'', JStr (u ''t''))]) [linked_table] =
     Inr (\<lparr>sl_table = u ''t'', sl_columns = [u ''a''], sl_where = [], sl_order_by = []\<rparr>, [u ''_rowid_''], u ''rowid'')"
proof -
  have d: "decode (request_bytes [(u ''table'', JStr (u ''t''))]) = Inr (JObj [(u ''table'', JStr (u ''t''))])"
  proof (unfold request_bytes_def, rule decode_dumps)
    show "jvalid (ds_ascii ascii_style) (JObj [(u ''table'', JStr (u ''t''))])"
      by (simp add: ascii_style_def char_ok_def u_def is_high_def is_low_def, simp add: is_scalar_def)
    show "jscalar (JObj [(u ''table'', JStr (u ''t''))])" by (simp add: u_def, simp add: is_scalar_def)
  qed simp
  have avail: "available linked_table = [u ''a'']" by (simp add: available_def stored_columns_def linked_table_def sample_table_def)
  have cols: "column_names (JArr [JStr (u ''a'')]) [u ''a''] = Some [u ''a'']"
    by (simp add: column_names_def List.map_filter_simps)
  have loc: "row_locator linked_table = Inr ([u ''_rowid_''], u ''rowid'')"
    by (simp add: row_locator_def linked_table_def sample_table_def) (simp add: u_def folded_def fold_char_def)
  have table: "find_table [linked_table] (u ''t'') = Some linked_table" "so_row_selection_supported linked_table" "so_name linked_table = u ''t''"
    by (simp_all add: find_table_def linked_table_def sample_table_def)
  show ?thesis
    by (simp add: selection_recipe_def d select_value_def jkeys_def jget_def jget_or_def avail cols loc table filter_predicates_def)
qed

lemma sample_referencing:
  "\<exists>page. referencing_rows null_engine sample_conn sample_request [linked_table] 0 10 (u ''f'') = Inr page"
proof -
  have d: "decode sample_request = Inr (JObj sample_fields)"
    unfolding sample_request_def
    by (rule compact_bytes.roundtrip) (simp add: sample_fields_def typed_def, simp add: u_def is_scalar_def int_printable_def str_nat_0)
  have fields: "jkeys sample_fields = u ` {''database_sha256'', ''table'', ''child_table'', ''foreign_key'', ''locator''}"
      "jget sample_fields ''database_sha256'' = JStr (u ''f'')" "jget sample_fields ''table'' = JStr (u ''t'')"
      "jget sample_fields ''child_table'' = JStr (u ''t'')" "jget sample_fields ''foreign_key'' = JInt 0"
      "jget sample_fields ''locator'' = JArr [typed ''integer'' (JStr (u ''1''))]"
      "copy_fields [''columns'', ''where'', ''order_by''] sample_fields = []"
    by (simp_all add: sample_fields_def jkeys_def jget_def copy_fields_def List.map_filter_simps)
  have one: "parameter (typed ''integer'' (JStr (u ''1''))) = Inr (SInt 1)"
    by (simp add: parameter_def typed_def) (simp add: u_def re_integer_def re_digits_def is_digit_def py_int_def digits_value_def)
  have resolved: "resolve_relationship sample_relation linked_table [linked_table] = Inr ([u ''a''], linked_table, [u ''a''])"
    by (simp add: resolve_relationship_def sample_relation_def linked_table_def sample_table_def resolve_names_def folded_columns_def
        stored_columns_def dhas_def List.map_filter_simps Let_def)
       (simp add: u_def folded_def fold_char_def)
  have q: "quoted (JStr (u ''a'')) = Inr (quote (u ''a''))" "quoted (JStr (u ''t'')) = Inr (quote (u ''t''))"
    "quoted (JStr (u ''_rowid_'')) = Inr (quote (u ''_rowid_''))"
    by (simp_all add: quoted_def quote_def) (simp_all add: u_def)
  have table: "find_table [linked_table] (u ''t'') = Some linked_table" "so_name linked_table = u ''t''" "so_foreign_keys linked_table = [sample_relation]"
    by (simp_all add: find_table_def linked_table_def sample_table_def)
  have rel: "foreign_key_id (JInt 0) = Some 0" "find_relation [sample_relation] 0 = Some sample_relation"
    by (simp_all add: find_relation_def sample_relation_def)
  have anchor: "anchor_row null_engine sample_conn (u ''t'') [u ''a''] [u ''_rowid_''] (JArr [typed ''integer'' (JStr (u ''1''))]) = Inr [SNull]"
    by (simp add: anchor_row_def anchor_filter_def one quoted_names_def q null_engine_def)
  show ?thesis
    by (simp add: referencing_rows_def d fields linked_recipe table rel resolved anchor referencing_status_def)
qed


end
