(* ===== verification/Summary.thy ===== *)
theory Summary
  imports Relations CsvText
begin

section \<open>Exact grouped summaries (tools/sqlite_summary.py)\<close>

text \<open>
  The complete bounded scan \<open>scan\<close> that the summary, cross table and histogram share, exact rational
  arithmetic and its decimal display, the accumulator \<open>Measure\<close>, grouping by exact typed values, and
  the two commands summarize and group-rows. The lemmas show that a scan visits every row of the
  statement in order within its bounds, that a measure equals its specification over the multiset of
  values, and that the groups partition the scanned rows.
\<close>

definition MAX_ROWS :: nat where "MAX_ROWS = 10000"
definition MAX_SCAN_BYTES :: nat where "MAX_SCAN_BYTES = 16 * 1024 * 1024"

definition row_json :: "row_cells \<Rightarrow> json" where
  "row_json row = JObj [(u ''locator'', JArr (rc_locator row)), (u ''values'', JArr (rc_values row))]"

text \<open>\<open>len(compact(v).encode('utf-8'))\<close>\<close>

definition encoded_size :: "json \<Rightarrow> nat res" where
  "encoded_size v = rbind (utf8_encode (compact v)) (\<lambda>b. Inr (length b))"

subsection \<open>The scan\<close>

definition scan_query :: "selection \<Rightarrow> ustr list \<Rightarrow> (ustr \<times> sqlval list) res" where
  "scan_query sel locator =
     rbind (quoted_names (locator @ sl_columns sel)) (\<lambda>names.
     rbind (quoted (JStr (sl_table sel))) (\<lambda>t.
     rbind (filter_predicates (sl_where sel)) (\<lambda>(filters, params).
     rbind (quoted_names locator) (\<lambda>ties.
       Inr (u ''SELECT '' @ join (u '', '') names @ u '' FROM main.'' @ t @
              (if filters = [] then [] else u '' WHERE '' @ join (u '' AND '') filters) @
              u '' ORDER BY '' @ join (u '', '') (map (\<lambda>q. q @ u '' COLLATE BINARY ASC'') ties) @ u '' LIMIT ?'',
            params @ [SInt (int MAX_ROWS + 1)])))))"

text \<open>One row of the generator, followed by the body of the loop that consumes it.\<close>

definition scan_step ::
  "nat \<Rightarrow> ('s \<Rightarrow> row_cells \<Rightarrow> sqlval list \<Rightarrow> 's res) \<Rightarrow> nat \<times> nat \<times> 's \<Rightarrow> sqlval list \<Rightarrow> (nat \<times> nat \<times> 's) res" where
  "scan_step n body acc vals =
     (case acc of (count, scanned, s) \<Rightarrow>
        guard (count + 1 \<le> MAX_ROWS) (u ''selection exceeds 10000 rows; no partial result produced'')
        (rbind (map_res cell (take n vals)) (\<lambda>loc.
         rbind (map_res cell (drop n vals)) (\<lambda>cells.
         let row = \<lparr>rc_locator = loc, rc_values = cells\<rparr> in
         rbind (encoded_size (row_json row)) (\<lambda>size.
         guard (scanned + size \<le> MAX_SCAN_BYTES) (u ''selection projection exceeds 16 MiB scan bound'')
         (rbind (body s row (drop n vals)) (\<lambda>s'. Inr (count + 1, scanned + size, s')))))))) "

definition scan ::
  "engine \<Rightarrow> conn \<Rightarrow> selection \<Rightarrow> ustr list \<Rightarrow> ('s \<Rightarrow> row_cells \<Rightarrow> sqlval list \<Rightarrow> 's res) \<Rightarrow> 's \<Rightarrow> 's res" where
  "scan en cn sel locator body s =
     rbind (scan_query sel locator) (\<lambda>(query, params).
     rbind (en_execute en cn query params) (\<lambda>r.
     rbind (for_rows (scan_step (length locator) body) (0, 0, s) (sr_rows r)) (\<lambda>(count, scanned, s'). Inr s')))"

subsection \<open>The request\<close>

record summary_request =
  sq_fields :: "(ustr \<times> json) list"
  sq_group_by :: "ustr list"
  sq_measures :: "ustr list"

text \<open>\<open>list(dict.fromkeys(names))\<close>\<close>

definition unique_names :: "ustr list \<Rightarrow> ustr list" where
  "unique_names names = dkeys (foldl (\<lambda>d n. dput n () d) [] names)"

definition summary_names :: "(ustr \<times> json) list \<Rightarrow> string \<Rightarrow> ustr list res" where
  "summary_names d name =
     (let bad = Inl (ValueError (u (name @ '' requires 0..8 distinct stored column names''))) in
      case jget d name of
        JArr xs \<Rightarrow> (let names = List.map_filter text_of xs in
          if length xs \<le> 8 \<and> length names = length xs \<and> distinct names then Inr names else bad)
      | _ \<Rightarrow> bad)"

definition summary_where :: "(ustr \<times> json) list \<Rightarrow> (ustr \<times> json) list" where
  "summary_where d = [(u ''table'', jget d ''table''), (u ''where'', jget_or d ''where'' (JArr []))]"

definition compact_recipe :: "(ustr \<times> json) list \<Rightarrow> schema_object list \<Rightarrow> (selection \<times> ustr list \<times> ustr) res" where
  "compact_recipe d tables = rbind (utf8_encode (compact (JObj d))) (\<lambda>raw. selection_recipe raw tables)"

definition summary_fields :: string where
  "summary_fields = ''summary requires database_sha256, table, group_by, measures and optional where''"

definition summary_recipe ::
  "bytes \<Rightarrow> schema_object list \<Rightarrow> ustr \<Rightarrow> bool \<Rightarrow> (summary_request \<times> selection \<times> ustr list \<times> ustr) res" where
  "summary_recipe raw tables fingerprint members =
     rbind (decode raw) (\<lambda>v.
     rbind (want_dict v (u summary_fields)) (\<lambda>d.
     guard (u ` {''database_sha256'', ''table'', ''group_by'', ''measures''} \<subseteq> jkeys d \<and>
            jkeys d \<subseteq> u ` {''database_sha256'', ''table'', ''group_by'', ''measures'', ''where''}) (u summary_fields)
     (guard (jget d ''database_sha256'' = JStr fingerprint) (u ''database fingerprint does not match retained artifact'')
     (rbind (summary_names d ''group_by'') (\<lambda>group_by.
      rbind (summary_names d ''measures'') (\<lambda>measures.
      let columns = unique_names (group_by @ measures) in
      rbind (compact_recipe (summary_where d @ (if columns = [] then [] else [(u ''columns'', JArr (map JStr columns))])) tables)
        (\<lambda>(normalized, locator, kind).
      let normalized = (if columns = [] then normalized\<lparr>sl_columns := take 1 (sl_columns normalized)\<rparr> else normalized);
          request = \<lparr>sq_fields = d, sq_group_by = group_by, sq_measures = measures\<rparr>
      in if members then rbind (compact_recipe (summary_where d) tables) (\<lambda>(normalized, locator, kind). Inr (request, normalized, locator, kind))
         else Inr (request, normalized, locator, kind))))))))"

subsection \<open>Exact numbers and their decimal display\<close>

text \<open>
  \<open>Decimal(n) / Decimal(d)\<close> at a precision of 17 digits, as the documentation of the decimal
  module describes it: the exact quotient when it fits, otherwise rounded half to even; then \<open>str\<close>
  of the result, with an exponent when it is positive or the value is small.
\<close>

fun strip_zeros :: "nat \<Rightarrow> nat \<Rightarrow> nat \<times> nat" where
  "strip_zeros 0 coeff = (coeff, 0)"
| "strip_zeros (Suc k) coeff = (if coeff mod 10 = 0 then strip_zeros k (coeff div 10) else (coeff, Suc k))"

definition round_digits :: "nat \<Rightarrow> nat \<Rightarrow> int \<Rightarrow> nat \<times> int" where
  "round_digits prec coeff exponent =
     (let extra = length (str_nat coeff) - prec in
      if extra = 0 then (coeff, exponent)
      else let q = coeff div 10 ^ extra; r = 2 * (coeff mod 10 ^ extra);
               q' = (if 10 ^ extra < r \<or> (r = 10 ^ extra \<and> odd q) then q + 1 else q)
           in if prec < length (str_nat q') then (q' div 10, exponent + int extra + 1) else (q', exponent + int extra))"

definition decimal_quotient :: "nat \<Rightarrow> nat \<Rightarrow> nat \<Rightarrow> nat \<times> int" where
  "decimal_quotient prec n d =
     (if n = 0 then (0, 0)
      else let shift = int (length (str_nat d)) - int (length (str_nat n)) + int prec + 1;
               a = n * 10 ^ nat shift; b = d * 10 ^ nat (- shift); q = a div b; r = a mod b
           in if r \<noteq> 0 then round_digits prec (if q mod 5 = 0 then q + 1 else q) (- shift)
              else if 0 < shift then (case strip_zeros (nat shift) q of (q', k) \<Rightarrow> round_digits prec q' (- int k))
              else round_digits prec q (- shift))"

definition decimal_text :: "bool \<Rightarrow> nat \<Rightarrow> int \<Rightarrow> ustr" where
  "decimal_text neg coeff exponent =
     (let digits = str_nat coeff; left = exponent + int (length digits);
          dot = (if exponent \<le> 0 \<and> - 6 < left then left else 1);
          body = (if dot \<le> 0 then [48, 46] @ replicate (nat (- dot)) 48 @ digits
                  else if int (length digits) \<le> dot then digits @ replicate (nat dot - length digits) 48
                  else take (nat dot) digits @ 46 # drop (nat dot) digits);
          tail = (if left = dot then [] else 69 # (if left < dot then [] else [43]) @ str_int (left - dot))
      in (if neg then [45] else []) @ body @ tail)"

definition decimal_approximation :: "rat \<Rightarrow> ustr" where
  "decimal_approximation x =
     (case quotient_of x of (n, d) \<Rightarrow> case decimal_quotient 17 (nat \<bar>n\<bar>) (nat d) of (coeff, e) \<Rightarrow> decimal_text (n < 0) coeff e)"

definition rational :: "rat option \<Rightarrow> json" where
  "rational value =
     (case value of None \<Rightarrow> JNull
      | Some x \<Rightarrow> (case quotient_of x of (n, d) \<Rightarrow>
          JObj [(u ''numerator'', JStr (str_int n)), (u ''denominator'', JStr (str_int d)),
                (u ''decimal_approximation'', JStr (decimal_approximation x))]))"

subsection \<open>Measures\<close>

type_synonym extreme = "rat \<times> json \<times> json list"

record measure_state =
  ms_counts :: "(ustr, nat) dict"
  ms_total :: rat
  ms_minimum :: "extreme option"
  ms_maximum :: "extreme option"

definition measure_start :: measure_state where
  "measure_start = \<lparr>ms_counts = map (\<lambda>k. (u k, 0)) [''null'', ''integer'', ''real'', ''text'', ''blob''],
     ms_total = 0, ms_minimum = None, ms_maximum = None\<rparr>"

text \<open>\<open>Fraction(value)\<close> of an integer or finite real.\<close>

fun exact :: "sqlval \<Rightarrow> rat" where
  "exact (SInt i) = of_int i"
| "exact (SReal x) = fvalue x"
| "exact _ = 0"

definition measure_add :: "measure_state \<Rightarrow> sqlval \<Rightarrow> json \<Rightarrow> json list \<Rightarrow> measure_state" where
  "measure_add m v cl locator =
     (let counted = m\<lparr>ms_counts := bump (type_name cl) (ms_counts m)\<rparr>
      in if \<not> numeric_type cl then counted
         else counted\<lparr>ms_total := ms_total m + exact v,
           ms_minimum := (case ms_minimum m of None \<Rightarrow> Some (exact v, cl, locator)
             | Some (x, c, l) \<Rightarrow> if exact v < x then Some (exact v, cl, locator) else Some (x, c, l)),
           ms_maximum := (case ms_maximum m of None \<Rightarrow> Some (exact v, cl, locator)
             | Some (x, c, l) \<Rightarrow> if x < exact v then Some (exact v, cl, locator) else Some (x, c, l))\<rparr>)"

definition extreme_json :: "extreme option \<Rightarrow> json" where
  "extreme_json v = (case v of None \<Rightarrow> JNull
     | Some (_, c, l) \<Rightarrow> JObj [(u ''value'', c), (u ''locator'', JArr l)])"

definition count_of :: "(ustr, nat) dict \<Rightarrow> string \<Rightarrow> nat" where
  "count_of d k = (case dget d (u k) of None \<Rightarrow> 0 | Some n \<Rightarrow> n)"

definition measure_output :: "measure_state \<Rightarrow> json" where
  "measure_output m =
     (let count = count_of (ms_counts m) ''integer'' + count_of (ms_counts m) ''real''
      in JObj [(u ''storage_counts'', counts_json (ms_counts m)), (u ''numeric_count'', JInt (int count)),
               (u ''sum'', rational (if count \<noteq> 0 then Some (ms_total m) else None)),
               (u ''mean'', rational (if count \<noteq> 0 then Some (ms_total m / of_nat count) else None)),
               (u ''minimum'', extreme_json (ms_minimum m)), (u ''maximum'', extreme_json (ms_maximum m))])"

subsection \<open>Groups\<close>

record summary_group =
  sg_key :: "json list"
  sg_row_count :: nat
  sg_locators :: "json list list"
  sg_measures :: "measure_state list"

text \<open>\<open>columns.index(name)\<close>\<close>

fun index_of :: "ustr list \<Rightarrow> ustr \<Rightarrow> nat res" where
  "index_of [] name = Inl (ValueError name)"
| "index_of (c # columns) name = (if c = name then Inr 0 else rbind (index_of columns name) (\<lambda>i. Inr (Suc i)))"

definition positions :: "ustr list \<Rightarrow> ustr list \<Rightarrow> nat list res" where
  "positions columns names = map_res (index_of columns) names"

text \<open>\<open>xs[p]\<close>\<close>

definition item_at :: "'a list \<Rightarrow> nat \<Rightarrow> 'a res" where
  "item_at xs p = (if p < length xs then Inr (xs ! p) else Inl IndexError)"

definition cells_at :: "nat list \<Rightarrow> row_cells \<Rightarrow> json list res" where
  "cells_at ps row = map_res (item_at (rc_values row)) ps"

definition token_of :: "json list \<Rightarrow> ustr" where
  "token_of key = compact (JArr key)"

definition sample_at :: "row_cells \<Rightarrow> sqlval list \<Rightarrow> nat \<Rightarrow> (sqlval \<times> json \<times> json list) res" where
  "sample_at row vals p = rbind (item_at vals p) (\<lambda>v. rbind (item_at (rc_values row) p) (\<lambda>c. Inr (v, c, rc_locator row)))"

definition add_row :: "nat list \<Rightarrow> summary_group \<Rightarrow> row_cells \<Rightarrow> sqlval list \<Rightarrow> summary_group res" where
  "add_row ms g row vals =
     rbind (map_res (\<lambda>(m, p). rbind (sample_at row vals p) (\<lambda>(v, c, l). Inr (measure_add m v c l))) (zip (sg_measures g) ms)) (\<lambda>added.
       Inr (g\<lparr>sg_row_count := sg_row_count g + 1, sg_locators := sg_locators g @ [rc_locator row], sg_measures := added\<rparr>))"

definition new_group :: "json list \<Rightarrow> nat list \<Rightarrow> summary_group" where
  "new_group key ms = \<lparr>sg_key = key, sg_row_count = 0, sg_locators = [], sg_measures = map (\<lambda>_. measure_start) ms\<rparr>"

definition group_step ::
  "nat list \<Rightarrow> nat list \<Rightarrow> (ustr, summary_group) dict \<times> nat \<Rightarrow> row_cells \<Rightarrow> sqlval list \<Rightarrow> ((ustr, summary_group) dict \<times> nat) res" where
  "group_step ks ms acc row vals =
     (case acc of (indexed, row_count) \<Rightarrow>
      rbind (cells_at ks row) (\<lambda>key.
      let token = token_of key; g = (case dget indexed token of Some g \<Rightarrow> g | None \<Rightarrow> new_group key ms)
      in rbind (add_row ms g row vals) (\<lambda>g'. Inr (dput token g' indexed, row_count + 1))))"

definition group_json :: "ustr list \<Rightarrow> summary_group \<Rightarrow> json" where
  "group_json names g = JObj
     [(u ''key'', JArr (sg_key g)), (u ''row_count'', JInt (int (sg_row_count g))),
      (u ''locators'', JArr (map JArr (sg_locators g))),
      (u ''measures'', JObj (zip names (map measure_output (sg_measures g))))]"

definition group_order :: "(ustr, summary_group) dict \<Rightarrow> ustr \<Rightarrow> int \<times> ustr" where
  "group_order indexed token = (- int (case dget indexed token of None \<Rightarrow> 0 | Some g \<Rightarrow> sg_row_count g), token)"

definition bound_step :: "ustr list \<Rightarrow> summary_group list \<times> nat \<Rightarrow> summary_group \<Rightarrow> (summary_group list \<times> nat) res" where
  "bound_step names acc g =
     (case acc of (result, output_bytes) \<Rightarrow>
        rbind (encoded_size (group_json names g)) (\<lambda>size.
        guard (output_bytes + size \<le> MAX_OUTPUT) (u ''summary exceeds 16 MiB output bound'')
          (Inr (result @ [g], output_bytes + size))))"

definition groups :: "engine \<Rightarrow> conn \<Rightarrow> summary_request \<Rightarrow> selection \<Rightarrow> ustr list \<Rightarrow> (summary_group list \<times> nat) res" where
  "groups en cn request sel locator =
     rbind (positions (sl_columns sel) (sq_group_by request)) (\<lambda>ks.
     rbind (positions (sl_columns sel) (sq_measures request)) (\<lambda>ms.
     rbind (scan en cn sel locator (group_step ks ms) ([], 0)) (\<lambda>(indexed, row_count).
     rbind (fold_res (bound_step (sq_measures request)) ([], 0)
         (List.map_filter (dget indexed) (sort_key (group_order indexed) (dkeys indexed)))) (\<lambda>(result, _).
       Inr (result, row_count)))))"

definition summary_csv :: "ustr list \<Rightarrow> summary_group list \<Rightarrow> ustr" where
  "summary_csv names gs =
     csv_text (map u [''key_json'', ''row_count'', ''measures_json'', ''locators_json''] #
       map (\<lambda>g. [compact (JArr (sg_key g)), str_nat (sg_row_count g),
                  compact (JObj (zip names (map measure_output (sg_measures g)))),
                  compact (JArr (map JArr (sg_locators g)))]) gs)"

subsection \<open>One group\<close>

text \<open>Python compares dictionaries without their order.\<close>

definition same_cell :: "json \<Rightarrow> json \<Rightarrow> bool" where
  "same_cell a b = (case (jbody a, jbody b) of
     (Some d, Some e) \<Rightarrow> jkeys d = jkeys e \<and> (\<forall>k \<in> jkeys d. dget d k = dget e k)
   | _ \<Rightarrow> False)"

definition group_key :: "bytes \<Rightarrow> nat \<Rightarrow> json list res" where
  "group_key raw width =
     rbind (decode raw) (\<lambda>v.
     rbind (want_list v (u ''group key requires one typed cell per group_by column'')) (\<lambda>key.
     guard (length key = width) (u ''group key requires one typed cell per group_by column'')
     (rbind (map_res (\<lambda>t. rbind (parameter t) (\<lambda>v. rbind (cell v) (\<lambda>c.
         guard (same_cell c t) (u ''group key must use the exact canonical typed cells from summary output'') (Inr ())))) key) (\<lambda>_.
       Inr key))))"

definition member_step :: "nat list \<Rightarrow> ustr \<Rightarrow> nat \<Rightarrow> nat \<Rightarrow> row_cells list \<times> nat \<times> nat \<Rightarrow> row_cells \<Rightarrow> sqlval list \<Rightarrow>
    (row_cells list \<times> nat \<times> nat) res" where
  "member_step ks token offset limit acc row vals =
     (case acc of (rows, hits, scanned) \<Rightarrow>
        rbind (cells_at ks row) (\<lambda>key.
        Inr (if token_of key \<noteq> token then (rows, hits, scanned + 1)
             else (if offset \<le> hits \<and> hits < offset + limit then rows @ [row] else rows, hits + 1, scanned + 1))))"

subsection \<open>The commands\<close>

text \<open>\<open>csv_output\<close> of tools/sqlite_review.py, which group-rows shares with the row commands.\<close>

definition rows_csv :: "ustr list \<Rightarrow> row_cells list \<Rightarrow> ustr" where
  "rows_csv columns rows =
     csv_text ((u ''locator_json'' # map (\<lambda>name. u ''column:'' @ name) columns) #
       map (\<lambda>row. dumps plain_style (JArr (rc_locator row)) # map (dumps plain_style) (rc_values row)) rows)"

record summary_args =
  sa_members :: bool
  sa_selection :: "bytes res"
  sa_group :: "bytes res"
  sa_offset :: nat
  sa_limit :: nat
  sa_csv :: bool

definition summary_matching :: ustr where
  "summary_matching = u ''Exact typed serialized group values; no affinity, collation or numeric coercion. Filters use the existing typed BINARY row-selection semantics.''"

definition summary_numeric :: ustr where
  "summary_numeric = u ''Only integer and finite real storage classes contribute. Sum and mean are exact rational values of stored integers/IEEE binary reals; decimal_approximation is rounded to 17 significant digits. NULL, text and BLOB counts are explicit.''"

definition summary_meaning :: ustr where
  "summary_meaning = u ''Bounded exploration of a supplied retained copy; not authenticity, producer completeness, live state, execution, acceptance or promotion.''"

definition locator_json :: "ustr \<Rightarrow> ustr list \<Rightarrow> json" where
  "locator_json kind columns = JObj [(u ''kind'', JStr kind), (u ''columns'', JArr (map JStr columns))]"

definition offset_json :: "nat option \<Rightarrow> json" where
  "offset_json v = (case v of None \<Rightarrow> JNull | Some n \<Rightarrow> JInt (int n))"

definition summary_context ::
  "engine \<Rightarrow> summary_args \<Rightarrow> bytes \<Rightarrow> (ustr \<times> json) list \<Rightarrow> summary_request \<Rightarrow> selection \<Rightarrow> ustr list \<Rightarrow> ustr \<Rightarrow> (ustr \<times> json) list" where
  "summary_context en args raw source request sel locator kind =
     [(u ''schema'', JStr (u ''moonfort.sqlite-summary.v1'')), (u ''operation'', JStr (u (if sa_members args then ''group-rows'' else ''summarize''))),
      (u ''source'', JObj source), (u ''sqlite_version'', JStr (en_version en)),
      (u ''selection_sha256'', JStr (sha raw)), (u ''selection_size_bytes'', JInt (int (length raw))),
      (u ''matching'', JStr summary_matching), (u ''numeric_semantics'', JStr summary_numeric), (u ''meaning'', JStr summary_meaning),
      (u ''summary_selection'', JObj (sq_fields request)), (u ''selection'', selection_json sel),
      (u ''locator'', locator_json kind locator), (u ''group_by'', jget (sq_fields request) ''group_by''),
      (u ''measure_columns'', jget (sq_fields request) ''measures'')]"

definition member_output ::
  "engine \<Rightarrow> conn \<Rightarrow> summary_args \<Rightarrow> summary_request \<Rightarrow> selection \<Rightarrow> ustr list \<Rightarrow> (ustr \<times> json) list \<Rightarrow> ((ustr \<times> json) list \<times> ustr) res" where
  "member_output en cn args request sel locator context =
     rbind (read_file (sa_group args) MAX_SELECTION) (\<lambda>key_raw.
     rbind (group_key key_raw (length (sq_group_by request))) (\<lambda>key.
     rbind (positions (sl_columns sel) (sq_group_by request)) (\<lambda>ks.
     rbind (scan en cn sel locator (member_step ks (token_of key) (sa_offset args) (sa_limit args)) ([], 0, 0)) (\<lambda>(rows, hits, scanned).
     let again = sa_offset args + length rows < hits;
         full = context @
           [(u ''group_key'', JArr key), (u ''group_key_sha256'', JStr (sha key_raw)), (u ''group_key_size_bytes'', JInt (int (length key_raw))),
            (u ''selected_row_count'', JInt (int scanned)), (u ''total_group_rows'', JInt (int hits)),
            (u ''offset'', JInt (int (sa_offset args))), (u ''limit'', JInt (int (sa_limit args))),
            (u ''row_count'', JInt (int (length rows))), (u ''has_more'', JBool again),
            (u ''next_offset'', offset_json (next_offset (sa_offset args) rows again)), (u ''complete_selection_scanned'', JBool True),
            (u ''ordering'', JStr (u ''Unique source locator in BINARY ascending order.''))]
     in Inr (full, if sa_csv args then rows_csv (sl_columns sel) rows
          else pretty (JObj (dmerge full [(u ''rows'', JArr (map row_json rows))])))))))"

definition summary_ordering :: ustr where
  "summary_ordering = u ''Descending row count, then lexical compact JSON typed key array; source locators in BINARY ascending order.''"

definition summary_output :: "engine \<Rightarrow> summary_args \<Rightarrow> bytes \<Rightarrow> (ustr \<times> json) list \<Rightarrow> ((ustr \<times> json) list \<times> ustr) res" where
  "summary_output en args data source =
     rbind (read_file (sa_selection args) MAX_SELECTION) (\<lambda>raw.
     rbind (database en data) (\<lambda>cn.
     rbind (inventory en cn) (\<lambda>tables.
     rbind (summary_recipe raw tables (sha data) (sa_members args)) (\<lambda>(request, sel, locator, kind).
     let context = summary_context en args raw source request sel locator kind in
     rbind (if sa_members args then member_output en cn args request sel locator context
            else rbind (groups en cn request sel locator) (\<lambda>(result, count).
              let full = context @ [(u ''selected_row_count'', JInt (int count)), (u ''group_count'', JInt (int (length result))),
                    (u ''complete'', JBool True), (u ''ordering'', JStr summary_ordering)]
              in Inr (full, if sa_csv args then summary_csv (sq_measures request) result
                   else pretty (JObj (dmerge full [(u ''groups'', JArr (map (group_json (sq_measures request)) result))]))))) (\<lambda>(full, output).
     rbind (utf8_encode output) (\<lambda>encoded.
     guard (length encoded \<le> MAX_OUTPUT) (u ''summary exceeds 16 MiB output bound'') (Inr (full, output))))))))"

subsection \<open>What a scan visits\<close>

definition scans :: "engine \<Rightarrow> conn \<Rightarrow> selection \<Rightarrow> ustr list \<Rightarrow> (row_cells \<times> sqlval list) list \<Rightarrow> bool" where
  "scans en cn sel locator items \<longleftrightarrow>
     (\<exists>query params r rows. scan_query sel locator = Inr (query, params) \<and> en_execute en cn query params = Inr r \<and>
        snd (sr_rows r) = None \<and> map_res (row_cell (length locator)) (fst (sr_rows r)) = Inr rows \<and>
        items = zip rows (map (drop (length locator)) (fst (sr_rows r))))"

lemma scans_unique: "scans en cn sel locator items \<Longrightarrow> scans en cn sel locator items' \<Longrightarrow> items = items'"
  by (auto simp: scans_def)

lemma scan_run:
  "fold_res (scan_step n body) (count, scanned, s) valss = Inr (count', scanned', s') \<Longrightarrow>
   \<exists>rows. map_res (row_cell n) valss = Inr rows \<and>
     fold_res (\<lambda>s (row, vals). body s row vals) s (zip rows (map (drop n) valss)) = Inr s' \<and>
     count' = count + length valss \<and> (count \<le> MAX_ROWS \<longrightarrow> count' \<le> MAX_ROWS)"
proof (induction valss arbitrary: count scanned s)
  case Nil
  then show ?case by auto
next
  case (Cons vals valss)
  then obtain acc where step: "scan_step n body (count, scanned, s) vals = Inr acc"
    and rest: "fold_res (scan_step n body) acc valss = Inr (count', scanned', s')"
    by (auto simp: rbind_eq_Inr)
  from step obtain loc cells size s1 where
    c: "count + 1 \<le> MAX_ROWS" "map_res cell (take n vals) = Inr loc" "map_res cell (drop n vals) = Inr cells"
    and b: "body s \<lparr>rc_locator = loc, rc_values = cells\<rparr> (drop n vals) = Inr s1"
    and acc: "acc = (count + 1, scanned + size, s1)"
    by (auto simp: scan_step_def Let_def rbind_eq_Inr guard_eq_Inr)
  from Cons.IH [OF rest [unfolded acc]] obtain rows where
    "map_res (row_cell n) valss = Inr rows"
    "fold_res (\<lambda>s (row, vals). body s row vals) s1 (zip rows (map (drop n) valss)) = Inr s'"
    "count' = count + 1 + length valss" "count + 1 \<le> MAX_ROWS \<longrightarrow> count' \<le> MAX_ROWS"
    by auto
  moreover have "row_cell n vals = Inr \<lparr>rc_locator = loc, rc_values = cells\<rparr>" using c by (simp add: row_cell_def)
  ultimately show ?case using b c(1) by simp
qed

lemma scan_Inr:
  assumes "scan en cn sel locator body s = Inr s'"
  obtains items where "scans en cn sel locator items" "length items \<le> MAX_ROWS"
    "fold_res (\<lambda>s (row, vals). body s row vals) s items = Inr s'"
proof -
  from assms obtain query params r count scanned where
    q: "scan_query sel locator = Inr (query, params)" "en_execute en cn query params = Inr r" "snd (sr_rows r) = None"
    and run: "fold_res (scan_step (length locator) body) (0, 0, s) (fst (sr_rows r)) = Inr (count, scanned, s')"
    by (auto simp: scan_def rbind_eq_Inr for_rows_Inr)
  from scan_run [OF run] obtain rows where
    rows: "map_res (row_cell (length locator)) (fst (sr_rows r)) = Inr rows" "length (fst (sr_rows r)) \<le> MAX_ROWS"
    and body: "fold_res (\<lambda>s (row, vals). body s row vals) s (zip rows (map (drop (length locator)) (fst (sr_rows r)))) = Inr s'"
    by auto
  have "scans en cn sel locator (zip rows (map (drop (length locator)) (fst (sr_rows r))))"
    using q rows(1) unfolding scans_def by blast
  moreover have "length (zip rows (map (drop (length locator)) (fst (sr_rows r)))) \<le> MAX_ROWS"
    using rows(2) map_res_length [OF rows(1)] by simp
  ultimately show thesis using that body by blast
qed

lemma scans_cells:
  assumes "scans en cn sel locator items" "(row, vals) \<in> set items"
  shows "map_res cell vals = Inr (rc_values row)"
proof -
  from assms(1) obtain r :: statement_result and rows where
    rows: "map_res (row_cell (length locator)) (fst (sr_rows r)) = Inr rows"
    and items: "items = zip rows (map (drop (length locator)) (fst (sr_rows r)))"
    by (auto simp: scans_def)
  from assms(2) obtain i where i: "i < length rows" "i < length (fst (sr_rows r))" "row = rows ! i"
      "vals = drop (length locator) (fst (sr_rows r) ! i)"
    by (auto simp: items set_zip)
  have "row_cell (length locator) (fst (sr_rows r) ! i) = Inr (rows ! i)"
    using rows i by (auto simp: map_res_eq_Inr list_all2_conv_all_nth)
  with i obtain loc cells where "map_res cell vals = Inr cells" "\<lparr>rc_locator = loc, rc_values = cells\<rparr> = row"
    by (auto simp: row_cell_def rbind_eq_Inr)
  then show ?thesis by auto
qed

lemma cell_type:
  "cell v = Inr c \<Longrightarrow> type_name c = (case v of SNull \<Rightarrow> u ''null'' | SBlob _ \<Rightarrow> u ''blob'' | SText _ \<Rightarrow> u ''text''
     | SInt _ \<Rightarrow> u ''integer'' | SReal _ \<Rightarrow> u ''real'')"
  by (cases v) (auto simp: typed_def type_name_def jbody_def jget_def res_simps)

lemma cell_numeric: "cell v = Inr c \<Longrightarrow> numeric_type c \<longleftrightarrow> (\<exists>i. v = SInt i) \<or> (\<exists>x. v = SReal x)"
  using cell_type [of v c] by (cases v) (simp_all add: numeric_type_def)

subsection \<open>What a measure holds\<close>

type_synonym sample = "sqlval \<times> json \<times> json list"

definition measure_of :: "sample list \<Rightarrow> measure_state" where
  "measure_of xs = foldl (\<lambda>m (v, c, l). measure_add m v c l) measure_start xs"

definition numeric_samples :: "sample list \<Rightarrow> sample list" where
  "numeric_samples xs = filter (\<lambda>(v, c, l). numeric_type c) xs"

text \<open>The first extremal sample for an order.\<close>

definition first_best :: "(rat \<Rightarrow> rat \<Rightarrow> bool) \<Rightarrow> sample list \<Rightarrow> extreme \<Rightarrow> bool" where
  "first_best better xs e \<longleftrightarrow>
     (\<exists>ys v c l zs. xs = ys @ (v, c, l) # zs \<and> e = (exact v, c, l) \<and>
        (\<forall>t \<in> set ys. better (exact v) (exact (fst t))) \<and> (\<forall>t \<in> set zs. \<not> better (exact (fst t)) (exact v)))"

lemma measure_of_snoc: "measure_of (xs @ [(v, c, l)]) = measure_add (measure_of xs) v c l"
  by (simp add: measure_of_def)

lemma first_best_keep:
  assumes "first_best better xs e" "\<not> better (exact v) (fst e)"
  shows "first_best better (xs @ [(v, c, l)]) e"
proof -
  from assms(1) obtain ys v0 c0 l0 zs where "xs = ys @ (v0, c0, l0) # zs" "e = (exact v0, c0, l0)"
    "\<forall>t \<in> set ys. better (exact v0) (exact (fst t))" "\<forall>t \<in> set zs. \<not> better (exact (fst t)) (exact v0)"
    unfolding first_best_def by blast
  with assms(2) show ?thesis unfolding first_best_def
    by (intro exI [of _ ys] exI [of _ v0] exI [of _ c0] exI [of _ l0] exI [of _ "zs @ [(v, c, l)]"]) simp
qed

lemma first_best_replace:
  assumes "first_best better xs e" "better (exact v) (fst e)"
    and order: "\<And>x y z. better x y \<Longrightarrow> better y z \<Longrightarrow> better x z" "\<And>x y z. better x y \<Longrightarrow> \<not> better z y \<Longrightarrow> better x z"
  shows "first_best better (xs @ [(v, c, l)]) (exact v, c, l)"
proof -
  from assms(1) obtain ys v0 c0 l0 zs where xs: "xs = ys @ (v0, c0, l0) # zs" and e: "e = (exact v0, c0, l0)"
    and ys: "\<forall>t \<in> set ys. better (exact v0) (exact (fst t))" and zs: "\<forall>t \<in> set zs. \<not> better (exact (fst t)) (exact v0)"
    unfolding first_best_def by blast
  have new: "better (exact v) (exact v0)" using assms(2) by (simp add: e)
  have "better (exact v) (exact (fst t))" if "t \<in> set xs" for t
  proof -
    from that consider "t \<in> set ys" | "t = (v0, c0, l0)" | "t \<in> set zs" by (auto simp: xs)
    then show ?thesis
    proof cases
      case 1
      with ys order(1) [OF new] show ?thesis by blast
    next
      case 2
      with new show ?thesis by simp
    next
      case 3
      with zs order(2) [OF new] show ?thesis by blast
    qed
  qed
  then show ?thesis unfolding first_best_def
    by (intro exI [of _ xs] exI [of _ v] exI [of _ c] exI [of _ l] exI [of _ "[]"]) simp
qed

lemma first_best_single: "first_best better [(v, c, l)] (exact v, c, l)"
  unfolding first_best_def by (intro exI [of _ "[]"] exI [of _ v] exI [of _ c] exI [of _ l]) simp

definition best_ok :: "(rat \<Rightarrow> rat \<Rightarrow> bool) \<Rightarrow> sample list \<Rightarrow> extreme option \<Rightarrow> bool" where
  "best_ok better xs e0 = (case e0 of None \<Rightarrow> xs = [] | Some e \<Rightarrow> first_best better xs e)"

lemma best_ok_step:
  assumes "best_ok better xs e0"
    and order: "\<And>x y z. better x y \<Longrightarrow> better y z \<Longrightarrow> better x z" "\<And>x y z. better x y \<Longrightarrow> \<not> better z y \<Longrightarrow> better x z"
  shows "best_ok better (xs @ [(v, c, l)]) (case e0 of None \<Rightarrow> Some (exact v, c, l)
    | Some (x, c', l') \<Rightarrow> if better (exact v) x then Some (exact v, c, l) else Some (x, c', l'))"
proof (cases e0)
  case None
  with assms(1) show ?thesis by (simp add: best_ok_def first_best_single)
next
  case (Some e)
  obtain x c' l' where e: "e = (x, c', l')" by (cases e)
  have prev: "first_best better xs (x, c', l')" using assms(1) Some e by (simp add: best_ok_def)
  show ?thesis
    using Some e first_best_keep [OF prev, of v c l] first_best_replace [where v = v and c = c and l = l, OF prev _ order] by (simp add: best_ok_def)
qed

text \<open>The measure after any samples, against its specification.\<close>

definition measure_ok :: "sample list \<Rightarrow> measure_state \<Rightarrow> bool" where
  "measure_ok xs m \<longleftrightarrow>
     (\<forall>k \<in> u ` {''null'', ''integer'', ''real'', ''text'', ''blob''}.
        dget (ms_counts m) k = Some (length (filter (\<lambda>(v, c, l). type_name c = k) xs))) \<and>
     ms_total m = sum_list (map (\<lambda>(v, c, l). exact v) (numeric_samples xs)) \<and>
     best_ok (<) (numeric_samples xs) (ms_minimum m) \<and> best_ok (>) (numeric_samples xs) (ms_maximum m)"

lemma measure_ok_counts:
  "measure_ok xs m \<Longrightarrow> k \<in> u ` {''null'', ''integer'', ''real'', ''text'', ''blob''} \<Longrightarrow>
   dget (ms_counts m) k = Some (length (filter (\<lambda>(v, c, l). type_name c = k) xs))"
  unfolding measure_ok_def by (elim conjE) (rule bspec)

lemma measure_ok_start: "measure_ok [] measure_start"
  by (auto simp: measure_ok_def measure_start_def numeric_samples_def best_ok_def)

lemma measure_ok_add:
  assumes ok: "measure_ok xs m"
  shows "measure_ok (xs @ [(v, c, l)]) (measure_add m v c l)"
proof -
  let ?m = "measure_add m v c l" and ?xs = "xs @ [(v, c, l)]"
  have nums: "numeric_samples ?xs = numeric_samples xs @ (if numeric_type c then [(v, c, l)] else [])"
    by (simp add: numeric_samples_def)
  have counts: "dget (ms_counts ?m) k = Some (length (filter (\<lambda>(v, c, l). type_name c = k) ?xs))"
    if "k \<in> u ` {''null'', ''integer'', ''real'', ''text'', ''blob''}" for k
  proof -
    have "dget (ms_counts m) k = Some (length (filter (\<lambda>(v, c, l). type_name c = k) xs))"
      by (rule measure_ok_counts [OF ok that])
    then show ?thesis by (cases "k = type_name c") (simp_all add: measure_add_def Let_def bump_def dget_dput)
  qed
  have total: "ms_total ?m = sum_list (map (\<lambda>(v, c, l). exact v) (numeric_samples ?xs))"
    using ok unfolding nums by (simp add: measure_ok_def measure_add_def Let_def)
  have old: "best_ok (<) (numeric_samples xs) (ms_minimum m)" "best_ok (>) (numeric_samples xs) (ms_maximum m)"
    using ok by (simp_all add: measure_ok_def)
  have least: "best_ok (<) (numeric_samples xs @ [(v, c, l)]) (case ms_minimum m of None \<Rightarrow> Some (exact v, c, l)
      | Some (x, c', l') \<Rightarrow> if exact v < x then Some (exact v, c, l) else Some (x, c', l'))"
    by (rule best_ok_step [OF old(1)]) simp_all
  have greatest: "best_ok (>) (numeric_samples xs @ [(v, c, l)]) (case ms_maximum m of None \<Rightarrow> Some (exact v, c, l)
      | Some (x, c', l') \<Rightarrow> if x < exact v then Some (exact v, c, l) else Some (x, c', l'))"
    by (rule best_ok_step [OF old(2)]) simp_all
  have low: "best_ok (<) (numeric_samples ?xs) (ms_minimum ?m)"
    using least old(1) unfolding nums by (simp add: measure_add_def Let_def)
  have high: "best_ok (>) (numeric_samples ?xs) (ms_maximum ?m)"
    using greatest old(2) unfolding nums by (simp add: measure_add_def Let_def)
  show ?thesis unfolding measure_ok_def using counts total low high by blast
qed

lemma measure_ok_of: "measure_ok xs (measure_of xs)"
proof (induction xs rule: rev_induct)
  case Nil
  then show ?case by (simp add: measure_of_def measure_ok_start)
next
  case (snoc x xs)
  obtain v c l where x: "x = (v, c, l)" by (cases x)
  show ?case using measure_ok_add [OF snoc] by (simp add: x measure_of_snoc)
qed

subsection \<open>What the groups hold\<close>

type_synonym item = "row_cells \<times> sqlval list"

lemma cell_jvalid: "cell v = Inr c \<Longrightarrow> jvalid False c"
  by (cases v) (auto simp: typed_def res_simps)

definition key_cells :: "json list \<Rightarrow> bool" where
  "key_cells key \<longleftrightarrow> (\<forall>c \<in> set key. jvalid False c)"

lemma token_eq_iff: "key_cells k \<Longrightarrow> key_cells k' \<Longrightarrow> token_of k = token_of k' \<longleftrightarrow> k = k'"
  using compact_text.enc_eq_iff [of "JArr k" "JArr k'"] by (simp add: token_of_def key_cells_def list_all_iff)

lemma item_at_Inr: "item_at xs p = Inr x \<longleftrightarrow> p < length xs \<and> x = xs ! p"
  by (auto simp: item_at_def)

lemma cells_at_valid:
  assumes "map_res cell vals = Inr (rc_values row)" "cells_at ps row = Inr key"
  shows "key_cells key"
proof -
  have "\<forall>c \<in> set (rc_values row). jvalid False c" using map_res_member [OF assms(1)] cell_jvalid by blast
  then show ?thesis using map_res_member [OF assms(2) [unfolded cells_at_def]]
    unfolding key_cells_def item_at_Inr by (metis nth_mem)
qed

lemma group_step_Inr:
  "group_step ks ms (d, n) row vals = Inr acc \<longleftrightarrow>
     (\<exists>key g. cells_at ks row = Inr key \<and>
        add_row ms (case dget d (token_of key) of Some g \<Rightarrow> g | None \<Rightarrow> new_group key ms) row vals = Inr g \<and>
        acc = (dput (token_of key) g d, n + 1))"
  by (auto simp: group_step_def Let_def rbind_eq_Inr)

lemma add_row_Inr:
  "add_row ms g row vals = Inr g' \<longleftrightarrow>
     (\<exists>added. map_res (\<lambda>(m, p). rbind (sample_at row vals p) (\<lambda>(v, c, l). Inr (measure_add m v c l))) (zip (sg_measures g) ms) = Inr added \<and>
        g' = g\<lparr>sg_row_count := sg_row_count g + 1, sg_locators := sg_locators g @ [rc_locator row], sg_measures := added\<rparr>)"
  by (auto simp: add_row_def rbind_eq_Inr)

definition group_body :: "nat list \<Rightarrow> nat list \<Rightarrow> (ustr, summary_group) dict \<times> nat \<Rightarrow> item \<Rightarrow> ((ustr, summary_group) dict \<times> nat) res" where
  "group_body ks ms acc it = group_step ks ms acc (fst it) (snd it)"

definition group_locators :: "(ustr, summary_group) dict \<times> nat \<Rightarrow> ustr \<Rightarrow> json list list" where
  "group_locators acc token = (case dget (fst acc) token of None \<Rightarrow> [] | Some g \<Rightarrow> sg_locators g)"

definition item_token :: "nat list \<Rightarrow> item \<Rightarrow> ustr" where
  "item_token ks it = (case cells_at ks (fst it) of Inr key \<Rightarrow> token_of key | Inl e \<Rightarrow> [])"

definition item_locator :: "item \<Rightarrow> json list" where
  "item_locator it = rc_locator (fst it)"

interpretation summary_locators: collector "group_body ks ms" group_locators "item_token ks" item_locator for ks ms
proof unfold_locales
  fix acc acc' :: "(ustr, summary_group) dict \<times> nat" and it k
  obtain d n where acc: "acc = (d, n)" by (cases acc)
  assume "group_body ks ms acc it = Inr acc'"
  then obtain key g where key: "cells_at ks (fst it) = Inr key"
    and g: "add_row ms (case dget d (token_of key) of Some g \<Rightarrow> g | None \<Rightarrow> new_group key ms) (fst it) (snd it) = Inr g"
    and acc': "acc' = (dput (token_of key) g d, n + 1)"
    by (auto simp: acc group_body_def group_step_Inr)
  have "sg_locators g = (case dget d (token_of key) of Some g \<Rightarrow> sg_locators g | None \<Rightarrow> []) @ [item_locator it]"
    using g by (cases "dget d (token_of key)") (auto simp: add_row_Inr new_group_def item_locator_def)
  then show "group_locators acc' k = group_locators acc k @ (if k = item_token ks it then [item_locator it] else [])"
    by (simp add: acc acc' key group_locators_def item_token_def dget_dput split: option.splits)
qed

definition samples_at :: "item list \<Rightarrow> nat \<Rightarrow> sample list \<Rightarrow> bool" where
  "samples_at items p xs \<longleftrightarrow> map_res (\<lambda>(row, vals). sample_at row vals p) items = Inr xs"

definition in_group :: "nat list \<Rightarrow> json list \<Rightarrow> item \<Rightarrow> bool" where
  "in_group ks key it = (cells_at ks (fst it) = Inr key)"

definition group_ok :: "nat list \<Rightarrow> nat list \<Rightarrow> item list \<Rightarrow> summary_group \<Rightarrow> bool" where
  "group_ok ks ms items g \<longleftrightarrow>
     (let inside = filter (in_group ks (sg_key g)) items
      in sg_row_count g = length inside \<and> sg_locators g = map (rc_locator \<circ> fst) inside \<and>
         list_all2 (\<lambda>p m. \<exists>xs. samples_at inside p xs \<and> measure_ok xs m) ms (sg_measures g))"

lemma samples_at_snoc:
  "samples_at items p xs \<Longrightarrow> sample_at row vals p = Inr x \<Longrightarrow> samples_at (items @ [(row, vals)]) p (xs @ [x])"
  by (auto simp: samples_at_def map_res_eq_Inr intro: list_all2_appendI)

text \<open>One more row of its own group.\<close>

lemma group_ok_add:
  assumes ok: "group_ok ks ms items g" and g': "add_row ms g row vals = Inr g'" and key: "cells_at ks row = Inr (sg_key g)"
  shows "group_ok ks ms (items @ [(row, vals)]) g' \<and> sg_key g' = sg_key g"
proof -
  let ?inside = "filter (in_group ks (sg_key g)) items"
  from g' obtain added where
    added: "map_res (\<lambda>(m, p). rbind (sample_at row vals p) (\<lambda>(v, c, l). Inr (measure_add m v c l))) (zip (sg_measures g) ms) = Inr added"
    and eq: "g' = g\<lparr>sg_row_count := sg_row_count g + 1, sg_locators := sg_locators g @ [rc_locator row], sg_measures := added\<rparr>"
    by (auto simp: add_row_Inr)
  have old: "list_all2 (\<lambda>p m. \<exists>xs. samples_at ?inside p xs \<and> measure_ok xs m) ms (sg_measures g)"
    and head: "sg_row_count g = length ?inside" "sg_locators g = map (rc_locator \<circ> fst) ?inside"
    using ok by (simp_all add: group_ok_def Let_def)
  have inside: "filter (in_group ks (sg_key g')) (items @ [(row, vals)]) = ?inside @ [(row, vals)]"
    using key by (simp add: eq in_group_def)
  have len: "length added = length ms" "length (sg_measures g) = length ms"
    using map_res_length [OF added] list_all2_lengthD [OF old] by simp_all
  have "\<exists>xs. samples_at (?inside @ [(row, vals)]) (ms ! i) xs \<and> measure_ok xs (added ! i)" if i: "i < length ms" for i
  proof -
    from old i obtain xs where xs: "samples_at ?inside (ms ! i) xs" "measure_ok xs (sg_measures g ! i)"
      by (auto simp: list_all2_conv_all_nth)
    from added i len have "rbind (sample_at row vals (ms ! i)) (\<lambda>(v, c, l). Inr (measure_add (sg_measures g ! i) v c l)) = Inr (added ! i)"
      by (auto simp: map_res_eq_Inr list_all2_conv_all_nth)
    then obtain v c l where s: "sample_at row vals (ms ! i) = Inr (v, c, l)" "added ! i = measure_add (sg_measures g ! i) v c l"
      by (auto simp: rbind_eq_Inr)
    from samples_at_snoc [OF xs(1) s(1)] measure_ok_add [OF xs(2), of v c l] s(2) show ?thesis by metis
  qed
  then have "list_all2 (\<lambda>p m. \<exists>xs. samples_at (?inside @ [(row, vals)]) p xs \<and> measure_ok xs m) ms added"
    using len by (simp add: list_all2_conv_all_nth)
  with head show ?thesis unfolding group_ok_def Let_def inside by (simp add: eq)
qed

lemma group_ok_other:
  "group_ok ks ms items g \<Longrightarrow> \<not> in_group ks (sg_key g) it \<Longrightarrow> group_ok ks ms (items @ [it]) g"
  by (simp add: group_ok_def Let_def)

lemma group_ok_new:
  "(\<And>it. it \<in> set items \<Longrightarrow> \<not> in_group ks key it) \<Longrightarrow> group_ok ks ms items (new_group key ms)"
  by (simp add: group_ok_def new_group_def Let_def filter_empty_conv list_all2_conv_all_nth samples_at_def measure_ok_start)

definition row_counts :: "(ustr, summary_group) dict \<Rightarrow> (ustr, nat) dict" where
  "row_counts d = map (\<lambda>(k, g). (k, sg_row_count g)) d"

lemma row_counts_dput: "row_counts (dput k g d) = dput k (sg_row_count g) (row_counts d)"
  by (induction d) (auto simp: row_counts_def)

lemma dget_row_counts: "dget (row_counts d) k = map_option sg_row_count (dget d k)"
  by (induction d) (auto simp: row_counts_def)

definition valid_item :: "item \<Rightarrow> bool" where
  "valid_item it \<longleftrightarrow> map_res cell (snd it) = Inr (rc_values (fst it))"

definition groups_inv :: "nat list \<Rightarrow> nat list \<Rightarrow> item list \<Rightarrow> (ustr, summary_group) dict \<times> nat \<Rightarrow> bool" where
  "groups_inv ks ms seen acc \<longleftrightarrow>
     snd acc = length seen \<and> dict_ok (fst acc) \<and> dsum (row_counts (fst acc)) = length seen \<and>
     set (dkeys (fst acc)) = item_token ks ` set seen \<and>
     (\<forall>it \<in> set seen. \<exists>key. cells_at ks (fst it) = Inr key \<and> key_cells key) \<and>
     (\<forall>k g. dget (fst acc) k = Some g \<longrightarrow> token_of (sg_key g) = k \<and> key_cells (sg_key g) \<and> group_ok ks ms seen g)"

lemma groups_inv_start: "groups_inv ks ms [] ([], 0)"
  by (simp add: groups_inv_def row_counts_def dsum_def)

lemma groups_inv_step:
  assumes inv: "groups_inv ks ms seen acc" and it: "valid_item it" and step: "group_body ks ms acc it = Inr acc'"
  shows "groups_inv ks ms (seen @ [it]) acc'"
proof -
  obtain d n where acc: "acc = (d, n)" by (cases acc)
  obtain row vals where item: "it = (row, vals)" by (cases it)
  from step obtain key g where key: "cells_at ks row = Inr key"
    and g: "add_row ms (case dget d (token_of key) of Some g \<Rightarrow> g | None \<Rightarrow> new_group key ms) row vals = Inr g"
    and acc': "acc' = (dput (token_of key) g d, n + 1)"
    by (auto simp: acc item group_body_def group_step_Inr)
  let ?t = "token_of key"
  have kc: "key_cells key" using cells_at_valid [OF _ key] it by (simp add: valid_item_def item)
  have groups: "\<And>k g. dget d k = Some g \<Longrightarrow> token_of (sg_key g) = k \<and> key_cells (sg_key g) \<and> group_ok ks ms seen g"
    and seen: "\<And>it. it \<in> set seen \<Longrightarrow> \<exists>key. cells_at ks (fst it) = Inr key \<and> key_cells key"
    and keys: "set (dkeys d) = item_token ks ` set seen" and ok: "dict_ok d"
    and count: "dsum (row_counts d) = length seen" "n = length seen"
    using inv unfolding groups_inv_def acc fst_conv snd_conv by blast+
  have fresh: "\<not> in_group ks key it" if "dget d ?t = None" "it \<in> set seen" for it
    using that keys dget_None_iff [of d ?t] by (force simp: in_group_def item_token_def)
  define g0 where "g0 = (case dget d ?t of Some g \<Rightarrow> g | None \<Rightarrow> new_group key ms)"
  have g0: "group_ok ks ms seen g0 \<and> sg_key g0 = key"
  proof (cases "dget d ?t")
    case None
    then show ?thesis using group_ok_new [of seen ks key ms] fresh by (simp add: g0_def) (simp add: new_group_def)
  next
    case (Some g1)
    with groups [of ?t g1] token_eq_iff [of "sg_key g1" key] kc show ?thesis by (simp add: g0_def)
  qed
  have here: "group_ok ks ms (seen @ [it]) g \<and> sg_key g = key"
    using group_ok_add [of ks ms seen g0 row vals g] g0 g key by (simp add: g0_def item)
  have others: "token_of (sg_key g') = k \<and> key_cells (sg_key g') \<and> group_ok ks ms (seen @ [it]) g'"
    if "dget (dput ?t g d) k = Some g'" for k g'
  proof (cases "k = ?t")
    case True
    with that here kc show ?thesis by (auto simp: dget_dput)
  next
    case False
    with that have old: "token_of (sg_key g') = k \<and> key_cells (sg_key g') \<and> group_ok ks ms seen g'"
      using groups by (simp add: dget_dput)
    have "\<not> in_group ks (sg_key g') it" using old False key by (auto simp: in_group_def item)
    with old group_ok_other show ?thesis by blast
  qed
  have "sg_row_count g = sg_row_count g0 + 1" using g unfolding g0_def [symmetric] by (auto simp: add_row_Inr)
  moreover have "sg_row_count g0 = (case dget (row_counts d) ?t of None \<Rightarrow> 0 | Some n \<Rightarrow> n)"
    by (simp add: g0_def dget_row_counts new_group_def split: option.splits)
  ultimately have "dsum (row_counts (dput ?t g d)) = length (seen @ [it])"
    using dsum_dput [of ?t "sg_row_count g" "row_counts d"] count(1) by (simp add: row_counts_dput)
  moreover have "set (dkeys (dput ?t g d)) = item_token ks ` set (seen @ [it])"
    using keys key by (auto simp: dkeys_dput item_token_def item)
  moreover have "\<exists>key. cells_at ks (fst it') = Inr key \<and> key_cells key" if "it' \<in> set (seen @ [it])" for it'
    using that seen [of it'] key kc by (cases "it' = it") (simp_all add: item)
  ultimately show ?thesis unfolding groups_inv_def acc' using others ok count(2) by auto
qed

lemma bound_run: "fold_res (bound_step names) (done1, b) gs = Inr (result, b') \<Longrightarrow> result = done1 @ gs"
proof (induction gs arbitrary: done1 b)
  case Nil
  then show ?case by simp
next
  case (Cons g gs)
  then obtain mid where step: "bound_step names (done1, b) g = Inr mid" and rest: "fold_res (bound_step names) mid gs = Inr (result, b')"
    by (auto simp: rbind_eq_Inr)
  from step obtain b1 where mid: "mid = (done1 @ [g], b1)" by (auto simp: bound_step_def rbind_eq_Inr guard_eq_Inr)
  from Cons.IH [OF rest [unfolded mid]] show ?case by simp
qed

lemma group_body_eq: "(\<lambda>acc (row, vals). group_step ks ms acc row vals) = group_body ks ms"
  by (intro ext) (simp add: group_body_def split_beta)

lemma groups_run_inv:
  assumes "fold_res (group_body ks ms) ([], 0) items = Inr acc" "list_all valid_item items"
  shows "groups_inv ks ms items acc"
  using assms(1)
proof (rule fold_res_inv [where P = "groups_inv ks ms"])
  show "groups_inv ks ms [] ([], 0)" by (rule groups_inv_start)
next
  fix seen acc it acc'
  assume "groups_inv ks ms seen acc" "it \<in> set items" "group_body ks ms acc it = Inr acc'"
  with assms(2) show "groups_inv ks ms (seen @ [it]) acc'" by (intro groups_inv_step) (auto simp: list_all_iff)
qed

lemma map_filter_dget: "set ks \<subseteq> set (dkeys d) \<Longrightarrow> List.map_filter (dget d) ks = map (\<lambda>k. the (dget d k)) ks"
proof (induction ks)
  case Nil
  then show ?case by (simp add: List.map_filter_simps)
next
  case (Cons k ks)
  then obtain g where "dget d k = Some g" using dget_None_iff [of d k] by auto
  with Cons show ?case by (simp add: List.map_filter_simps)
qed

subsection \<open>Properties\<close>

text \<open>The row counts of a dictionary of groups, listed in any order of its keys.\<close>

lemma dsum_row_counts:
  assumes "dict_ok d" "distinct ts" "set ts = set (dkeys d)"
  shows "sum_list (map (\<lambda>k. sg_row_count (the (dget d k))) ts) = dsum (row_counts d)"
proof -
  have "map (\<lambda>x. sg_row_count (snd x)) d = map (\<lambda>k. sg_row_count (the (dget d k))) (dkeys d)"
    using assms(1) by (auto simp: dkeys_def dict_ok_def)
  then have "dsum (row_counts d) = sum_list (map (\<lambda>k. sg_row_count (the (dget d k))) (dkeys d))"
    by (simp add: dsum_def row_counts_def comp_def split_beta)
  moreover have "distinct (dkeys d)" using assms(1) by (simp add: dict_ok_def)
  ultimately show ?thesis using assms(2,3) by (simp add: sum_list_distinct_conv_sum_set)
qed

text \<open>C20: a measure is its specification: after any sequence of samples it holds the number of values of each
  storage class, the exact rational sum of the integers and reals among them, and, for the minimum and
  the maximum, the first sample that attains it, with its typed cell and its locator.\<close>

theorem measure_exact:
  "let nums = filter (\<lambda>(v, c, l). numeric_type c) xs; m = foldl (\<lambda>m (v, c, l). measure_add m v c l) measure_start xs
   in list_all (\<lambda>k. count_of (ms_counts m) k = length (filter (\<lambda>(v, c, l). type_name c = u k) xs))
        [''null'', ''integer'', ''real'', ''text'', ''blob''] \<and>
      ms_total m = sum_list (map (\<lambda>(v, c, l). exact v) nums) \<and>
      (case ms_minimum m of None \<Rightarrow> nums = [] | Some e \<Rightarrow> first_best (<) nums e) \<and>
      (case ms_maximum m of None \<Rightarrow> nums = [] | Some e \<Rightarrow> first_best (>) nums e)"
proof -
  have ok: "measure_ok xs (measure_of xs)" by (rule measure_ok_of)
  have "count_of (ms_counts (measure_of xs)) k = length (filter (\<lambda>(v, c, l). type_name c = u k) xs)"
    if "k \<in> {''null'', ''integer'', ''real'', ''text'', ''blob''}" for k
  proof -
    have "u k \<in> u ` {''null'', ''integer'', ''real'', ''text'', ''blob''}" using that by (rule imageI)
    then have "dget (ms_counts (measure_of xs)) (u k) = Some (length (filter (\<lambda>(v, c, l). type_name c = u k) xs))"
      by (rule measure_ok_counts [OF ok])
    then show ?thesis by (simp add: count_of_def)
  qed
  then have "list_all (\<lambda>k. count_of (ms_counts (measure_of xs)) k = length (filter (\<lambda>(v, c, l). type_name c = u k) xs))
      [''null'', ''integer'', ''real'', ''text'', ''blob'']" by simp
  with ok show ?thesis unfolding Let_def measure_of_def [symmetric] measure_ok_def best_ok_def numeric_samples_def by blast
qed

lemma group_keys_exact:
  assumes "\<And>g. g \<in> set result \<Longrightarrow> key_cells (sg_key g) \<and> (\<exists>it \<in> set items. item_token ks it = token_of (sg_key g))"
    and "\<And>it. it \<in> set items \<Longrightarrow> \<exists>key. cells_at ks (fst it) = Inr key \<and> key_cells key \<and> token_of key \<in> (token_of \<circ> sg_key) ` set result"
  shows "{Inr (sg_key g) | g. g \<in> set result} = {cells_at ks (fst it) | it. it \<in> set items}" (is "?A = ?B")
proof (intro equalityI subsetI)
  fix x assume "x \<in> ?A"
  then obtain g where x: "x = Inr (sg_key g)" and g: "g \<in> set result" by blast
  with assms(1) obtain it where it: "it \<in> set items" "item_token ks it = token_of (sg_key g)" and gk: "key_cells (sg_key g)" by blast
  from assms(2) [OF it(1)] obtain key where key: "cells_at ks (fst it) = Inr key" "key_cells key" by blast
  with it(2) gk token_eq_iff [of key "sg_key g"] have "key = sg_key g" by (simp add: item_token_def)
  with key x have "x = cells_at ks (fst it)" by simp
  with it(1) show "x \<in> ?B" by blast
next
  fix x assume "x \<in> ?B"
  then obtain it where it: "x = cells_at ks (fst it)" "it \<in> set items" by blast
  from assms(2) [OF it(2)] obtain key g where key: "cells_at ks (fst it) = Inr key" "key_cells key"
    and g: "g \<in> set result" "token_of key = token_of (sg_key g)" by auto
  have "sg_key g = key" using token_eq_iff [of "sg_key g" key] g(2) key(2) assms(1) [OF g(1)] by simp
  with it(1) key(1) g(1) show "x \<in> ?A" by auto
qed

text \<open>The groups of an index that satisfies the invariant, listed in the order of their sizes.\<close>

lemma groups_listed:
  assumes inv: "groups_inv ks ms items (indexed, n)" and ts: "ts = sort_key (group_order indexed) (dkeys indexed)"
  defines "result \<equiv> map (\<lambda>k. the (dget indexed k)) ts"
  shows "distinct (map sg_key result)" "{Inr (sg_key g) | g. g \<in> set result} = {cells_at ks (fst it) | it. it \<in> set items}"
    "list_all (group_ok ks ms items) result" "sum_list (map sg_row_count result) = n"
    "sorted (map (\<lambda>g. (- int (sg_row_count g), token_of (sg_key g))) result)"
proof -
  have keys: "set ts = set (dkeys indexed)" "distinct ts" using inv by (simp_all add: ts groups_inv_def dict_ok_def)
  have get: "\<exists>g. dget indexed k = Some g \<and> token_of (sg_key g) = k \<and> key_cells (sg_key g) \<and> group_ok ks ms items g" if k: "k \<in> set ts" for k
  proof -
    obtain g where "dget indexed k = Some g" using k keys(1) dget_None_iff [of indexed k] by (cases "dget indexed k") auto
    with inv show ?thesis unfolding groups_inv_def fst_conv by blast
  qed
  have tokens: "map (\<lambda>g. token_of (sg_key g)) result = ts" unfolding result_def map_map by (rule map_idI) (use get in force)
  then have "distinct (map token_of (map sg_key result))" using keys(2) by (simp add: comp_def)
  then show "distinct (map sg_key result)" by (auto simp: distinct_map dest: inj_on_imageI2)
  have toks: "(token_of \<circ> sg_key) ` set result = set ts" by (subst tokens [symmetric]) (simp add: comp_def)
  show "{Inr (sg_key g) | g. g \<in> set result} = {cells_at ks (fst it) | it. it \<in> set items}"
  proof (rule group_keys_exact)
    fix g assume g: "g \<in> set result"
    then obtain k where k: "k \<in> set ts" "token_of (sg_key g) = k" "key_cells (sg_key g)" using get by (force simp: result_def)
    then show "key_cells (sg_key g) \<and> (\<exists>it \<in> set items. item_token ks it = token_of (sg_key g))"
      using inv keys(1) by (auto simp: groups_inv_def)
  next
    fix it assume it: "it \<in> set items"
    with inv obtain key where key: "cells_at ks (fst it) = Inr key" "key_cells key" unfolding groups_inv_def by blast
    have "item_token ks it \<in> set ts" using inv it keys(1) by (simp add: groups_inv_def)
    with key show "\<exists>key. cells_at ks (fst it) = Inr key \<and> key_cells key \<and> token_of key \<in> (token_of \<circ> sg_key) ` set result"
      unfolding toks by (simp add: item_token_def)
  qed
  show "list_all (group_ok ks ms items) result" using get by (force simp: result_def list_all_iff)
  show "sum_list (map sg_row_count result) = n"
    using dsum_row_counts [of indexed ts] keys inv by (simp add: result_def comp_def groups_inv_def)
  have "map (\<lambda>g. (- int (sg_row_count g), token_of (sg_key g))) result = map (group_order indexed) ts"
    unfolding result_def map_map by (rule map_cong [OF refl]) (use get in \<open>force simp: group_order_def\<close>)
  then show "sorted (map (\<lambda>g. (- int (sg_row_count g), token_of (sg_key g))) result)" by (simp add: ts)
qed

text \<open>C19: the groups of a summary partition the complete selection: there is one group per distinct array of
  typed values in the group_by columns, in descending order of size and then of the key; every row the
  scan delivers, at most 10000, is counted in exactly the group of its own values, with its locator, in
  order; the sizes add up to the reported number of rows; and the measures of a group hold exactly the
  values of its rows.\<close>

theorem groups_partition:
  assumes "groups en cn request sel locator = Inr (result, n)"
  shows "\<exists>items ks ms. scans en cn sel locator items \<and> n = length items \<and> n \<le> 10000 \<and>
    positions (sl_columns sel) (sq_group_by request) = Inr ks \<and> positions (sl_columns sel) (sq_measures request) = Inr ms \<and>
    distinct (map sg_key result) \<and> {Inr (sg_key g) | g. g \<in> set result} = {cells_at ks (fst it) | it. it \<in> set items} \<and>
    list_all (group_ok ks ms items) result \<and> sum_list (map sg_row_count result) = n \<and>
    sorted (map (\<lambda>g. (- int (sg_row_count g), token_of (sg_key g))) result)"
proof -
  from assms obtain ks ms indexed out where
    ks: "positions (sl_columns sel) (sq_group_by request) = Inr ks" and ms: "positions (sl_columns sel) (sq_measures request) = Inr ms"
    and scan: "scan en cn sel locator (group_step ks ms) ([], 0) = Inr (indexed, n)"
    and bound: "fold_res (bound_step (sq_measures request)) ([], 0)
         (List.map_filter (dget indexed) (sort_key (group_order indexed) (dkeys indexed))) = Inr (result, out)"
    unfolding groups_def rbind_eq_Inr split_paired_Ex prod.case sum.inject prod.inject by blast
  from scan obtain items where items: "scans en cn sel locator items" "length items \<le> MAX_ROWS"
    and run: "fold_res (group_body ks ms) ([], 0) items = Inr (indexed, n)"
    by (rule scan_Inr) (simp add: group_body_eq)
  have "list_all valid_item items" using scans_cells [OF items(1)] by (auto simp: list_all_iff valid_item_def)
  from groups_run_inv [OF run this] have inv: "groups_inv ks ms items (indexed, n)" .
  have "result = map (\<lambda>k. the (dget indexed k)) (sort_key (group_order indexed) (dkeys indexed))"
    using bound_run [OF bound] by (simp add: map_filter_dget)
  moreover have "n = length items" "n \<le> 10000" using inv items(2) by (simp_all add: groups_inv_def MAX_ROWS_def)
  ultimately show ?thesis using items(1) ks ms groups_listed [OF inv refl] by blast
qed

text \<open>A table of one row, whose only value is NULL, under any statement.\<close>

definition row_engine :: engine where
  "row_engine = sample_engine\<lparr>en_execute := \<lambda>_ _ _. Inr \<lparr>sr_description = None, sr_rows = ([[SInt 1, SNull]], None)\<rparr>\<rparr>"

definition plain_recipe :: selection where
  "plain_recipe = \<lparr>sl_table = u ''t'', sl_columns = [u ''a''], sl_where = [], sl_order_by = []\<rparr>"

lemma plain_query: "\<exists>query. scan_query plain_recipe [u ''_rowid_''] = Inr (query, [SInt (int MAX_ROWS + 1)])"
proof -
  have q: "quoted (JStr (u ''a'')) = Inr (quote (u ''a''))" "quoted (JStr (u ''t'')) = Inr (quote (u ''t''))"
    "quoted (JStr (u ''_rowid_'')) = Inr (quote (u ''_rowid_''))"
    by (simp_all add: quoted_def quote_def) (simp_all add: u_def)
  show ?thesis by (simp add: scan_query_def plain_recipe_def quoted_names_def q filter_predicates_def)
qed

lemma encoded_size_text: "text_scalar (compact v) \<Longrightarrow> encoded_size v = Inr (length (utf8_bytes (compact v)))"
  by (simp add: encoded_size_def utf8_encode_def text_scalar_def)

definition null_row :: row_cells where
  "null_row = \<lparr>rc_locator = [typed ''integer'' (JStr (u ''1''))], rc_values = [typed ''null'' JNull]\<rparr>"

lemma null_row_size: "\<exists>k \<le> 1000. encoded_size (row_json null_row) = Inr k"
  by (simp add: encoded_size_def null_row_def row_json_def typed_def utf8_encode_def)
     (simp add: u_def compact_style_def dump_string_def escape_char_def is_scalar_def utf8_bytes_def utf8_char_def)

lemma row_scan:
  assumes "body s null_row [SNull] = Inr s'"
  shows "scan row_engine sample_conn plain_recipe [u ''_rowid_''] body s = Inr s'"
proof -
  from plain_query obtain query where q: "scan_query plain_recipe [u ''_rowid_''] = Inr (query, [SInt (int MAX_ROWS + 1)])" ..
  from null_row_size obtain k where k: "k \<le> 1000" "encoded_size (row_json null_row) = Inr k" by blast
  have one: "str_int 1 = u ''1''" by (simp add: str_int_def u_def str_nat.simps [of "Suc 0"])
  have row: "\<lparr>rc_locator = [typed ''integer'' (JStr (u ''1''))], rc_values = [typed ''null'' JNull]\<rparr> = null_row" by (simp add: null_row_def)
  show ?thesis using k assms
    by (simp add: scan_def q row_engine_def for_rows_def scan_step_def MAX_ROWS_def MAX_SCAN_BYTES_def Let_def one row)
qed

theorem groups_partition_witness:
  "\<exists>result n. groups row_engine sample_conn \<lparr>sq_fields = [], sq_group_by = [u ''a''], sq_measures = []\<rparr> plain_recipe [u ''_rowid_''] = Inr (result, n) \<and>
     distinct (map sg_key result) \<and> sum_list (map sg_row_count result) = n \<and> n = 1"
proof -
  have ks: "positions (sl_columns plain_recipe) [u ''a''] = Inr [0]" "positions (sl_columns plain_recipe) [] = Inr []"
    by (simp_all add: positions_def plain_recipe_def)
  let ?g = "\<lparr>sg_key = [typed ''null'' JNull], sg_row_count = 1, sg_locators = [rc_locator null_row], sg_measures = []\<rparr>"
  have body: "group_step [0] [] ([], 0) null_row [SNull] = Inr ([(token_of [typed ''null'' JNull], ?g)], 1)"
    by (simp add: group_step_def cells_at_def item_at_def null_row_def Let_def add_row_def new_group_def)
  have size: "\<exists>k \<le> 1000. encoded_size (group_json [] ?g) = Inr k"
    by (simp add: encoded_size_def group_json_def null_row_def typed_def utf8_encode_def)
       (simp add: u_def compact_style_def dump_string_def escape_char_def is_scalar_def utf8_bytes_def utf8_char_def str_int_def str_nat.simps [of "Suc 0"])
  then obtain k where k: "k \<le> 1000" "encoded_size (group_json [] ?g) = Inr k" by blast
  have run: "groups row_engine sample_conn \<lparr>sq_fields = [], sq_group_by = [u ''a''], sq_measures = []\<rparr> plain_recipe [u ''_rowid_''] = Inr ([?g], 1)"
    using k by (simp add: groups_def ks row_scan [where body = "group_step [0] []", OF body] List.map_filter_simps bound_step_def MAX_OUTPUT_def)
  from groups_partition [OF this] run show ?thesis by auto
qed

subsection \<open>The rows of one group\<close>

definition member_fetch :: "nat list \<times> ustr \<times> item list \<Rightarrow> nat \<Rightarrow> nat \<Rightarrow> (row_cells list \<times> bool) res" where
  "member_fetch src offset limit =
     (case src of (ks, token, items) \<Rightarrow>
        rbind (fold_res (\<lambda>acc (row, vals). member_step ks token offset limit acc row vals) ([], 0, 0) items) (\<lambda>(rows, hits, scanned).
          Inr (rows, offset + length rows < hits)))"

definition member_content :: "nat list \<times> ustr \<times> item list \<Rightarrow> row_cells list" where
  "member_content src = (case src of (ks, token, items) \<Rightarrow> map fst (filter (\<lambda>it. item_token ks it = token) items))"

definition members_readable :: "nat list \<times> ustr \<times> item list \<Rightarrow> bool" where
  "members_readable src = (case src of (ks, token, items) \<Rightarrow> list_all (\<lambda>it. \<exists>key. cells_at ks (fst it) = Inr key) items)"

lemma member_run:
  assumes "list_all (\<lambda>it. \<exists>key. cells_at ks (fst it) = Inr key) items"
  shows "fold_res (\<lambda>acc (row, vals). member_step ks token offset limit acc row vals) ([], 0, 0) items =
    Inr (take limit (drop offset (member_content (ks, token, items))), length (member_content (ks, token, items)), length items)"
  using assms
proof (induction items rule: rev_induct)
  case Nil
  then show ?case by (simp add: member_content_def)
next
  case (snoc it items)
  obtain row vals where it: "it = (row, vals)" by (cases it)
  from snoc.prems obtain key where key: "cells_at ks row = Inr key" by (auto simp: it)
  let ?M = "member_content (ks, token, items)"
  have more: "member_content (ks, token, items @ [it]) = ?M @ (if token_of key = token then [row] else [])"
    by (simp add: member_content_def item_token_def it key)
  have slice: "take limit (drop offset (?M @ [row])) =
      (if offset \<le> length ?M \<and> length ?M < offset + limit then take limit (drop offset ?M) @ [row] else take limit (drop offset ?M))"
    by (auto simp: take_Cons' not_less)
  show ?case using snoc by (simp add: fold_res_append it member_step_def key more [unfolded it] slice del: take_append drop_append)
qed

interpretation member_pages: pager member_fetch member_content members_readable
proof unfold_locales
  fix src :: "nat list \<times> ustr \<times> item list" and offset limit
  obtain ks token items where src: "src = (ks, token, items)" by (cases src)
  assume "members_readable src"
  then have "list_all (\<lambda>it. \<exists>key. cells_at ks (fst it) = Inr key) items" by (simp add: members_readable_def src)
  from member_run [OF this, of token offset limit]
  show "member_fetch src offset limit = Inr (take limit (drop offset (member_content src)), offset + limit < length (member_content src))"
    by (auto simp: member_fetch_def src min_def)
qed



text \<open>C24: a group key whose typed cell lists its two members in the other order is accepted as canonical, since
  dictionaries compare without order, yet its token differs from the token of every array of cells a
  row can have: the command then reports no row, for a group that exists.\<close>

theorem group_key_order_lost:
  "let key = [JObj [(u ''value'', JStr (u ''x'')), (u ''type'', JStr (u ''text''))]] in
     group_key (utf8_bytes (compact (JArr key))) 1 = Inr key \<and> same_cell (typed ''text'' (JStr (u ''x''))) (hd key) \<and>
     (\<forall>vals cells. map_res cell vals = Inr cells \<longrightarrow> token_of cells \<noteq> token_of key)"
proof -
  let ?c = "JObj [(u ''value'', JStr (u ''x'')), (u ''type'', JStr (u ''text''))]"
  have d: "decode (utf8_bytes (compact (JArr [?c]))) = Inr (JArr [?c])"
    by (rule compact_bytes.roundtrip) (simp add: u_def is_scalar_def)
  have p: "parameter ?c = Inr (SText (u ''x''))" by (simp add: parameter_def jkeys_def jget_def insert_commute)
  have same: "same_cell (typed ''text'' (JStr (u ''x''))) ?c"
    by (simp add: same_cell_def typed_def jbody_def jkeys_def insert_commute)
  have "token_of cells \<noteq> token_of [?c]" if run: "map_res cell vals = Inr cells" for vals cells
  proof
    assume "token_of cells = token_of [?c]"
    moreover have "key_cells cells" using map_res_member [OF run] cell_jvalid by (auto simp: key_cells_def)
    moreover have "key_cells [?c]" by (simp add: key_cells_def)
    ultimately have cells: "cells = [?c]" using token_eq_iff by blast
    then have "?c \<in> set cells" by simp
    from map_res_member [OF run this] obtain v where "cell v = Inr ?c" by blast
    then show False by (cases v) (auto simp: typed_def res_simps)
  qed
  moreover have "group_key (utf8_bytes (compact (JArr [?c]))) 1 = Inr [?c]"
    using same unfolding group_key_def d by (simp add: p)
  ultimately show ?thesis using same by (simp add: Let_def)
qed

theorem group_key_order_lost_witness:
  "token_of [typed ''text'' (JStr (u ''x''))] \<noteq> token_of [JObj [(u ''value'', JStr (u ''x'')), (u ''type'', JStr (u ''text''))]]"
proof -
  have "map_res cell [SText (u ''x'')] = Inr [typed ''text'' (JStr (u ''x''))]" by simp
  with group_key_order_lost show ?thesis unfolding Let_def by blast
qed

end
