(* ===== verification/Crosstab.thy ===== *)
theory Crosstab
  imports Summary
begin

section \<open>Cross tables (tools/sqlite_crosstab.py)\<close>

text \<open>
  Two exact typed categories of every scanned row, the members of each intersection, and the
  matrix of counts. The lemmas show that the matrix counts every scanned row in exactly the
  intersection of its own two values.
\<close>

record crosstab_state =
  xs_row_keys :: "(ustr, json) dict"
  xs_column_keys :: "(ustr, json) dict"
  xs_members :: "(ustr \<times> ustr, row_cells list) dict"
  xs_total :: nat

definition crosstab_start :: crosstab_state where
  "crosstab_start = \<lparr>xs_row_keys = [], xs_column_keys = [], xs_members = [], xs_total = 0\<rparr>"

definition crosstab_step :: "nat \<Rightarrow> nat \<Rightarrow> crosstab_state \<Rightarrow> row_cells \<Rightarrow> sqlval list \<Rightarrow> crosstab_state res" where
  "crosstab_step row_pos col_pos st row vals =
     rbind (item_at (rc_values row) row_pos) (\<lambda>r.
     rbind (item_at (rc_values row) col_pos) (\<lambda>c.
     let rk = compact r; ck = compact c;
         row_keys = dput rk r (xs_row_keys st); column_keys = dput ck c (xs_column_keys st)
     in guard (length row_keys \<le> 64 \<and> length column_keys \<le> 64) (u ''crosstab supports at most 64 exact categories per axis'')
        (Inr \<lparr>xs_row_keys = row_keys, xs_column_keys = column_keys,
              xs_members = dappend (rk, ck) row (xs_members st), xs_total = xs_total st + 1\<rparr>)))"

text \<open>\<open>selection_recipe(compact(d).encode(), inventory(conn))\<close>\<close>

definition fresh_recipe :: "engine \<Rightarrow> conn \<Rightarrow> (ustr \<times> json) list \<Rightarrow> (selection \<times> ustr list \<times> ustr) res" where
  "fresh_recipe en cn d =
     rbind (utf8_encode (compact (JObj d))) (\<lambda>raw. rbind (inventory en cn) (\<lambda>tables. selection_recipe raw tables))"

definition request_where :: "(ustr \<times> json) list \<Rightarrow> json list \<Rightarrow> (ustr \<times> json) list" where
  "request_where d columns =
     [(u ''table'', jget d ''table'')] @ (if columns = [] then [] else [(u ''columns'', JArr columns)]) @
     [(u ''where'', jget_or d ''where'' (JArr []))]"

record crosstab_result =
  ct_request :: "(ustr \<times> json) list"
  ct_row_keys :: "json list"
  ct_column_keys :: "json list"
  ct_counts :: "nat list list"
  ct_total :: nat
  ct_columns :: "ustr list"
  ct_locator :: json
  ct_cells :: "(nat \<times> nat \<times> row_cells list) list"

definition crosstab_cells :: "crosstab_state \<Rightarrow> ustr list \<Rightarrow> ustr list \<Rightarrow> (nat \<times> nat \<times> row_cells list) list" where
  "crosstab_cells st rows columns =
     concat (map (\<lambda>(i, r). List.map_filter (\<lambda>(j, c). map_option (\<lambda>m. (i, j, m)) (dget (xs_members st) (r, c)))
       (enumerate 0 columns)) (enumerate 0 rows))"

definition crosstab_summary ::
  "(ustr \<times> json) list \<Rightarrow> ustr list \<Rightarrow> json \<Rightarrow> crosstab_state \<Rightarrow> crosstab_result" where
  "crosstab_summary d columns locator st =
     (let rk = sort (dkeys (xs_row_keys st)); ck = sort (dkeys (xs_column_keys st))
      in \<lparr>ct_request = d, ct_row_keys = List.map_filter (dget (xs_row_keys st)) rk,
           ct_column_keys = List.map_filter (dget (xs_column_keys st)) ck,
           ct_counts = map (\<lambda>r. map (\<lambda>c. length (dmembers (xs_members st) (r, c))) ck) rk,
           ct_total = xs_total st, ct_columns = columns, ct_locator = locator, ct_cells = crosstab_cells st rk ck\<rparr>)"

definition crosstab_fields :: string where
  "crosstab_fields = ''crosstab requires database_sha256, table, row_column, column_column and optional where''"

definition crosstab :: "engine \<Rightarrow> conn \<Rightarrow> bytes \<Rightarrow> ustr \<Rightarrow> crosstab_result res" where
  "crosstab en cn raw fingerprint =
     rbind (decode raw) (\<lambda>v.
     rbind (want_dict v (u crosstab_fields)) (\<lambda>d.
     guard (u ` {''database_sha256'', ''table'', ''row_column'', ''column_column''} \<subseteq> jkeys d \<and>
            jkeys d \<subseteq> u ` {''database_sha256'', ''table'', ''row_column'', ''column_column'', ''where''}) (u crosstab_fields)
     (guard (jget d ''database_sha256'' = JStr fingerprint) (u ''database fingerprint differs'')
     (rbind (or_raise (ValueError (u ''choose two distinct stored columns'')) (text_of (jget d ''row_column''))) (\<lambda>row_column.
      rbind (or_raise (ValueError (u ''choose two distinct stored columns'')) (text_of (jget d ''column_column''))) (\<lambda>column_column.
      guard (row_column \<noteq> column_column) (u ''choose two distinct stored columns'')
      (rbind (fresh_recipe en cn (request_where d [JStr row_column, JStr column_column])) (\<lambda>_.
       rbind (fresh_recipe en cn (request_where d [])) (\<lambda>(sel, locator, kind).
       rbind (index_of (sl_columns sel) row_column) (\<lambda>row_pos.
       rbind (index_of (sl_columns sel) column_column) (\<lambda>col_pos.
       rbind (scan en cn sel locator (crosstab_step row_pos col_pos) crosstab_start) (\<lambda>st.
         Inr (crosstab_summary d (sl_columns sel) (locator_json kind locator) st)))))))))))))"

text \<open>\<open>[sum(values[i] for values in counts) for i in range(len(columns))]\<close>\<close>

definition column_totals :: "nat list list \<Rightarrow> nat \<Rightarrow> nat list" where
  "column_totals counts width = map (\<lambda>i. sum_list (map (\<lambda>vals. vals ! i) counts)) [0..<width]"

definition nats_json :: "nat list \<Rightarrow> json" where
  "nats_json ns = JArr (map (\<lambda>n. JInt (int n)) ns)"

definition crosstab_members :: "crosstab_result \<Rightarrow> (ustr \<times> json) list" where
  "crosstab_members t =
     [(u ''selection'', JObj (ct_request t)), (u ''row_keys'', JArr (ct_row_keys t)), (u ''column_keys'', JArr (ct_column_keys t)),
      (u ''counts'', JArr (map nats_json (ct_counts t))), (u ''row_totals'', nats_json (map sum_list (ct_counts t))),
      (u ''column_totals'', nats_json (column_totals (ct_counts t) (length (ct_column_keys t)))),
      (u ''selected_row_count'', JInt (int (ct_total t))), (u ''columns'', JArr (map JStr (ct_columns t))),
      (u ''locator'', ct_locator t),
      (u ''cells'', JArr (map (\<lambda>(i, j, rows). JObj [(u ''row_index'', JInt (int i)), (u ''column_index'', JInt (int j)),
         (u ''rows'', JArr (map row_json rows))]) (ct_cells t))),
      (u ''complete_selection_scanned'', JBool True)]"

definition crosstab_matching :: ustr where
  "crosstab_matching = u ''Exact typed category values; NULL, text, BLOB, integer and real remain distinct. Axes ordered by compact typed JSON. All zero intersections included in counts.''"

definition crosstab_limits :: ustr where
  "crosstab_limits = u ''At most 64 categories per axis, 10000 rows and 16 MiB projection/output; exceeding a bound refuses the result.''"

definition crosstab_output :: "engine \<Rightarrow> bytes res \<Rightarrow> bytes \<Rightarrow> (ustr \<times> json) list \<Rightarrow> ((ustr \<times> json) list \<times> ustr) res" where
  "crosstab_output en selection_file data source =
     rbind (read_file selection_file MAX_SELECTION) (\<lambda>raw.
     rbind (database en data) (\<lambda>cn.
     rbind (crosstab en cn raw (sha data)) (\<lambda>result.
     let context =
       [(u ''schema'', JStr (u ''moonfort.sqlite-crosstab.v1'')), (u ''operation'', JStr (u ''crosstab'')),
        (u ''source'', JObj source), (u ''selection_sha256'', JStr (sha raw)),
        (u ''meaning'', JStr (u ''Read-only exploration of a retained copy, not execution or approval.'')),
        (u ''matching'', JStr crosstab_matching), (u ''limits'', JStr crosstab_limits)]
     in Inr (context, pretty (JObj (dmerge context (crosstab_members result)))))))"

subsection \<open>What the table counts\<close>

definition crosstab_body :: "nat \<Rightarrow> nat \<Rightarrow> crosstab_state \<Rightarrow> item \<Rightarrow> crosstab_state res" where
  "crosstab_body row_pos col_pos st it = crosstab_step row_pos col_pos st (fst it) (snd it)"

definition cell_token :: "nat \<Rightarrow> item \<Rightarrow> ustr" where
  "cell_token pos it = compact (rc_values (fst it) ! pos)"

definition category :: "nat \<Rightarrow> nat \<Rightarrow> item \<Rightarrow> ustr \<times> ustr" where
  "category row_pos col_pos it = (cell_token row_pos it, cell_token col_pos it)"

lemma crosstab_body_Inr:
  "crosstab_body row_pos col_pos st it = Inr st' \<longleftrightarrow>
     row_pos < length (rc_values (fst it)) \<and> col_pos < length (rc_values (fst it)) \<and>
     length (xs_row_keys st') \<le> 64 \<and> length (xs_column_keys st') \<le> 64 \<and>
     st' = \<lparr>xs_row_keys = dput (cell_token row_pos it) (rc_values (fst it) ! row_pos) (xs_row_keys st),
            xs_column_keys = dput (cell_token col_pos it) (rc_values (fst it) ! col_pos) (xs_column_keys st),
            xs_members = dappend (category row_pos col_pos it) (fst it) (xs_members st), xs_total = xs_total st + 1\<rparr>"
  by (auto simp: crosstab_body_def crosstab_step_def Let_def rbind_eq_Inr guard_eq_Inr item_at_Inr cell_token_def category_def)

interpretation crosstab_groups: collector "crosstab_body row_pos col_pos" "\<lambda>st. dmembers (xs_members st)" "category row_pos col_pos" fst
  for row_pos col_pos
  by unfold_locales (simp add: crosstab_body_Inr dmembers_dappend)

definition readable_item :: "nat \<Rightarrow> item \<Rightarrow> bool" where
  "readable_item pos it \<longleftrightarrow> pos < length (rc_values (fst it)) \<and> jvalid False (rc_values (fst it) ! pos)"

lemma valid_item_cells: "valid_item it \<Longrightarrow> p < length (rc_values (fst it)) \<Longrightarrow> jvalid False (rc_values (fst it) ! p)"
  unfolding valid_item_def by (drule map_res_member, erule nth_mem) (auto dest: cell_jvalid)

text \<open>One axis: its dictionary holds the value of every row seen under the token of that value.\<close>

definition axis_ok :: "nat \<Rightarrow> item list \<Rightarrow> (ustr, json) dict \<Rightarrow> bool" where
  "axis_ok pos seen d \<longleftrightarrow> dict_ok d \<and> set (dkeys d) = cell_token pos ` set seen \<and>
     (\<forall>k v. dget d k = Some v \<longrightarrow> compact v = k \<and> jvalid False v \<and> (\<exists>it \<in> set seen. rc_values (fst it) ! pos = v)) \<and>
     list_all (readable_item pos) seen"

lemma axis_ok_add:
  assumes "axis_ok pos seen d" "readable_item pos it"
  shows "axis_ok pos (seen @ [it]) (dput (cell_token pos it) (rc_values (fst it) ! pos) d)"
proof -
  let ?d = "dput (cell_token pos it) (rc_values (fst it) ! pos) d"
  have "compact v = k \<and> jvalid False v \<and> (\<exists>it' \<in> set (seen @ [it]). rc_values (fst it') ! pos = v)" if "dget ?d k = Some v" for k v
  proof (cases "k = cell_token pos it")
    case True
    with that assms(2) show ?thesis by (auto simp: dget_dput cell_token_def readable_item_def)
  next
    case False
    with that have "dget d k = Some v" by (simp add: dget_dput)
    with assms(1) show ?thesis unfolding axis_ok_def by auto
  qed
  moreover have "dict_ok ?d" "set (dkeys ?d) = cell_token pos ` set (seen @ [it])" "list_all (readable_item pos) (seen @ [it])"
    using assms by (auto simp: axis_ok_def dkeys_dput)
  ultimately show ?thesis unfolding axis_ok_def by blast
qed

definition crosstab_inv :: "nat \<Rightarrow> nat \<Rightarrow> item list \<Rightarrow> crosstab_state \<Rightarrow> bool" where
  "crosstab_inv row_pos col_pos seen st \<longleftrightarrow> xs_total st = length seen \<and>
     length (xs_row_keys st) \<le> 64 \<and> length (xs_column_keys st) \<le> 64 \<and>
     axis_ok row_pos seen (xs_row_keys st) \<and> axis_ok col_pos seen (xs_column_keys st)"

lemma crosstab_run_inv:
  assumes "fold_res (crosstab_body row_pos col_pos) crosstab_start items = Inr st" "list_all valid_item items"
  shows "crosstab_inv row_pos col_pos items st"
  using assms(1)
proof (rule fold_res_inv [where P = "crosstab_inv row_pos col_pos"])
  show "crosstab_inv row_pos col_pos [] crosstab_start"
    by (simp add: crosstab_inv_def crosstab_start_def axis_ok_def)
next
  fix seen st it st'
  assume inv: "crosstab_inv row_pos col_pos seen st" and it: "it \<in> set items" and step: "crosstab_body row_pos col_pos st it = Inr st'"
  from assms(2) it have "valid_item it" by (auto simp: list_all_iff)
  with step have "readable_item row_pos it" "readable_item col_pos it"
    by (simp_all add: crosstab_body_Inr readable_item_def valid_item_cells)
  with inv step show "crosstab_inv row_pos col_pos (seen @ [it]) st'"
    by (auto simp: crosstab_inv_def crosstab_body_Inr intro: axis_ok_add)
qed

text \<open>Counting the elements of a list by the class of each.\<close>

lemma sum_classes:
  assumes "distinct ks" "\<And>x. x \<in> set xs \<Longrightarrow> f x \<in> set ks"
  shows "sum_list (map (\<lambda>k. length (filter (\<lambda>x. f x = k) xs)) ks) = length xs"
  using assms(2)
proof (induction xs)
  case Nil
  then show ?case by simp
next
  case (Cons x xs)
  have split: "length (filter (\<lambda>x. f x = k) (x # xs)) = (if k = f x then 1 else 0) + length (filter (\<lambda>x. f x = k) xs)" for k by simp
  have one: "sum_list (map (\<lambda>k. if k = f x then 1 else 0) ks) = (1::nat)"
    using assms(1) Cons.prems [of x] by (simp add: sum_list_distinct_conv_sum_set)
  show ?case unfolding split sum_list_addf using one Cons by simp
qed

definition axis_keys :: "(ustr, json) dict \<Rightarrow> ustr list" where
  "axis_keys d = sort (dkeys d)"

lemma axis_values:
  assumes "axis_ok pos items d"
  shows "List.map_filter (dget d) (axis_keys d) = map (\<lambda>k. the (dget d k)) (axis_keys d)"
    "map compact (List.map_filter (dget d) (axis_keys d)) = axis_keys d" "distinct (axis_keys d)"
    "set (List.map_filter (dget d) (axis_keys d)) = (\<lambda>it. rc_values (fst it) ! pos) ` set items"
    "i < length (axis_keys d) \<Longrightarrow> it \<in> set items \<Longrightarrow>
      cell_token pos it = axis_keys d ! i \<longleftrightarrow> rc_values (fst it) ! pos = List.map_filter (dget d) (axis_keys d) ! i"
proof -
  have keys: "set (axis_keys d) = set (dkeys d)" by (simp add: axis_keys_def)
  show eq: "List.map_filter (dget d) (axis_keys d) = map (\<lambda>k. the (dget d k)) (axis_keys d)"
    by (rule map_filter_dget) (simp add: keys)
  have get: "\<exists>v. dget d k = Some v \<and> compact v = k \<and> jvalid False v \<and> (\<exists>it \<in> set items. rc_values (fst it) ! pos = v)"
    if k: "k \<in> set (axis_keys d)" for k
  proof -
    obtain v where "dget d k = Some v" using k keys dget_None_iff [of d k] by (cases "dget d k") auto
    with assms show ?thesis unfolding axis_ok_def by blast
  qed
  show toks: "map compact (List.map_filter (dget d) (axis_keys d)) = axis_keys d"
    unfolding eq map_map by (rule map_idI) (use get in \<open>auto dest!: get\<close>)
  show "distinct (axis_keys d)" using assms by (simp add: axis_keys_def axis_ok_def dict_ok_def)
  have tok: "cell_token pos it = k \<longleftrightarrow> rc_values (fst it) ! pos = the (dget d k)" if "k \<in> set (axis_keys d)" "it \<in> set items" for k it
  proof -
    from get [OF that(1)] obtain v where v: "dget d k = Some v" "compact v = k" "jvalid False v" by blast
    have "jvalid False (rc_values (fst it) ! pos)" using assms that(2) by (auto simp: axis_ok_def list_all_iff readable_item_def)
    from compact_text.enc_eq_iff [OF this v(3)] v show ?thesis by (simp add: cell_token_def)
  qed
  show "set (List.map_filter (dget d) (axis_keys d)) = (\<lambda>it. rc_values (fst it) ! pos) ` set items" (is "?A = ?B")
  proof (intro equalityI subsetI)
    fix v assume "v \<in> ?A"
    then obtain k where "k \<in> set (axis_keys d)" "v = the (dget d k)" unfolding eq by auto
    with get [of k] obtain it where "it \<in> set items" "rc_values (fst it) ! pos = v" by auto
    then show "v \<in> ?B" by blast
  next
    fix v assume "v \<in> ?B"
    then obtain it where it: "it \<in> set items" "v = rc_values (fst it) ! pos" by blast
    have k: "cell_token pos it \<in> set (axis_keys d)" using it(1) assms keys by (simp add: axis_ok_def)
    with tok [OF k it(1)] it(2) show "v \<in> ?A" unfolding eq by auto
  qed
  show "cell_token pos it = axis_keys d ! i \<longleftrightarrow> rc_values (fst it) ! pos = List.map_filter (dget d) (axis_keys d) ! i"
    if "i < length (axis_keys d)" "it \<in> set items" for i it
    using tok [of "axis_keys d ! i" it] that by (simp add: eq)
qed

subsection \<open>Properties\<close>

text \<open>The number of items of an intersection of two values.\<close>

definition intersection :: "nat \<Rightarrow> nat \<Rightarrow> item list \<Rightarrow> json \<Rightarrow> json \<Rightarrow> nat" where
  "intersection row_pos col_pos items r c =
     length (filter (\<lambda>it. rc_values (fst it) ! row_pos = r \<and> rc_values (fst it) ! col_pos = c) items)"

text \<open>The matrix of a state that the scan of some items left.\<close>

lemma matrix_exact:
  assumes run: "fold_res (crosstab_body row_pos col_pos) crosstab_start items = Inr st"
    and rows: "axis_ok row_pos items (xs_row_keys st)" and cols: "axis_ok col_pos items (xs_column_keys st)"
  defines "rk \<equiv> axis_keys (xs_row_keys st)" and "ck \<equiv> axis_keys (xs_column_keys st)"
  defines "counts \<equiv> map (\<lambda>r. map (\<lambda>c. length (dmembers (xs_members st) (r, c))) ck) rk"
  shows "counts = map (\<lambda>r. map (\<lambda>c. intersection row_pos col_pos items r c) (List.map_filter (dget (xs_column_keys st)) ck))
      (List.map_filter (dget (xs_row_keys st)) rk)"
    and "sum_list (map sum_list counts) = length items"
proof -
  note rv = axis_values [OF rows, folded rk_def] and cv = axis_values [OF cols, folded ck_def]
  have len: "length (List.map_filter (dget (xs_row_keys st)) rk) = length rk" "length (List.map_filter (dget (xs_column_keys st)) ck) = length ck"
    using rv(2) cv(2) by (metis length_map, metis length_map)
  have members: "length (dmembers (xs_members st) (r, c)) = length (filter (\<lambda>it. category row_pos col_pos it = (r, c)) items)" for r c
    using crosstab_groups.run_members [OF run, of "(r, c)"] by (simp add: crosstab_start_def eq_commute)
  have entry: "length (dmembers (xs_members st) (rk ! i, ck ! j)) =
      intersection row_pos col_pos items (List.map_filter (dget (xs_row_keys st)) rk ! i) (List.map_filter (dget (xs_column_keys st)) ck ! j)"
    if "i < length rk" "j < length ck" for i j
    unfolding members intersection_def using rv(5) [OF that(1)] cv(5) [OF that(2)]
    by (intro arg_cong [of _ _ length] filter_cong refl) (simp add: category_def)
  show "counts = map (\<lambda>r. map (\<lambda>c. intersection row_pos col_pos items r c) (List.map_filter (dget (xs_column_keys st)) ck))
      (List.map_filter (dget (xs_row_keys st)) rk)"
    unfolding counts_def by (intro nth_equalityI) (simp_all add: len entry)
  have "sum_list (map sum_list counts) = sum_list (map (\<lambda>r. sum_list (map (\<lambda>c.
      length (filter (\<lambda>it. cell_token col_pos it = c) (filter (\<lambda>it. cell_token row_pos it = r) items))) ck)) rk)"
    unfolding counts_def map_map comp_def members category_def by (simp add: conj_commute)
  also have "\<dots> = sum_list (map (\<lambda>r. length (filter (\<lambda>it. cell_token row_pos it = r) items)) rk)"
    using cols cv(3) by (intro arg_cong [of _ _ sum_list] map_cong refl sum_classes) (auto simp: axis_ok_def axis_keys_def ck_def)
  also have "\<dots> = length items"
    using rows rv(3) by (intro sum_classes) (auto simp: axis_ok_def axis_keys_def rk_def)
  finally show "sum_list (map sum_list counts) = length items" .
qed


text \<open>A table of two columns and one row of two NULLs, under any statement.\<close>

definition pair_column :: "string \<Rightarrow> column" where
  "pair_column name = \<lparr>co_name = u name, co_declared_type = [], co_not_null = False, co_primary_key_position = 0,
     co_generated = False, co_generated_kind = u ''stored-column'', co_default_sql = None\<rparr>"

definition pair_table :: schema_object where
  "pair_table = \<lparr>so_name = u ''t'', so_kind = u ''table'', so_row_selection_supported = True, so_without_rowid = False,
     so_strict = False, so_columns = [pair_column ''a'', pair_column ''b''], so_foreign_keys = [], so_incoming = []\<rparr>"

definition pair_xinfo :: "string \<Rightarrow> xinfo_row" where
  "pair_xinfo name = \<lparr>xr_name = u name, xr_declared = [], xr_notnull = 0, xr_default = None, xr_pk = 0, xr_hidden = 0\<rparr>"

definition pair_engine :: engine where
  "pair_engine = sample_engine\<lparr>en_table_xinfo := \<lambda>_ _. ([pair_xinfo ''a'', pair_xinfo ''b''], None),
     en_foreign_key_list := \<lambda>_ _. ([], None),
     en_execute := \<lambda>_ _ _. Inr \<lparr>sr_description = None, sr_rows = ([[SInt 1, SNull, SNull]], None)\<rparr>\<rparr>"

lemma pair_inventory_of:
  assumes "en_table_list en = en_table_list sample_engine" "en_table_xinfo en = en_table_xinfo pair_engine"
    "en_foreign_key_list en = en_foreign_key_list pair_engine"
  shows "inventory en cn = Inr [pair_table]"
proof -
  have q: "quoted (JStr (u ''t'')) = Inr (quote (u ''t''))" by (simp add: quoted_def quote_def) (simp add: u_def)
  have other: "\<not> starts_with (u ''t'') (u ''sqlite_'')" by (simp add: u_def)
  show ?thesis
    by (simp add: assms inventory_def pair_engine_def sample_engine_def for_rows_def table_step_def q other foreign_keys_def fk_step_def
        xinfo_step_def pair_xinfo_def incoming_def pair_table_def pair_column_def generated_kind_def List.map_filter_simps Let_def)
qed

lemma pair_inventory: "inventory pair_engine cn = Inr [pair_table]"
  by (rule pair_inventory_of) (simp_all add: pair_engine_def)

lemma fresh_recipe_doc:
  assumes "jvalid False (JObj d)" "jscalar (JObj d)" "inventory en cn = Inr tables"
  shows "fresh_recipe en cn d = select_value (JObj d) tables"
proof -
  have "text_scalar (compact (JObj d))" by (rule dumps_scalar [OF _ assms(1,2)]) simp
  then have "utf8_encode (compact (JObj d)) = Inr (utf8_bytes (compact (JObj d)))" by (simp add: utf8_encode_def text_scalar_def)
  moreover have "decode (utf8_bytes (compact (JObj d))) = Inr (JObj d)" using assms(1,2) by (intro compact_bytes.roundtrip) simp
  ultimately show ?thesis using assms(3) by (simp add: fresh_recipe_def selection_recipe_def del: dumps.simps)
qed

definition pair_recipe :: "string list \<Rightarrow> selection" where
  "pair_recipe names = \<lparr>sl_table = u ''t'', sl_columns = map u names, sl_where = [], sl_order_by = []\<rparr>"

lemma pair_available: "available pair_table = [u ''a'', u ''b'']"
  by (simp add: available_def stored_columns_def pair_table_def pair_column_def)

lemma pair_select:
  assumes "d = [(u ''table'', JStr (u ''t'')), (u ''where'', JArr [])] \<and> names = [''a'', ''b''] \<or>
     d = [(u ''table'', JStr (u ''t'')), (u ''columns'', JArr (map (JStr \<circ> u) names)), (u ''where'', JArr [])] \<and>
        names \<in> {[''a''], [''a'', ''b'']}"
  shows "select_value (JObj d) [pair_table] = Inr (pair_recipe names, [u ''_rowid_''], u ''rowid'')"
proof -
  have cols: "column_names (JArr [JStr (u ''a''), JStr (u ''b'')]) [u ''a'', u ''b''] = Some [u ''a'', u ''b'']"
      "column_names (JArr [JStr (u ''a'')]) [u ''a'', u ''b''] = Some [u ''a'']"
    by (simp_all add: column_names_def List.map_filter_simps)
  have loc: "row_locator pair_table = Inr ([u ''_rowid_''], u ''rowid'')"
    by (simp add: row_locator_def pair_table_def pair_column_def) (simp add: u_def folded_def fold_char_def)
  have table: "find_table [pair_table] (u ''t'') = Some pair_table" "so_row_selection_supported pair_table" "so_name pair_table = u ''t''"
    by (simp_all add: find_table_def pair_table_def)
  show ?thesis using assms
    by (auto simp: select_value_def jkeys_def jget_def jget_or_def pair_available cols loc table filter_predicates_def pair_recipe_def)
qed

definition crosstab_request :: "(ustr \<times> json) list" where
  "crosstab_request = [(u ''database_sha256'', JStr (u ''f'')), (u ''table'', JStr (u ''t'')),
     (u ''row_column'', JStr (u ''a'')), (u ''column_column'', JStr (u ''b''))]"

definition pair_row :: row_cells where
  "pair_row = \<lparr>rc_locator = [typed ''integer'' (JStr (u ''1''))], rc_values = [typed ''null'' JNull, typed ''null'' JNull]\<rparr>"

lemma pair_scan:
  assumes "body s pair_row [SNull, SNull] = Inr s'"
  shows "scan pair_engine cn (pair_recipe [''a'', ''b'']) [u ''_rowid_''] body s = Inr s'"
proof -
  have q: "quoted (JStr (u ''a'')) = Inr (quote (u ''a''))" "quoted (JStr (u ''b'')) = Inr (quote (u ''b''))"
    "quoted (JStr (u ''t'')) = Inr (quote (u ''t''))" "quoted (JStr (u ''_rowid_'')) = Inr (quote (u ''_rowid_''))"
    by (simp_all add: quoted_def quote_def) (simp_all add: u_def)
  have "\<exists>query. scan_query (pair_recipe [''a'', ''b'']) [u ''_rowid_''] = Inr (query, [SInt (int MAX_ROWS + 1)])"
    by (simp add: scan_query_def pair_recipe_def quoted_names_def q filter_predicates_def)
  then obtain query where query: "scan_query (pair_recipe [''a'', ''b'']) [u ''_rowid_''] = Inr (query, [SInt (int MAX_ROWS + 1)])" ..
  have one: "str_int 1 = u ''1''" by (simp add: str_int_def u_def str_nat.simps [of "Suc 0"])
  have "\<exists>k \<le> 1000. encoded_size (row_json pair_row) = Inr k"
    by (simp add: encoded_size_def pair_row_def row_json_def typed_def utf8_encode_def)
       (simp add: u_def compact_style_def dump_string_def escape_char_def is_scalar_def utf8_bytes_def utf8_char_def)
  then obtain k where k: "k \<le> 1000" "encoded_size (row_json pair_row) = Inr k" by blast
  show ?thesis using k assms
    by (simp add: scan_def query pair_engine_def for_rows_def scan_step_def MAX_ROWS_def MAX_SCAN_BYTES_def Let_def one pair_row_def)
qed


end
