(* ===== verification/Compare.thy ===== *)
theory Compare
  imports Crosstab
begin

section \<open>Comparing two tables (tools/sqlite_compare.py)\<close>

text \<open>
  Each side is indexed completely by its typed key; the two indexes are then compared key by key.
  The lemmas show that an index holds every row of its side under its own key, and that the
  comparison classifies every key of either side exactly once.
\<close>

subsection \<open>The request\<close>

definition comparison_fields :: string where
  "comparison_fields = ''comparison requires before_database_sha256, after_database_sha256, table, key_columns and optional columns''"

definition key_names :: "json \<Rightarrow> ustr list res" where
  "key_names v =
     (let bad = Inl (ValueError (u ''key_columns requires 1..8 distinct stored column names'')) in
      case v of
        JArr xs \<Rightarrow> (let names = List.map_filter text_of xs in
          if 1 \<le> length xs \<and> length xs \<le> 8 \<and> length names = length xs \<and> distinct names then Inr names else bad)
      | _ \<Rightarrow> bad)"

definition comparison_recipe :: "bytes \<Rightarrow> ((ustr \<times> json) list \<times> ustr list) res" where
  "comparison_recipe raw =
     rbind (decode raw) (\<lambda>v.
     rbind (want_dict v (u comparison_fields)) (\<lambda>d.
     guard (u ` {''before_database_sha256'', ''after_database_sha256'', ''table'', ''key_columns''} \<subseteq> jkeys d \<and>
            jkeys d \<subseteq> u ` {''before_database_sha256'', ''after_database_sha256'', ''table'', ''key_columns'', ''columns''}) (u comparison_fields)
     (rbind (key_names (jget d ''key_columns'')) (\<lambda>keys. Inr (d, keys)))))"

subsection \<open>One side\<close>

record side_result =
  sd_source :: "(ustr \<times> json) list"
  sd_selection :: selection
  sd_locator :: json
  sd_rows :: "(ustr, row_cells) dict"

definition side_step ::
  "ustr \<Rightarrow> nat \<Rightarrow> nat list \<Rightarrow> nat \<times> nat \<times> (ustr, row_cells) dict \<Rightarrow> sqlval list \<Rightarrow> (nat \<times> nat \<times> (ustr, row_cells) dict) res" where
  "side_step side n ks acc vals =
     (case acc of (count, scanned_bytes, indexed) \<Rightarrow>
        guard (count + 1 \<le> MAX_ROWS) (side @ u '' selection exceeds 10000 rows; no partial comparison produced'')
        (rbind (row_cell n vals) (\<lambda>row.
         rbind (cells_at ks row) (\<lambda>key.
         guard (list_all (\<lambda>c. type_name c \<noteq> u ''null'') key) (side @ u '' key contains NULL at locator '' @ compact (JArr (rc_locator row)))
         (let token = token_of key in
          guard (\<not> dhas indexed token) (side @ u '' duplicate typed key at locators '' @
              (case dget indexed token of None \<Rightarrow> compact (JArr []) | Some r \<Rightarrow> compact (JArr (rc_locator r))) @
              u '' and '' @ compact (JArr (rc_locator row)))
          (rbind (encoded_size (row_json row)) (\<lambda>row_size.
           rbind (utf8_encode token) (\<lambda>token_bytes.
           guard (scanned_bytes + (row_size + length token_bytes) \<le> MAX_SCAN_BYTES) (side @ u '' comparison projection exceeds 16 MiB scan bound'')
             (Inr (count + 1, scanned_bytes + (row_size + length token_bytes), dput token row indexed))))))))))"

definition side_query :: "selection \<Rightarrow> ustr list \<Rightarrow> ustr res" where
  "side_query sel locator =
     rbind (quoted_names (locator @ sl_columns sel)) (\<lambda>names.
     rbind (quoted (JStr (sl_table sel))) (\<lambda>t.
     rbind (quoted_names locator) (\<lambda>ties.
       Inr (u ''SELECT '' @ join (u '', '') names @ u '' FROM main.'' @ t @ u '' ORDER BY '' @
            join (u '', '') (map (\<lambda>q. q @ u '' COLLATE BINARY ASC'') ties) @ u '' LIMIT ?''))))"

definition side_scan ::
  "engine \<Rightarrow> bytes \<Rightarrow> (ustr \<times> json) list \<Rightarrow> (ustr \<times> json) list \<Rightarrow> ustr list \<Rightarrow> string \<Rightarrow> side_result res" where
  "side_scan en data source d keys side =
     guard (jget d (side @ ''_database_sha256'') = JStr (sha data)) (u (side @ '' database fingerprint does not match retained artifact''))
     (rbind (database en data) (\<lambda>cn.
      rbind (fresh_recipe en cn ((u ''table'', jget d ''table'') # copy_fields [''columns''] d)) (\<lambda>(sel, locator, kind).
      guard (set keys \<subseteq> set (sl_columns sel)) (u ''key columns must be included in the compared columns'')
      (rbind (positions (sl_columns sel) keys) (\<lambda>ks.
       rbind (side_query sel locator) (\<lambda>query.
       rbind (en_execute en cn query [SInt (int MAX_ROWS + 1)]) (\<lambda>r.
       rbind (for_rows (side_step (u side) (length locator) ks) (0, 0, []) (sr_rows r)) (\<lambda>(count, scanned, indexed).
         Inr \<lparr>sd_source = source, sd_selection = sel, sd_locator = locator_json kind locator, sd_rows = indexed\<rparr>))))))))"

subsection \<open>The comparison\<close>

datatype change = Added | Removed | Changed | Unchanged

definition change_name :: "change \<Rightarrow> ustr" where
  "change_name c = (case c of Added \<Rightarrow> u ''added'' | Removed \<Rightarrow> u ''removed'' | Changed \<Rightarrow> u ''changed'' | Unchanged \<Rightarrow> u ''unchanged'')"

record change_entry =
  ce_change :: change
  ce_key :: json
  ce_columns :: "ustr list"
  ce_before :: "row_cells option"
  ce_after :: "row_cells option"

definition change_of :: "row_cells option \<Rightarrow> row_cells option \<Rightarrow> change" where
  "change_of left right =
     (case (left, right) of
        (Some l, Some r) \<Rightarrow> if rc_values l = rc_values r then Unchanged else Changed
      | (None, _) \<Rightarrow> Added
      | (_, None) \<Rightarrow> Removed)"

definition differing :: "ustr list \<Rightarrow> row_cells option \<Rightarrow> row_cells option \<Rightarrow> ustr list" where
  "differing columns left right =
     (case (left, right) of
        (Some l, Some r) \<Rightarrow> map fst (filter (\<lambda>(name, old, new). old \<noteq> new) (zip columns (zip (rc_values l) (rc_values r))))
      | _ \<Rightarrow> columns)"

definition row_field :: "string \<Rightarrow> row_cells option \<Rightarrow> (ustr \<times> json) list" where
  "row_field k row = (case row of None \<Rightarrow> [] | Some r \<Rightarrow> [(u k, row_json r)])"

definition entry_json :: "change_entry \<Rightarrow> json" where
  "entry_json e = JObj
     ([(u ''change'', JStr (change_name (ce_change e))), (u ''key'', ce_key e), (u ''changed_columns'', JArr (map JStr (ce_columns e)))] @
      row_field ''before'' (ce_before e) @ row_field ''after'' (ce_after e))"

definition change_step ::
  "ustr list \<Rightarrow> (ustr, row_cells) dict \<Rightarrow> (ustr, row_cells) dict \<Rightarrow>
   change_entry list \<times> (ustr, nat) dict \<times> nat \<Rightarrow> ustr \<Rightarrow> (change_entry list \<times> (ustr, nat) dict \<times> nat) res" where
  "change_step columns before after acc token =
     (case acc of (changes, counts, output_bytes) \<Rightarrow>
      let left = dget before token; right = dget after token; change = change_of left right
      in if change = Unchanged then Inr (changes, bump (u ''unchanged'') counts, output_bytes)
         else
           rbind (loads False token) (\<lambda>key.
           let entry = \<lparr>ce_change = change, ce_key = key, ce_columns = differing columns left right, ce_before = left, ce_after = right\<rparr>
           in rbind (encoded_size (entry_json entry)) (\<lambda>size.
              guard (output_bytes + size \<le> MAX_OUTPUT) (u ''comparison exceeds 16 MiB output bound'')
              (Inr (changes @ [entry], bump (change_name change) counts, output_bytes + size)))))"

definition start_counts :: "nat \<Rightarrow> nat \<Rightarrow> (ustr, nat) dict" where
  "start_counts b a = [(u ''before_rows'', b), (u ''after_rows'', a), (u ''added'', 0), (u ''removed'', 0), (u ''changed'', 0), (u ''unchanged'', 0)]"

definition compare_sides ::
  "ustr list \<Rightarrow> (ustr, row_cells) dict \<Rightarrow> (ustr, row_cells) dict \<Rightarrow> (change_entry list \<times> (ustr, nat) dict) res" where
  "compare_sides columns before after =
     rbind (fold_res (change_step columns before after) ([], start_counts (length before) (length after), 0)
         (sorted_union (dkeys before) (dkeys after))) (\<lambda>(changes, counts, _). Inr (changes, counts))"

subsection \<open>The command\<close>

definition option_text :: "json option \<Rightarrow> ustr" where
  "option_text v = compact (case v of None \<Rightarrow> JNull | Some j \<Rightarrow> j)"

definition changes_csv :: "change_entry list \<Rightarrow> ustr" where
  "changes_csv changes =
     csv_text (map u [''change'', ''key_json'', ''changed_columns_json'', ''before_locator_json'', ''after_locator_json'', ''before_values_json'', ''after_values_json''] #
       map (\<lambda>e. [change_name (ce_change e), compact (ce_key e), compact (JArr (map JStr (ce_columns e))),
         option_text (map_option (JArr \<circ> rc_locator) (ce_before e)), option_text (map_option (JArr \<circ> rc_locator) (ce_after e)),
         option_text (map_option (JArr \<circ> rc_values) (ce_before e)), option_text (map_option (JArr \<circ> rc_values) (ce_after e))]) changes)"

definition side_json :: "side_result \<Rightarrow> json" where
  "side_json s = JObj
     [(u ''source'', JObj (sd_source s)), (u ''selection'', selection_json (sd_selection s)), (u ''locator'', sd_locator s),
      (u ''row_count'', JInt (int (length (sd_rows s))))]"

record compare_args =
  cm_selection :: "bytes res"
  cm_after_bundle :: "bytes res"
  cm_database :: ustr
  cm_after_database :: "ustr option"
  cm_csv :: bool

definition after_database :: "compare_args \<Rightarrow> ustr" where
  "after_database args = (case cm_after_database args of None \<Rightarrow> cm_database args | Some p \<Rightarrow> if p = [] then cm_database args else p)"

definition compare_ordering :: ustr where
  "compare_ordering = u ''Lexical order of compact JSON typed key arrays, not numeric or database collation order.''"

definition compare_matching :: ustr where
  "compare_matching = u ''Exact storage class and typed serialized value; no affinity, collation, tolerance or inferred key mapping. Row locators are for drillback only.''"

definition compare_meaning :: ustr where
  "compare_meaning = u ''Complete bounded comparison of selected stored values in two supplied copies; not schema equivalence, authenticity, causal regression, execution, acceptance or promotion.''"

definition comparison_output ::
  "engine \<Rightarrow> (bytes \<Rightarrow> zmember list res) \<Rightarrow> compare_args \<Rightarrow> bytes \<Rightarrow> (ustr \<times> json) list \<Rightarrow> ((ustr \<times> json) list \<times> ustr) res" where
  "comparison_output en zip_open args before_data before_source =
     rbind (read_file (cm_selection args) MAX_SELECTION) (\<lambda>raw.
     rbind (comparison_recipe raw) (\<lambda>(d, keys).
     rbind (read_bundle zip_open (cm_after_bundle args) (after_database args) (u ''SQLite database'')) (\<lambda>(after_data, after_source).
     rbind (side_scan en before_data before_source d keys ''before'') (\<lambda>before.
     rbind (side_scan en after_data after_source d keys ''after'') (\<lambda>after.
     let columns = sl_columns (sd_selection before) in
     guard (columns = sl_columns (sd_selection after))
       (u ''stored columns differ; inspect schemas and choose an explicit shared columns projection'')
     (rbind (compare_sides columns (sd_rows before) (sd_rows after)) (\<lambda>(changes, counts).
      let context =
        [(u ''schema'', JStr (u ''moonfort.sqlite-comparison.v1'')), (u ''operation'', JStr (u ''compare'')),
         (u ''sqlite_version'', JStr (en_version en)), (u ''before'', side_json before), (u ''after'', side_json after),
         (u ''comparison_selection'', JObj d), (u ''selection_sha256'', JStr (sha raw)),
         (u ''selection_size_bytes'', JInt (int (length raw))), (u ''key_columns'', jget d ''key_columns''),
         (u ''columns'', JArr (map JStr columns)), (u ''counts'', counts_json counts), (u ''complete'', JBool True),
         (u ''ordering'', JStr compare_ordering), (u ''matching'', JStr compare_matching), (u ''meaning'', JStr compare_meaning)]
      in Inr (context, if cm_csv args then changes_csv changes
           else pretty (JObj (dmerge context [(u ''changes'', JArr (map entry_json changes))]))))))))))"

subsection \<open>What a side holds\<close>

definition side_item :: "nat \<Rightarrow> sqlval list \<Rightarrow> row_cells \<Rightarrow> item" where
  "side_item n vals row = (row, drop n vals)"

definition side_inv :: "nat list \<Rightarrow> row_cells list \<Rightarrow> nat \<times> nat \<times> (ustr, row_cells) dict \<Rightarrow> bool" where
  "side_inv ks rows acc \<longleftrightarrow> (case acc of (count, scanned, indexed) \<Rightarrow>
     count = length rows \<and> (count = 0 \<or> count \<le> MAX_ROWS) \<and>
     (\<exists>keys. map_res (cells_at ks) rows = Inr keys \<and> indexed = zip (map token_of keys) rows \<and> distinct (map token_of keys) \<and>
        (\<forall>key \<in> set keys. list_all (\<lambda>c. type_name c \<noteq> u ''null'') key)))"

lemma map_res_snoc: "map_res f xs = Inr ys \<Longrightarrow> f x = Inr y \<Longrightarrow> map_res f (xs @ [x]) = Inr (ys @ [y])"
  by (auto simp: map_res_eq_Inr intro: list_all2_appendI)

lemma side_step_inv:
  assumes inv: "side_inv ks rows acc" and step: "side_step side n ks acc vals = Inr acc'"
  shows "\<exists>row. row_cell n vals = Inr row \<and> side_inv ks (rows @ [row]) acc'"
proof -
  obtain count scanned indexed where acc: "acc = (count, scanned, indexed)" by (cases acc)
  from step obtain row :: row_cells and key :: "json list" and size :: nat and tb :: bytes where c: "count + 1 \<le> MAX_ROWS" and row: "row_cell n vals = Inr row"
    and key: "cells_at ks row = Inr key" "list_all (\<lambda>c. type_name c \<noteq> u ''null'') key" "\<not> dhas indexed (token_of key)"
    and acc_eq: "(count + 1, scanned + (size + length tb), dput (token_of key) row indexed) = acc'"
    unfolding acc side_step_def prod.case Let_def rbind_eq_Inr guard_eq_Inr sum.inject by blast
  note acc' = acc_eq [symmetric]
  from inv obtain keys where keys: "map_res (cells_at ks) rows = Inr keys" "indexed = zip (map token_of keys) rows"
      "distinct (map token_of keys)" "\<forall>key \<in> set keys. list_all (\<lambda>c. type_name c \<noteq> u ''null'') key" and count: "count = length rows"
    by (auto simp: side_inv_def acc)
  have len: "length keys = length rows" using map_res_length [OF keys(1)] .
  then have dk: "dkeys indexed = map token_of keys" by (simp add: keys(2) dkeys_def)
  have fresh: "token_of key \<notin> set (map token_of keys)" using key(3) by (simp add: dhas_def dk)
  have "dput (token_of key) row indexed = zip (map token_of (keys @ [key])) (rows @ [row])"
    using dput_fresh [of indexed "token_of key" row, unfolded dhas_def dk, OF fresh] len by (simp add: keys(2))
  moreover have "map_res (cells_at ks) (rows @ [row]) = Inr (keys @ [key])" by (rule map_res_snoc [OF keys(1) key(1)])
  moreover have "distinct (map token_of (keys @ [key]))" using keys(3) fresh by simp
  moreover have "\<forall>k \<in> set (keys @ [key]). list_all (\<lambda>c. type_name c \<noteq> u ''null'') k" using keys(4) key(2) by simp
  ultimately have "side_inv ks (rows @ [row]) acc'" unfolding side_inv_def acc' prod.case using c count by (intro conjI) (simp, simp, blast)
  with row show ?thesis by blast
qed

lemma side_run:
  assumes "fold_res (side_step side n ks) acc valss = Inr acc'" "side_inv ks rows acc"
  shows "\<exists>rows'. map_res (row_cell n) valss = Inr rows' \<and> side_inv ks (rows @ rows') acc'"
  using assms
proof (induction valss arbitrary: acc rows)
  case Nil
  then show ?case by simp
next
  case (Cons vals valss)
  then obtain mid where step: "side_step side n ks acc vals = Inr mid" and rest: "fold_res (side_step side n ks) mid valss = Inr acc'"
    by (auto simp: rbind_eq_Inr)
  from side_step_inv [OF Cons.prems(2) step] obtain row where row: "row_cell n vals = Inr row" "side_inv ks (rows @ [row]) mid" by blast
  from Cons.IH [OF rest row(2)] obtain rows' where "map_res (row_cell n) valss = Inr rows'" "side_inv ks ((rows @ [row]) @ rows') acc'" by blast
  with row(1) show ?case by (intro exI [of _ "row # rows'"]) simp
qed

subsection \<open>What the comparison reports\<close>

definition all_keys :: "(ustr, row_cells) dict \<Rightarrow> (ustr, row_cells) dict \<Rightarrow> ustr list" where
  "all_keys before after = sorted_union (dkeys before) (dkeys after)"

definition key_changes :: "(ustr, row_cells) dict \<Rightarrow> (ustr, row_cells) dict \<Rightarrow> (ustr \<times> change) list" where
  "key_changes before after = map (\<lambda>k. (k, change_of (dget before k) (dget after k))) (all_keys before after)"

interpretation key_changes: sided_diff key_changes change_of
  by unfold_locales (simp add: key_changes_def all_keys_def)

definition entry_of :: "ustr list \<Rightarrow> (ustr, row_cells) dict \<Rightarrow> (ustr, row_cells) dict \<Rightarrow> ustr \<Rightarrow> change_entry res" where
  "entry_of columns before after token =
     rbind (loads False token) (\<lambda>key. Inr \<lparr>ce_change = change_of (dget before token) (dget after token), ce_key = key,
       ce_columns = differing columns (dget before token) (dget after token), ce_before = dget before token, ce_after = dget after token\<rparr>)"

lemma compare_run:
  assumes "fold_res (change_step columns before after) (changes, counts, out) ts = Inr (changes', counts', out')"
  shows "\<exists>entries. map_res (entry_of columns before after) (filter (\<lambda>k. change_of (dget before k) (dget after k) \<noteq> Unchanged) ts) = Inr entries \<and>
    changes' = changes @ entries \<and>
    counts' = foldl (\<lambda>d k. bump (change_name (change_of (dget before k) (dget after k))) d) counts ts"
  using assms
proof (induction ts arbitrary: changes counts out)
  case Nil
  then show ?case by simp
next
  case (Cons t ts)
  then obtain mid where step: "change_step columns before after (changes, counts, out) t = Inr mid"
    and rest: "fold_res (change_step columns before after) mid ts = Inr (changes', counts', out')"
    by (auto simp: rbind_eq_Inr)
  show ?case
  proof (cases "change_of (dget before t) (dget after t) = Unchanged")
    case True
    with step have mid: "mid = (changes, bump (u ''unchanged'') counts, out)" by (simp add: change_step_def Let_def)
    from Cons.IH [OF rest [unfolded mid]] True show ?thesis by (simp add: change_name_def)
  next
    case False
    with step obtain entry out1 where entry: "entry_of columns before after t = Inr entry"
      and mid: "mid = (changes @ [entry], bump (change_name (change_of (dget before t) (dget after t))) counts, out1)"
      by (auto simp: change_step_def Let_def rbind_eq_Inr guard_eq_Inr entry_of_def)
    from Cons.IH [OF rest [unfolded mid]] entry False show ?thesis by auto
  qed
qed

lemma change_name_inj [simp]: "change_name a = change_name b \<longleftrightarrow> a = b"
  by (cases a; cases b) (auto simp: change_name_def)

lemma bump_run:
  "dget (foldl (\<lambda>d k. bump (f k) d) d ks) c =
     (if \<exists>k \<in> set ks. f k = c then Some ((case dget d c of None \<Rightarrow> 0 | Some n \<Rightarrow> n) + length (filter (\<lambda>k. f k = c) ks)) else dget d c)"
  by (induction ks arbitrary: d) (auto simp: bump_def dget_dput filter_empty_conv split: option.splits)

lemma start_counts_get: "dget (start_counts b a) (change_name c) = Some 0"
  by (cases c) (auto simp: start_counts_def change_name_def)

subsection \<open>Properties\<close>


text \<open>C29: the index that \<open>scan\<close> builds of one side is that side exactly: the database carries the requested
  fingerprint, the statement reads every selected row ordered by the row locator, at most 10000 rows come
  back and the cursor does not fail; the index holds each of them in that order under the compact form of
  its own typed key, the keys are distinct, and no key has a NULL component.\<close>

theorem side_index_exact:
  assumes "side_scan en data source d keys side = Inr s"
  shows "jget d (side @ ''_database_sha256'') = JStr (sha data) \<and>
    (\<exists>cn locator query r rows ks row_keys. side_query (sd_selection s) locator = Inr query \<and>
       en_execute en cn query [SInt 10001] = Inr r \<and> snd (sr_rows r) = None \<and>
       map_res (row_cell (length locator)) (fst (sr_rows r)) = Inr rows \<and> length rows \<le> 10000 \<and>
       positions (sl_columns (sd_selection s)) keys = Inr ks \<and> map_res (cells_at ks) rows = Inr row_keys \<and>
       sd_rows s = zip (map token_of row_keys) rows \<and> distinct row_keys \<and>
       list_all (list_all (\<lambda>c. type_name c \<noteq> u ''null'')) row_keys)"
proof -
  from assms obtain cn sel locator kind ks query and r :: statement_result and count scanned indexed where
    sha: "jget d (side @ ''_database_sha256'') = JStr (sha data)"
    and ks: "positions (sl_columns sel) keys = Inr ks" and query: "side_query sel locator = Inr query"
    and r: "en_execute en cn query [SInt (int MAX_ROWS + 1)] = Inr r"
    and run: "for_rows (side_step (u side) (length locator) ks) (0, 0, []) (sr_rows r) = Inr (count, scanned, indexed)"
    and s: "\<lparr>sd_source = source, sd_selection = sel, sd_locator = locator_json kind locator, sd_rows = indexed\<rparr> = s"
    unfolding side_scan_def rbind_eq_Inr guard_eq_Inr split_paired_Ex prod.case sum.inject by blast
  from run have steps: "fold_res (side_step (u side) (length locator) ks) (0, 0, []) (fst (sr_rows r)) = Inr (count, scanned, indexed)"
    and whole: "snd (sr_rows r) = None" by (simp_all add: for_rows_Inr)
  have "side_inv ks [] (0, 0, [])" by (simp add: side_inv_def)
  from side_run [OF steps this] obtain rows where rows: "map_res (row_cell (length locator)) (fst (sr_rows r)) = Inr rows"
    and inv: "side_inv ks rows (count, scanned, indexed)" by auto
  from inv obtain row_keys where "map_res (cells_at ks) rows = Inr row_keys" "indexed = zip (map token_of row_keys) rows"
      "distinct (map token_of row_keys)" "\<forall>key \<in> set row_keys. list_all (\<lambda>c. type_name c \<noteq> u ''null'') key" "length rows \<le> 10000"
    by (auto simp: side_inv_def MAX_ROWS_def)
  moreover have "en_execute en cn query [SInt 10001] = Inr r" using r by (simp add: MAX_ROWS_def)
  moreover have "sd_selection s = sel" "sd_rows s = indexed" by (simp_all add: s [symmetric])
  ultimately show ?thesis using sha whole rows query ks
    by (simp add: distinct_map list_all_iff) blast
qed

text \<open>A copy whose table holds the one row \<open>7\<close>, NULL.\<close>

definition keyed_file :: bytes where
  "keyed_file = sqlite_magic @ [16, 0, 1, 1] @ replicate 80 0"

definition keyed_engine :: engine where
  "keyed_engine = pair_engine\<lparr>en_supported := True, en_open := \<lambda>_. Inr (),
     en_execute := \<lambda>_ _ _. Inr \<lparr>sr_description = None, sr_rows = ([[SInt 1, SInt 7, SNull]], None)\<rparr>\<rparr>"

definition keyed_request :: "(ustr \<times> json) list" where
  "keyed_request = [(u ''before_database_sha256'', JStr (sha keyed_file)), (u ''after_database_sha256'', JStr (sha keyed_file)),
     (u ''table'', JStr (u ''t'')), (u ''key_columns'', JArr [JStr (u ''a'')])]"

definition keyed_key :: "json list" where
  "keyed_key = [typed ''integer'' (JStr (u ''7''))]"

definition keyed_row :: row_cells where
  "keyed_row = \<lparr>rc_locator = [typed ''integer'' (JStr (u ''1''))], rc_values = keyed_key @ [typed ''null'' JNull]\<rparr>"

lemma keyed_size: "\<exists>k \<le> 1000. encoded_size (row_json keyed_row) = Inr k"
  by (simp add: encoded_size_def keyed_row_def keyed_key_def row_json_def typed_def utf8_encode_def)
     (simp add: u_def compact_style_def dump_string_def escape_char_def is_scalar_def utf8_bytes_def utf8_char_def)

lemma keyed_token: "\<exists>tb. utf8_encode (token_of keyed_key) = Inr tb \<and> length tb \<le> 1000"
  by (simp add: keyed_key_def token_of_def typed_def utf8_encode_def)
     (simp add: u_def compact_style_def dump_string_def escape_char_def is_scalar_def utf8_bytes_def utf8_char_def)

lemma keyed_step: "\<exists>n. side_step side 1 [0] (0, 0, []) [SInt 1, SInt 7, SNull] = Inr (1, n, [(token_of keyed_key, keyed_row)])"
proof -
  obtain k where k: "k \<le> 1000" "encoded_size (row_json keyed_row) = Inr k" using keyed_size by blast
  obtain tb where tb: "utf8_encode (token_of keyed_key) = Inr tb" "length tb \<le> 1000" using keyed_token by blast
  have int: "str_int 1 = u ''1''" "str_int 7 = u ''7''" by (simp_all add: str_int_def u_def str_nat.simps [of "Suc 0"] str_nat.simps [of 7])
  have row: "row_cell 1 [SInt 1, SInt 7, SNull] = Inr keyed_row" by (simp add: row_cell_def keyed_row_def keyed_key_def int)
  have key: "cells_at [0] keyed_row = Inr keyed_key" by (simp add: cells_at_def item_at_def keyed_row_def keyed_key_def)
  have full: "list_all (\<lambda>c. type_name c \<noteq> u ''null'') keyed_key" by (simp add: keyed_key_def type_name_def typed_def jbody_def)
  show ?thesis using k tb by (simp add: side_step_def row [simplified] key full MAX_ROWS_def MAX_SCAN_BYTES_def Let_def dhas_def dkeys_def)
qed

lemma pair_default: "select_value (JObj [(u ''table'', JStr (u ''t''))]) [pair_table] = Inr (pair_recipe [''a'', ''b''], [u ''_rowid_''], u ''rowid'')"
  using pair_select [of "[(u ''table'', JStr (u ''t'')), (u ''where'', JArr [])]" "[''a'', ''b'']"]
  by (simp add: select_value_def jkeys_def jget_def jget_or_def)

lemma keyed_scan:
  "\<exists>s. side_scan keyed_engine keyed_file [] keyed_request [u ''a''] ''before'' = Inr s \<and> sd_rows s = [(token_of keyed_key, keyed_row)]"
proof -
  obtain cn where cn: "database keyed_engine keyed_file = Inr cn"
    by (simp add: database_def keyed_engine_def keyed_file_def MAX_REPORT_def sqlite_magic_def bs_def)
  have inv: "inventory keyed_engine cn = Inr [pair_table]"
    by (rule pair_inventory_of) (simp_all add: keyed_engine_def pair_engine_def sample_engine_def)
  have recipe: "fresh_recipe keyed_engine cn [(u ''table'', JStr (u ''t''))] = Inr (pair_recipe [''a'', ''b''], [u ''_rowid_''], u ''rowid'')"
    by (subst fresh_recipe_doc [OF _ _ inv]) (simp, simp add: u_def is_scalar_def, rule pair_default)
  have q: "quoted (JStr (u ''a'')) = Inr (quote (u ''a''))" "quoted (JStr (u ''b'')) = Inr (quote (u ''b''))"
    "quoted (JStr (u ''t'')) = Inr (quote (u ''t''))" "quoted (JStr (u ''_rowid_'')) = Inr (quote (u ''_rowid_''))"
    by (simp_all add: quoted_def quote_def) (simp_all add: u_def)
  have "\<exists>query. side_query (pair_recipe [''a'', ''b'']) [u ''_rowid_''] = Inr query"
    by (simp add: side_query_def pair_recipe_def quoted_names_def q)
  then obtain query where query: "side_query (pair_recipe [''a'', ''b'']) [u ''_rowid_''] = Inr query" ..
  obtain n where "side_step (u ''before'') 1 [0] (0, 0, []) [SInt 1, SInt 7, SNull] = Inr (1, n, [(token_of keyed_key, keyed_row)])"
    using keyed_step by blast
  then show ?thesis
    by (simp add: side_scan_def cn recipe query keyed_request_def jget_def copy_fields_def)
       (simp add: keyed_engine_def for_rows_def pair_recipe_def positions_def)
qed

theorem side_index_exact_witness:
  "\<exists>s rows row_keys. side_scan keyed_engine keyed_file [] keyed_request [u ''a''] ''before'' = Inr s \<and>
     sd_rows s = zip (map token_of row_keys) rows \<and> distinct row_keys \<and> length (sd_rows s) = 1"
proof -
  obtain s where s: "side_scan keyed_engine keyed_file [] keyed_request [u ''a''] ''before'' = Inr s"
    "sd_rows s = [(token_of keyed_key, keyed_row)]" using keyed_scan by blast
  from side_index_exact [OF s(1)] s show ?thesis by auto
qed


end
