(* ===== verification/SchemaCompare.thy ===== *)
theory SchemaCompare
  imports Compare
begin

section \<open>Comparing two schemas (tools/sqlite_schema_compare.py)\<close>

text \<open>
  The inventories of two copies are compared object by object on five fields, and a selected object is
  shown with its column changes and the row commands that reach it on either side. \<open>runtime\<close> is the text
  Python gives its own exceptions; it is shown as the reason of a missing navigation and nothing depends
  on it. The lemmas characterise the comparison of the objects and of the columns, and show that the
  selection a navigation offers is one the row command takes as it is.
\<close>

subsection \<open>Objects\<close>

text \<open>The five compared fields, \<open>FIELDS\<close>.\<close>

definition schema_fields :: "(ustr \<times> (schema_object \<Rightarrow> schema_object \<Rightarrow> bool)) list" where
  "schema_fields =
     [(u ''kind'', \<lambda>l r. so_kind l = so_kind r), (u ''without_rowid'', \<lambda>l r. so_without_rowid l = so_without_rowid r),
      (u ''strict'', \<lambda>l r. so_strict l = so_strict r), (u ''columns'', \<lambda>l r. so_columns l = so_columns r),
      (u ''foreign_keys'', \<lambda>l r. so_foreign_keys l = so_foreign_keys r)]"

definition changed_fields :: "schema_object option \<Rightarrow> schema_object option \<Rightarrow> ustr list" where
  "changed_fields left right =
     (case (left, right) of
        (Some l, Some r) \<Rightarrow> map fst (filter (\<lambda>(name, same). \<not> same l r) schema_fields)
      | _ \<Rightarrow> map fst schema_fields)"

definition object_change :: "schema_object option \<Rightarrow> schema_object option \<Rightarrow> change" where
  "object_change left right =
     (if left = None then Added else if right = None then Removed
      else if changed_fields left right \<noteq> [] then Changed else Unchanged)"

record schema_entry =
  se_name :: ustr
  se_change :: change
  se_fields :: "ustr list"
  se_before_kind :: "ustr option"
  se_after_kind :: "ustr option"

definition keyed :: "('a \<Rightarrow> ustr) \<Rightarrow> 'a list \<Rightarrow> (ustr, 'a) dict" where
  "keyed key xs = foldl (\<lambda>d x. dput (key x) x d) [] xs"

definition schema_step ::
  "(ustr, schema_object) dict \<Rightarrow> (ustr, schema_object) dict \<Rightarrow> schema_entry list \<times> (ustr, nat) dict \<Rightarrow> ustr \<Rightarrow>
   schema_entry list \<times> (ustr, nat) dict" where
  "schema_step before after acc name =
     (case acc of (entries, counts) \<Rightarrow>
      let left = dget before name; right = dget after name; status = object_change left right
      in (entries @ [\<lparr>se_name = name, se_change = status, se_fields = changed_fields left right,
            se_before_kind = map_option so_kind left, se_after_kind = map_option so_kind right\<rparr>],
          bump (change_name status) counts))"

definition no_counts :: "(ustr, nat) dict" where
  "no_counts = map (\<lambda>c. (change_name c, 0)) [Added, Removed, Changed, Unchanged]"

definition compare_schemas ::
  "(ustr, schema_object) dict \<Rightarrow> (ustr, schema_object) dict \<Rightarrow> schema_entry list \<times> (ustr, nat) dict" where
  "compare_schemas before after = foldl (schema_step before after) ([], no_counts) (sorted_union (dkeys before) (dkeys after))"

definition entry_members :: "schema_entry \<Rightarrow> (ustr \<times> json) list" where
  "entry_members e =
     [(u ''name'', JStr (se_name e)), (u ''change'', JStr (change_name (se_change e))),
      (u ''changed_fields'', JArr (map JStr (se_fields e))), (u ''before_kind'', text_json (se_before_kind e)),
      (u ''after_kind'', text_json (se_after_kind e))]"

subsection \<open>Columns\<close>

type_synonym placed = "nat \<times> column"

definition placed_columns :: "column list \<Rightarrow> (ustr, placed) dict" where
  "placed_columns cs = keyed (\<lambda>p. co_name (snd p)) (List.enumerate 0 cs)"

record column_change =
  cc_name :: ustr
  cc_change :: change
  cc_before :: "placed option"
  cc_after :: "placed option"

definition column_status :: "placed option \<Rightarrow> placed option \<Rightarrow> change" where
  "column_status old new = (if old = new then Unchanged else if old = None then Added else if new = None then Removed else Changed)"

definition column_changes :: "column list \<Rightarrow> column list \<Rightarrow> column_change list" where
  "column_changes before after =
     (let left = placed_columns before; right = placed_columns after
      in concat (map (\<lambda>name.
           let old = dget left name; new = dget right name
           in if old = new then []
              else [\<lparr>cc_name = name, cc_change = column_status old new, cc_before = old, cc_after = new\<rparr>])
         (sorted_union (dkeys left) (dkeys right))))"

definition placed_field :: "string \<Rightarrow> placed option \<Rightarrow> (ustr \<times> json) list" where
  "placed_field side p =
     (case p of None \<Rightarrow> []
      | Some (position, c) \<Rightarrow> [(u side, JObj [(u ''position'', JInt (int position)), (u ''column'', column_json c)])])"

definition column_change_json :: "column_change \<Rightarrow> json" where
  "column_change_json c = JObj
     ([(u ''name'', JStr (cc_name c)), (u ''change'', JStr (change_name (cc_change c)))] @
      placed_field ''before'' (cc_before c) @ placed_field ''after'' (cc_after c))"

subsection \<open>Navigation\<close>

datatype navigation = Unavailable ustr | Available selection "ustr list" ustr

definition error_text :: "(pyerr \<Rightarrow> ustr) \<Rightarrow> pyerr \<Rightarrow> ustr" where
  "error_text runtime e = (case e of ValueError m \<Rightarrow> m | _ \<Rightarrow> runtime e)"

definition navigation :: "(pyerr \<Rightarrow> ustr) \<Rightarrow> schema_object option \<Rightarrow> schema_object list \<Rightarrow> navigation res" where
  "navigation runtime table tables =
     (case table of
        None \<Rightarrow> Inr (Unavailable (u ''object absent on this side''))
      | Some t \<Rightarrow>
          (case rbind (utf8_encode (dumps ascii_style (JObj [(u ''table'', JStr (so_name t))]))) (\<lambda>raw.
                rbind (selection_recipe raw tables) (\<lambda>(sel, locator, kind).
                rbind (encoded_size (selection_json sel)) (\<lambda>size.
                guard (size \<le> MAX_SELECTION)
                  (u ''default row selection exceeds 64 KiB; choose a smaller stored-column projection manually'')
                  (Inr (Available sel locator kind))))) of
             Inr nav \<Rightarrow> Inr nav
           | Inl e \<Rightarrow> if is_value_error e then Inr (Unavailable (error_text runtime e)) else Inl e))"

definition member :: "json \<Rightarrow> string \<Rightarrow> json" where
  "member v k = (case v of JObj d \<Rightarrow> jget d k | _ \<Rightarrow> JNull)"

definition navigation_argv :: "json \<Rightarrow> json" where
  "navigation_argv source_file = JArr
     [JStr (u ''--database''), member source_file ''relative_path'', JStr (u ''rows''),
      JStr (u ''--selection''), JStr (u ''<saved-selection.json>''),
      JStr (u ''--expected-database-sha256''), member source_file ''fingerprint'',
      JStr (u ''--offset''), JStr (u ''0''), JStr (u ''--limit''), JStr (u ''100'')]"

definition navigation_instruction :: ustr where
  "navigation_instruction = u ''Save selection as compact UTF-8 JSON and replace the placeholder with its path. Supply this side's retained ZIP before these arguments. Use next_offset to continue; locators apply only to this database.''"

definition nav_json :: "(ustr \<times> json) list \<Rightarrow> navigation \<Rightarrow> json" where
  "nav_json source nav =
     (case nav of
        Unavailable reason \<Rightarrow> JObj [(u ''available'', JBool False), (u ''reason'', JStr reason)]
      | Available sel locator kind \<Rightarrow> JObj
          [(u ''available'', JBool True), (u ''selection'', selection_json sel), (u ''locator'', locator_json kind locator),
           (u ''database_sha256'', member (jget source ''source_file'') ''fingerprint''), (u ''bundle_sha256'', jget source ''bundle_sha256''),
           (u ''argv_after_bundle'', navigation_argv (jget source ''source_file'')), (u ''instruction'', JStr navigation_instruction)])"

subsection \<open>The command\<close>

definition snapshot :: "engine \<Rightarrow> bytes \<Rightarrow> json \<Rightarrow> string \<Rightarrow> schema_object list res" where
  "snapshot en data expected side =
     guard (expected = JStr (sha data)) (u (side @ '' database fingerprint does not match retained artifact''))
     (rbind (database en data) (\<lambda>cn. inventory en cn))"

definition schema_request_fields :: string where
  "schema_request_fields = ''schema comparison requires before_database_sha256, after_database_sha256 and optional table''"

definition schema_request :: "bytes \<Rightarrow> ((ustr \<times> json) list \<times> ustr option) res" where
  "schema_request raw =
     rbind (decode raw) (\<lambda>v.
     rbind (want_dict v (u schema_request_fields)) (\<lambda>d.
     guard (u ` {''before_database_sha256'', ''after_database_sha256''} \<subseteq> jkeys d \<and>
            jkeys d \<subseteq> u ` {''before_database_sha256'', ''after_database_sha256'', ''table''}) (u schema_request_fields)
     (if u ''table'' \<in> jkeys d
      then (case jget d ''table'' of JStr name \<Rightarrow> Inr (d, Some name) | _ \<Rightarrow> Inl (ValueError (u ''table must be an exact object name'')))
      else Inr (d, None))))"

definition status_of :: "schema_entry list \<Rightarrow> ustr \<Rightarrow> change res" where
  "status_of entries name = (case List.find (\<lambda>e. se_name e = name) entries of Some e \<Rightarrow> Inr (se_change e) | None \<Rightarrow> Inl StopIteration)"

definition columns_of :: "schema_object option \<Rightarrow> column list" where
  "columns_of t = (case t of None \<Rightarrow> [] | Some t \<Rightarrow> so_columns t)"

definition selected_object ::
  "(pyerr \<Rightarrow> ustr) \<Rightarrow> (ustr \<times> json) list \<Rightarrow> (ustr \<times> json) list \<Rightarrow> schema_object list \<Rightarrow> schema_object list \<Rightarrow> schema_entry list \<Rightarrow>
   ustr \<Rightarrow> json res" where
  "selected_object runtime before_source after_source before_tables after_tables entries name =
     (let before = keyed so_name before_tables; after = keyed so_name after_tables; left = dget before name; right = dget after name in
      guard (dhas before name \<or> dhas after name) (u ''selected table is absent from both retained inventories'')
      (rbind (status_of entries name) (\<lambda>status.
       rbind (navigation runtime left before_tables) (\<lambda>before_nav.
       rbind (navigation runtime right after_tables) (\<lambda>after_nav.
       Inr (JObj
         [(u ''name'', JStr name), (u ''change'', JStr (change_name status)),
          (u ''before'', (case left of None \<Rightarrow> JNull | Some t \<Rightarrow> object_json t)),
          (u ''after'', (case right of None \<Rightarrow> JNull | Some t \<Rightarrow> object_json t)),
          (u ''column_changes'', JArr (map column_change_json (column_changes (columns_of left) (columns_of right)))),
          (u ''row_navigation'', JObj [(u ''before'', nav_json before_source before_nav), (u ''after'', nav_json after_source after_nav)])]))))))"

definition schema_matching :: ustr where
  "schema_matching = u ''Exact case-sensitive object and column names, ordered columns and foreign-key declarations including local IDs; no rename inference or SQL semantic equivalence.''"

definition schema_limits :: "ustr list" where
  "schema_limits = map u
     [''Ordinary table column defaults are unevaluated SQL text; generated kind is reported, expression text is not compared.'',
      ''Indexes, triggers, CHECK expressions, collations, CREATE SQL and view/virtual/shadow definitions are not compared. Unchanged means only equal listed metadata.'',
      ''Incoming foreign keys are shown for navigation context, not compared as changes to the parent table. Declarations do not certify integrity.'',
      ''No rows are compared by this command. Row navigation is paged and does not match records across revisions.'']"

definition schema_meaning :: ustr where
  "schema_meaning = u ''Read-only metadata inspection of supplied retained copies; not authenticity, live state, execution, acceptance, promotion or schema equivalence.''"

definition schema_comparison_output ::
  "engine \<Rightarrow> (pyerr \<Rightarrow> ustr) \<Rightarrow> (bytes \<Rightarrow> zmember list res) \<Rightarrow> compare_args \<Rightarrow> bytes \<Rightarrow> (ustr \<times> json) list \<Rightarrow> ((ustr \<times> json) list \<times> ustr) res" where
  "schema_comparison_output en runtime zip_open args before_data before_source =
     rbind (read_file (cm_selection args) MAX_SELECTION) (\<lambda>raw.
     rbind (schema_request raw) (\<lambda>(d, table).
     rbind (read_bundle zip_open (cm_after_bundle args) (after_database args) (u ''SQLite database'')) (\<lambda>(after_data, after_source).
     rbind (snapshot en before_data (jget d ''before_database_sha256'') ''before'') (\<lambda>before_tables.
     rbind (snapshot en after_data (jget d ''after_database_sha256'') ''after'') (\<lambda>after_tables.
     let before = keyed so_name before_tables; after = keyed so_name after_tables;
         (entries, counts) = compare_schemas before after;
         context =
           [(u ''schema'', JStr (u ''moonfort.sqlite-schema-comparison.v1'')), (u ''operation'', JStr (u ''compare-schema'')),
            (u ''sqlite_version'', JStr (en_version en)),
            (u ''before'', JObj [(u ''source'', JObj before_source), (u ''object_count'', JInt (int (length before)))]),
            (u ''after'', JObj [(u ''source'', JObj after_source), (u ''object_count'', JInt (int (length after)))]),
            (u ''comparison_selection'', JObj d), (u ''selection_sha256'', JStr (sha raw)), (u ''selection_size_bytes'', JInt (int (length raw))),
            (u ''counts'', counts_json counts), (u ''complete_metadata_inventory'', JBool True),
            (u ''compared_fields'', JArr (map (JStr \<circ> fst) schema_fields)), (u ''matching'', JStr schema_matching),
            (u ''limits'', JArr (map JStr schema_limits)), (u ''meaning'', JStr schema_meaning)];
         result = dmerge context [(u ''objects'', JArr (map (JObj \<circ> entry_members) entries))]
     in rbind (case table of
            None \<Rightarrow> Inr result
          | Some name \<Rightarrow> rbind (selected_object runtime before_source after_source before_tables after_tables entries name) (\<lambda>chosen.
              Inr (dput (u ''selected'') chosen result))) (\<lambda>result.
        Inr (context, pretty (JObj result))))))))"

subsection \<open>Dictionaries by name\<close>

lemma keyed_distinct: "distinct (map key xs) \<Longrightarrow> keyed key xs = map (\<lambda>x. (key x, x)) xs"
  using foldl_dput_distinct [of "map (\<lambda>x. (key x, x)) xs" "[]"] by (simp add: keyed_def foldl_map comp_def)

lemma dget_keyed: "distinct (map key xs) \<Longrightarrow> dget (keyed key xs) k = Some x \<longleftrightarrow> x \<in> set xs \<and> key x = k"
  by (subst map_of_eq_Some_iff) (auto simp: keyed_distinct comp_def)

subsection \<open>The comparison of the objects\<close>

definition object_changes :: "(ustr, schema_object) dict \<Rightarrow> (ustr, schema_object) dict \<Rightarrow> (ustr \<times> change) list" where
  "object_changes before after = map (\<lambda>k. (k, object_change (dget before k) (dget after k))) (sorted_union (dkeys before) (dkeys after))"

interpretation object_changes: sided_diff object_changes object_change
  by unfold_locales (simp add: object_changes_def)

definition schema_entry_of :: "(ustr, schema_object) dict \<Rightarrow> (ustr, schema_object) dict \<Rightarrow> ustr \<Rightarrow> schema_entry" where
  "schema_entry_of before after name =
     \<lparr>se_name = name, se_change = object_change (dget before name) (dget after name),
      se_fields = changed_fields (dget before name) (dget after name),
      se_before_kind = map_option so_kind (dget before name), se_after_kind = map_option so_kind (dget after name)\<rparr>"

lemma schema_run:
  "foldl (schema_step before after) (entries, counts) names =
     (entries @ map (schema_entry_of before after) names,
      foldl (\<lambda>d k. bump (change_name (object_change (dget before k) (dget after k))) d) counts names)"
  by (induction names arbitrary: entries counts) (simp_all add: schema_step_def schema_entry_of_def Let_def)

definition same_object :: "schema_object \<Rightarrow> schema_object \<Rightarrow> bool" where
  "same_object l r \<longleftrightarrow> so_kind l = so_kind r \<and> so_without_rowid l = so_without_rowid r \<and> so_strict l = so_strict r \<and>
     so_columns l = so_columns r \<and> so_foreign_keys l = so_foreign_keys r"

lemma changed_fields_Nil: "changed_fields (Some l) (Some r) = [] \<longleftrightarrow> same_object l r"
  by (auto simp: changed_fields_def schema_fields_def same_object_def)

lemma object_change_cases:
  "object_change left right = Added \<longleftrightarrow> left = None"
  "object_change left right = Removed \<longleftrightarrow> left \<noteq> None \<and> right = None"
  "object_change left right = Unchanged \<longleftrightarrow> (\<exists>l r. left = Some l \<and> right = Some r \<and> same_object l r)"
  by (auto simp: object_change_def changed_fields_Nil)

lemma no_counts_get: "dget no_counts (change_name c) = Some 0"
  by (cases c) (simp_all add: no_counts_def)

text \<open>C31: the schema comparison names every object of either copy exactly once, in order; an object is unchanged
  exactly when both copies hold it with the same kind, WITHOUT ROWID and STRICT flags, columns and foreign
  keys, added or removed exactly when one copy lacks it; and the four counts are the numbers of objects in
  each class.\<close>

theorem schema_comparison_exact:
  "case compare_schemas before after of (entries, counts) \<Rightarrow>
     distinct (map se_name entries) \<and> sorted (map se_name entries) \<and>
     se_name ` set entries = set (dkeys before) \<union> set (dkeys after) \<and>
     list_all (\<lambda>e. (se_change e = Added \<longleftrightarrow> dget before (se_name e) = None) \<and>
        (se_change e = Removed \<longleftrightarrow> dget before (se_name e) \<noteq> None \<and> dget after (se_name e) = None) \<and>
        (se_change e = Unchanged \<longleftrightarrow>
           (\<exists>l r. dget before (se_name e) = Some l \<and> dget after (se_name e) = Some r \<and> same_object l r))) entries \<and>
     list_all (\<lambda>c. dget counts (change_name c) = Some (length (filter (\<lambda>e. se_change e = c) entries))) [Added, Removed, Changed, Unchanged]"
proof -
  let ?names = "sorted_union (dkeys before) (dkeys after)" and ?f = "\<lambda>k. object_change (dget before k) (dget after k)"
  let ?entries = "map (schema_entry_of before after) ?names"
  let ?counts = "foldl (\<lambda>d k. bump (change_name (?f k)) d) no_counts ?names"
  have run: "compare_schemas before after = (?entries, ?counts)" by (simp add: compare_schemas_def schema_run)
  have names: "map se_name ?entries = map fst (object_changes before after)"
    unfolding object_changes.diff_keys map_map by (rule map_idI) (simp add: schema_entry_of_def)
  have set: "se_name ` set ?entries = set (dkeys before) \<union> set (dkeys after)"
    by (simp only: set_map [symmetric] names) (simp add: object_changes.diff_keys)
  have classes: "list_all (\<lambda>e. (se_change e = Added \<longleftrightarrow> dget before (se_name e) = None) \<and>
        (se_change e = Removed \<longleftrightarrow> dget before (se_name e) \<noteq> None \<and> dget after (se_name e) = None) \<and>
        (se_change e = Unchanged \<longleftrightarrow>
           (\<exists>l r. dget before (se_name e) = Some l \<and> dget after (se_name e) = Some r \<and> same_object l r))) ?entries"
    by (simp add: list_all_iff schema_entry_of_def object_change_cases)
  have count: "dget ?counts (change_name c) = Some (length (filter (\<lambda>e. se_change e = c) ?entries))" for c
    unfolding bump_run by (auto simp: no_counts_get filter_empty_conv filter_map comp_def schema_entry_of_def)
  show ?thesis
    unfolding run prod.case names using object_changes.diff_distinct object_changes.diff_sorted set classes count by simp
qed

subsection \<open>The changes of the columns\<close>

lemma dget_placed:
  assumes "distinct (map co_name cs)"
  shows "dget (placed_columns cs) n = Some (i, c) \<longleftrightarrow> i < length cs \<and> cs ! i = c \<and> co_name c = n"
proof -
  have "map (\<lambda>p. co_name (snd p)) (List.enumerate 0 cs) = map co_name (map snd (List.enumerate 0 cs))" by (simp only: map_map comp_def)
  also have "\<dots> = map co_name cs" by (simp only: map_snd_enumerate)
  finally have "distinct (map (\<lambda>p. co_name (snd p)) (List.enumerate 0 cs))" using assms by simp
  from dget_keyed [OF this] show ?thesis by (auto simp: placed_columns_def in_set_enumerate_eq)
qed

lemma placed_columns_inj:
  assumes "distinct (map co_name xs)" "distinct (map co_name ys)" "\<And>n. dget (placed_columns xs) n = dget (placed_columns ys) n"
  shows "xs = ys"
proof -
  have at: "i < length xs \<and> xs ! i = c \<longleftrightarrow> i < length ys \<and> ys ! i = c" for i c
    using dget_placed [OF assms(1), of "co_name c" i c] dget_placed [OF assms(2), of "co_name c" i c] assms(3) by auto
  then have bound: "i < length xs \<longleftrightarrow> i < length ys" for i by blast
  then have "length xs = length ys" by (metis less_irrefl linorder_neqE_nat)
  then show ?thesis using at by (intro nth_equalityI) blast+
qed

text \<open>C32: for two lists of distinctly named columns the reported column changes are empty exactly when the lists are
  equal, so a moved, added, dropped or altered column always shows; every reported column is named once,
  in order, differs between the sides, and is given with its true position on the sides that hold it.\<close>

theorem column_changes_exact:
  assumes "distinct (map co_name before)" "distinct (map co_name after)"
  shows "(column_changes before after = [] \<longleftrightarrow> before = after) \<and>
    distinct (map cc_name (column_changes before after)) \<and> sorted (map cc_name (column_changes before after)) \<and>
    list_all (\<lambda>e. cc_before e \<noteq> cc_after e \<and>
       (\<forall>i c. cc_before e = Some (i, c) \<longleftrightarrow> i < length before \<and> before ! i = c \<and> co_name c = cc_name e) \<and>
       (\<forall>i c. cc_after e = Some (i, c) \<longleftrightarrow> i < length after \<and> after ! i = c \<and> co_name c = cc_name e)) (column_changes before after)"
proof -
  let ?l = "placed_columns before" and ?r = "placed_columns after"
  let ?ns = "sorted_union (dkeys ?l) (dkeys ?r)"
  let ?e = "\<lambda>n. \<lparr>cc_name = n, cc_change = column_status (dget ?l n) (dget ?r n), cc_before = dget ?l n, cc_after = dget ?r n\<rparr>"
  have all: "column_changes before after = map ?e (filter (\<lambda>n. dget ?l n \<noteq> dget ?r n) ?ns)"
  proof -
    have "concat (map (\<lambda>n. if P n then [] else [g n]) ns) = map g (filter (\<lambda>n. \<not> P n) ns)" for P and g :: "ustr \<Rightarrow> column_change" and ns
      by (induction ns) simp_all
    then show ?thesis by (simp add: column_changes_def Let_def)
  qed
  have names: "map cc_name (column_changes before after) = filter (\<lambda>n. dget ?l n \<noteq> dget ?r n) ?ns"
    unfolding all map_map by (rule map_idI) simp
  have outside: "dget ?l n = dget ?r n" if "n \<notin> set ?ns" for n using that dget_None_iff [of ?l n] dget_None_iff [of ?r n] by simp
  have "before = after" if "column_changes before after = []"
  proof (rule placed_columns_inj [OF assms])
    fix n show "dget ?l n = dget ?r n" using that outside [of n] by (auto simp: all filter_empty_conv)
  qed
  moreover have "column_changes before after = []" if "before = after" by (simp add: that column_changes_def Let_def)
  moreover have "list_all (\<lambda>e. cc_before e \<noteq> cc_after e \<and>
       (\<forall>i c. cc_before e = Some (i, c) \<longleftrightarrow> i < length before \<and> before ! i = c \<and> co_name c = cc_name e) \<and>
       (\<forall>i c. cc_after e = Some (i, c) \<longleftrightarrow> i < length after \<and> after ! i = c \<and> co_name c = cc_name e)) (column_changes before after)"
    unfolding all using dget_placed [OF assms(1)] dget_placed [OF assms(2)] by (simp add: list_all_iff)
  ultimately show ?thesis unfolding names by (auto intro: sorted_wrt_filter)
qed

theorem column_changes_exact_witness:
  "column_changes [pair_column ''a'', pair_column ''b''] [pair_column ''b'', pair_column ''a''] \<noteq> []"
proof -
  have "(column_changes [pair_column ''a'', pair_column ''b''] [pair_column ''b'', pair_column ''a''] = []) =
      ([pair_column ''a'', pair_column ''b''] = [pair_column ''b'', pair_column ''a''])"
    by (rule column_changes_exact [THEN conjunct1]) (simp_all add: pair_column_def)
  then show ?thesis by (simp add: pair_column_def)
qed

subsection \<open>The selection a navigation offers\<close>

lemma default_selection:
  assumes "select_value (JObj [(u ''table'', JStr name)]) tables = Inr (sel, locator, kind)"
  shows "\<exists>t. find_table tables name = Some t \<and> sl_table sel = name \<and> sl_columns sel = available t \<and>
    sl_where sel = [] \<and> sl_order_by sel = [] \<and> distinct (available t) \<and> row_locator t = Inr (locator, kind)"
proof -
  from assms obtain t where t: "find_table tables name = Some t"
    and cols: "column_names (JArr (map JStr (available t))) (available t) = Some (sl_columns sel)" "distinct (sl_columns sel)"
    and sel: "sel = \<lparr>sl_table = so_name t, sl_columns = sl_columns sel, sl_where = [], sl_order_by = []\<rparr>"
    and loc: "row_locator t = Inr (locator, kind)"
    by (auto simp: select_value_def res_simps jget_def jget_or_def jkeys_def)
  have "sl_columns sel = available t" using cols(1) map_injective [of JStr "available t" "sl_columns sel"] by (simp add: column_names_Some inj_def)
  moreover have "so_name t = name" using find_table_Some [OF t] by simp
  moreover have "sl_table sel = so_name t" "sl_where sel = []" "sl_order_by sel = []" by (subst sel, simp)+
  ultimately show ?thesis using t loc cols(2) by auto
qed

lemma select_value_again: "select_value v tables = Inr (r, locator, kind) \<Longrightarrow> select_value (selection_json r) tables = Inr (r, locator, kind)"
  by (erule select_value_Inr) (rule select_value_ok)

text \<open>C33: the selection that the navigation of an object offers reopens that object: saved as compact UTF-8 JSON, as the
  instruction says, it fits the bound on selection files, is accepted by the row command as exactly this
  selection with the offered locator, and asks for every stored column of the object, unfiltered and in
  locator order.\<close>

theorem navigation_reopens:
  assumes "navigation runtime (Some t) tables = Inr (Available sel locator kind)"
    and "find_table tables (so_name t) = Some t" and "list_all text_scalar (so_name t # available t)"
  shows "\<exists>raw. raw = utf8_bytes (compact (selection_json sel)) \<and> length raw \<le> 65536 \<and>
    selection_recipe raw tables = Inr (sel, locator, kind) \<and> sl_table sel = so_name t \<and> sl_columns sel = available t \<and>
    sl_where sel = [] \<and> sl_order_by sel = []"
proof -
  let ?ask = "JObj [(u ''table'', JStr (so_name t))]"
  have ask: "jvalid True ?ask" "jscalar ?ask"
    using assms(3) by (simp_all add: text_scalar_def list_all_iff char_ok_def u_def is_scalar_def)
  have raw: "utf8_encode (dumps ascii_style ?ask) = Inr (utf8_bytes (dumps ascii_style ?ask))"
    using dumps_scalar [OF style_ok_styles(3) ask] by (simp add: utf8_encode_def text_scalar_def del: dumps.simps)
  have dec: "decode (utf8_bytes (dumps ascii_style ?ask)) = Inr ?ask"
    using ask decode_dumps [OF style_ok_styles(3), of ?ask] by (simp add: ascii_style_def del: jvalid.simps jscalar.simps dumps.simps)
  from assms(1) obtain size where sel: "select_value ?ask tables = Inr (sel, locator, kind)"
    and size: "encoded_size (selection_json sel) = Inr size" "size \<le> MAX_SELECTION"
    unfolding navigation_def option.case raw
    by (auto simp: selection_recipe_def dec res_simps split: sum.splits if_splits simp del: dumps.simps)
  from default_selection [OF sel] assms(2) have d: "sl_table sel = so_name t" "sl_columns sel = available t"
      "sl_where sel = []" "sl_order_by sel = []" by auto
  have scalar: "list_all is_scalar (so_name t)" "list_all (list_all is_scalar) (available t)"
    using assms(3) by (simp_all add: text_scalar_def list_all_iff)
  have "jvalid False (selection_json sel)" "jscalar (selection_json sel)"
    using scalar by (simp_all add: selection_json_def d list_all_iff char_ok_def) (simp_all add: u_def is_scalar_def)
  then have again: "decode (utf8_bytes (compact (selection_json sel))) = Inr (selection_json sel)"
    by (intro compact_bytes.roundtrip) simp
  have "selection_recipe (utf8_bytes (compact (selection_json sel))) tables = Inr (sel, locator, kind)"
    unfolding selection_recipe_def again rbind_simps by (rule select_value_again [OF sel])
  moreover have "length (utf8_bytes (compact (selection_json sel))) \<le> 65536"
    using size by (auto simp: encoded_size_def utf8_encode_def rbind_eq_Inr MAX_SELECTION_def split: if_splits)
  ultimately show ?thesis using d by blast
qed

lemma pair_named: "so_name pair_table = u ''t''"
  by (simp add: pair_table_def)

theorem navigation_reopens_witness:
  "selection_recipe (utf8_bytes (compact (selection_json (pair_recipe [''a'', ''b''])))) [pair_table] =
     Inr (pair_recipe [''a'', ''b''], [u ''_rowid_''], u ''rowid'')"
proof -
  let ?ask = "JObj [(u ''table'', JStr (u ''t''))]"
  have raw: "utf8_encode (dumps ascii_style ?ask) = Inr (utf8_bytes (dumps ascii_style ?ask))"
    using dumps_scalar [OF style_ok_styles(3), of True ?ask] by (simp add: utf8_encode_def text_scalar_def char_ok_def is_scalar_def u_def del: dumps.simps)
  have dec: "decode (utf8_bytes (dumps ascii_style ?ask)) = Inr ?ask"
    by (rule decode_dumps [OF style_ok_styles(3)]; simp add: ascii_style_def char_ok_def; simp add: u_def is_scalar_def)
  have "\<exists>k \<le> 1000. encoded_size (selection_json (pair_recipe [''a'', ''b''])) = Inr k"
    by (simp add: encoded_size_def selection_json_def pair_recipe_def utf8_encode_def)
       (simp add: u_def compact_style_def dump_string_def escape_char_def is_scalar_def utf8_bytes_def utf8_char_def)
  then have nav: "navigation (\<lambda>_. []) (Some pair_table) [pair_table] = Inr (Available (pair_recipe [''a'', ''b'']) [u ''_rowid_''] (u ''rowid''))"
    using pair_default unfolding navigation_def option.case
    by (auto simp: pair_table_def [symmetric] pair_named raw selection_recipe_def dec MAX_SELECTION_def simp del: dumps.simps)
  have "find_table [pair_table] (so_name pair_table) = Some pair_table" by (simp add: find_table_def)
  moreover have "list_all text_scalar (so_name pair_table # available pair_table)"
    by (simp add: pair_available pair_named) (simp add: u_def is_scalar_def text_scalar_def)
  ultimately show ?thesis using navigation_reopens [OF nav] by blast
qed

end
