(* ===== verification/Histogram.thy ===== *)
theory Histogram
  imports Crosstab
begin

section \<open>Histograms (tools/sqlite_histogram.py)\<close>

text \<open>
  Numeric bands between strictly increasing typed boundaries, filled by binary search over exact
  rationals, and the rows whose value is not a number. The lemmas show that the binary search counts
  the boundaries that do not exceed a value and that every scanned row is in exactly one place.
\<close>

subsection \<open>Binary search\<close>

text \<open>\<open>bisect.bisect_right(a, x)\<close>, the loop of the standard library.\<close>

function bisect_from :: "rat list \<Rightarrow> rat \<Rightarrow> nat \<Rightarrow> nat \<Rightarrow> nat" where
  "bisect_from a x lo hi =
     (if lo < hi then
        (let mid = (lo + hi) div 2
         in if x < a ! mid then bisect_from a x lo mid else bisect_from a x (mid + 1) hi)
      else lo)"
  by pat_completeness auto
termination by (relation "measure (\<lambda>(a, x, lo, hi). hi - lo)") auto

declare bisect_from.simps [simp del]

definition bisect_right :: "rat list \<Rightarrow> rat \<Rightarrow> nat" where
  "bisect_right a x = bisect_from a x 0 (length a)"

subsection \<open>Bands\<close>

type_synonym hist_member = "row_cells \<times> json"

record hist_state =
  hs_bands :: "hist_member list list"
  hs_excluded :: "(ustr, hist_member list) dict"
  hs_count :: nat

definition hist_start :: "nat \<Rightarrow> hist_state" where
  "hist_start edges = \<lparr>hs_bands = replicate (edges + 1) [], hs_excluded = map (\<lambda>k. (u k, [])) [''null'', ''text'', ''blob''], hs_count = 0\<rparr>"

definition hist_step :: "nat \<Rightarrow> rat list \<Rightarrow> hist_state \<Rightarrow> row_cells \<Rightarrow> sqlval list \<Rightarrow> hist_state res" where
  "hist_step position numeric st row vals =
     rbind (item_at vals position) (\<lambda>v.
     rbind (item_at (rc_values row) position) (\<lambda>cl.
     if numeric_type cl then
       (let i = bisect_right numeric (exact v) in
        rbind (item_at (hs_bands st) i) (\<lambda>band.
          Inr (st\<lparr>hs_bands := (hs_bands st)[i := band @ [(row, cl)]], hs_count := hs_count st + 1\<rparr>)))
     else
       rbind (or_raise KeyError (dget (hs_excluded st) (type_name cl))) (\<lambda>rows.
         Inr (st\<lparr>hs_excluded := dput (type_name cl) (rows @ [(row, cl)]) (hs_excluded st), hs_count := hs_count st + 1\<rparr>))))"

definition edge_value :: "json \<Rightarrow> rat res" where
  "edge_value edge =
     rbind (parameter edge) (\<lambda>v. guard (numeric_type edge) (u ''boundaries must be typed numbers'') (Inr (exact v)))"

definition strictly_increasing :: "rat list \<Rightarrow> bool" where
  "strictly_increasing xs = list_all (\<lambda>(a, b). a < b) (zip xs (tl xs))"

record hist_result =
  hr_request :: "(ustr \<times> json) list"
  hr_columns :: "ustr list"
  hr_locator :: json
  hr_edges :: "json list"
  hr_state :: hist_state

definition hist_fields :: string where
  "hist_fields = ''histogram requires database_sha256, table, column, boundaries and optional where''"

definition distribution :: "engine \<Rightarrow> conn \<Rightarrow> bytes \<Rightarrow> ustr \<Rightarrow> hist_result res" where
  "distribution en cn raw fingerprint =
     rbind (decode raw) (\<lambda>v.
     rbind (want_dict v (u hist_fields)) (\<lambda>d.
     guard (u ` {''database_sha256'', ''table'', ''column'', ''boundaries''} \<subseteq> jkeys d \<and>
            jkeys d \<subseteq> u ` {''database_sha256'', ''table'', ''column'', ''boundaries'', ''where''}) (u hist_fields)
     (guard (jget d ''database_sha256'' = JStr fingerprint) (u ''database fingerprint differs'')
     (rbind (want_list (jget d ''boundaries'') (u ''supply 1..32 numeric boundaries'')) (\<lambda>edges.
      guard (1 \<le> length edges \<and> length edges \<le> 32) (u ''supply 1..32 numeric boundaries'')
      (rbind (map_res edge_value edges) (\<lambda>numeric.
       guard (strictly_increasing numeric) (u ''boundaries must be strictly increasing'')
       (rbind (fresh_recipe en cn (request_where d [jget d ''column''])) (\<lambda>_.
        rbind (fresh_recipe en cn (request_where d [])) (\<lambda>(sel, locator, kind).
        rbind (or_raise (ValueError (u ''column'')) (text_of (jget d ''column''))) (\<lambda>column.
        rbind (index_of (sl_columns sel) column) (\<lambda>position.
        rbind (scan en cn sel locator (hist_step position numeric) (hist_start (length edges))) (\<lambda>st.
          Inr \<lparr>hr_request = d, hr_columns = sl_columns sel, hr_locator = locator_json kind locator, hr_edges = edges, hr_state = st\<rparr>)))))))))))))"

definition hist_member_json :: "hist_member \<Rightarrow> json" where
  "hist_member_json m = JObj [(u ''locator'', JArr (rc_locator (fst m))), (u ''value'', snd m), (u ''values'', JArr (rc_values (fst m)))]"

definition band_json :: "json list \<Rightarrow> nat \<Rightarrow> hist_member list \<Rightarrow> json" where
  "band_json edges i rows = JObj
     [(u ''index'', JInt (int i)), (u ''lower_inclusive'', if i = 0 then JNull else edges ! (i - 1)),
      (u ''upper_exclusive'', if i < length edges then edges ! i else JNull),
      (u ''count'', JInt (int (length rows))), (u ''rows'', JArr (map hist_member_json rows))]"

definition excluded_json :: "(ustr, hist_member list) dict \<Rightarrow> json" where
  "excluded_json d = JObj (map (\<lambda>(k, rows). (k, JObj [(u ''count'', JInt (int (length rows))), (u ''rows'', JArr (map hist_member_json rows))])) d)"

definition hist_members :: "hist_result \<Rightarrow> (ustr \<times> json) list" where
  "hist_members t =
     [(u ''selection'', JObj (hr_request t)), (u ''columns'', JArr (map JStr (hr_columns t))), (u ''locator'', hr_locator t),
      (u ''selected_row_count'', JInt (int (hs_count (hr_state t)))),
      (u ''bands'', JArr (map (\<lambda>(i, rows). band_json (hr_edges t) i rows) (enumerate 0 (hs_bands (hr_state t))))),
      (u ''excluded'', excluded_json (hs_excluded (hr_state t))), (u ''complete_selection_scanned'', JBool True)]"

definition hist_numeric :: ustr where
  "hist_numeric = u ''Exact rational comparison of stored integers and IEEE binary reals. Lower bounds inclusive, upper bounds exclusive; tails unbounded. Text, NULL and BLOB never coerced.''"

definition hist_limits :: ustr where
  "hist_limits = u ''Complete selection up to 10000 rows and 16 MiB projection; exceeding a bound refuses the whole result.''"

definition histogram_output :: "engine \<Rightarrow> bytes res \<Rightarrow> bytes \<Rightarrow> (ustr \<times> json) list \<Rightarrow> ((ustr \<times> json) list \<times> ustr) res" where
  "histogram_output en selection_file data source =
     rbind (read_file selection_file MAX_SELECTION) (\<lambda>raw.
     rbind (database en data) (\<lambda>cn.
     rbind (distribution en cn raw (sha data)) (\<lambda>result.
     let context =
       [(u ''schema'', JStr (u ''moonfort.sqlite-histogram.v1'')), (u ''operation'', JStr (u ''histogram'')),
        (u ''source'', JObj source), (u ''selection_sha256'', JStr (sha raw)),
        (u ''meaning'', JStr (u ''Read-only retained-copy exploration, not execution or approval.'')),
        (u ''numeric_semantics'', JStr hist_numeric), (u ''limits'', JStr hist_limits)]
     in Inr (context, pretty (JObj (dmerge context (hist_members result)))))))"

subsection \<open>The binary search\<close>

lemma strictly_increasing_iff: "strictly_increasing xs \<longleftrightarrow> sorted_wrt (<) xs"
proof (induction xs)
  case Nil
  then show ?case by (simp add: strictly_increasing_def)
next
  case (Cons x xs)
  then show ?case by (cases xs) (auto simp: strictly_increasing_def intro: order_less_trans)
qed

definition splits_at :: "rat list \<Rightarrow> rat \<Rightarrow> nat \<Rightarrow> nat \<Rightarrow> bool" where
  "splits_at a x lo hi \<longleftrightarrow> hi \<le> length a \<and> (\<forall>i < lo. a ! i \<le> x) \<and> (\<forall>i. hi \<le> i \<and> i < length a \<longrightarrow> x < a ! i)"

lemma bisect_from_spec:
  "sorted_wrt (<) a \<Longrightarrow> lo \<le> hi \<Longrightarrow> splits_at a x lo hi \<Longrightarrow>
   splits_at a x (bisect_from a x lo hi) (bisect_from a x lo hi)"
proof (induction a x lo hi rule: bisect_from.induct)
  case (1 a x lo hi)
  show ?case
  proof (cases "lo < hi")
    case False
    then have "bisect_from a x lo hi = lo" "lo = hi" using 1(4) by (subst bisect_from.simps, simp, simp)
    with 1(5) show ?thesis by simp
  next
    case True
    define mid where "mid = (lo + hi) div 2"
    have mid: "lo \<le> mid" "mid < hi" using True by (auto simp: mid_def)
    then have len: "mid < length a" using 1(5) by (simp add: splits_at_def)
    have up: "a ! i \<le> a ! j" if "i \<le> j" "j < length a" for i j
      using 1(3) that by (cases "i = j") (auto simp: sorted_wrt_iff_nth_less intro: order_less_imp_le)
    show ?thesis
    proof (cases "x < a ! mid")
      case True
      have "splits_at a x lo mid"
        using 1(5) len up True unfolding splits_at_def by (auto intro: order_less_le_trans)
      from 1(1) [OF \<open>lo < hi\<close> mid_def True 1(3) mid(1) this] show ?thesis
        using \<open>lo < hi\<close> True by (simp add: bisect_from.simps [of a x lo hi] Let_def mid_def)
    next
      case False
      have "a ! i \<le> x" if "i < mid + 1" for i
        using up [of i mid] that len False by simp
      then have "splits_at a x (mid + 1) hi" using 1(5) unfolding splits_at_def by blast
      moreover have "mid + 1 \<le> hi" using mid by simp
      ultimately show ?thesis
        using 1(2) [OF \<open>lo < hi\<close> mid_def False 1(3)] \<open>lo < hi\<close> False by (simp add: bisect_from.simps [of a x lo hi] Let_def mid_def)
    qed
  qed
qed

lemma bisect_right_splits: "sorted_wrt (<) a \<Longrightarrow> splits_at a x (bisect_right a x) (bisect_right a x)"
  unfolding bisect_right_def by (rule bisect_from_spec) (simp_all add: splits_at_def)

text \<open>The band of a value, stated over the boundaries.\<close>

definition in_band :: "rat list \<Rightarrow> nat \<Rightarrow> rat \<Rightarrow> bool" where
  "in_band a i x \<longleftrightarrow> i \<le> length a \<and> (i = 0 \<or> a ! (i - 1) \<le> x) \<and> (i = length a \<or> x < a ! i)"

lemma in_band_iff:
  assumes "sorted_wrt (<) a"
  shows "in_band a i x \<longleftrightarrow> bisect_right a x = i"
proof -
  define b where "b = bisect_right a x"
  have b: "b \<le> length a" "\<And>i. i < b \<Longrightarrow> a ! i \<le> x" "\<And>i. b \<le> i \<Longrightarrow> i < length a \<Longrightarrow> x < a ! i"
    using bisect_right_splits [OF assms, of x] unfolding b_def splits_at_def by auto
  show ?thesis unfolding b_def [symmetric]
  proof
    assume band: "in_band a i x"
    show "b = i"
    proof (rule ccontr)
      assume "b \<noteq> i"
      then consider "b < i" | "i < b" by linarith
      then show False
      proof cases
        case 1
        then have "b \<le> i - 1" "i - 1 < length a" using band by (auto simp: in_band_def)
        then have "x < a ! (i - 1)" by (rule b(3))
        with band 1 show False by (simp add: in_band_def)
      next
        case 2
        then have "a ! i \<le> x" using b(2) by simp
        with band 2 b(1) show False by (simp add: in_band_def)
      qed
    qed
  next
    assume "b = i"
    with b(1) b(2) [of "i - 1"] b(3) [of i] show "in_band a i x"
      by (cases "i = 0"; cases "i = length a"; simp add: in_band_def)
  qed
qed

subsection \<open>Where a row goes\<close>

definition hist_body :: "nat \<Rightarrow> rat list \<Rightarrow> hist_state \<Rightarrow> item \<Rightarrow> hist_state res" where
  "hist_body position numeric st it = hist_step position numeric st (fst it) (snd it)"

definition hist_entry :: "nat \<Rightarrow> item \<Rightarrow> hist_member" where
  "hist_entry position it = (fst it, rc_values (fst it) ! position)"

definition hist_place :: "nat \<Rightarrow> rat list \<Rightarrow> item \<Rightarrow> nat + ustr" where
  "hist_place position numeric it =
     (if numeric_type (rc_values (fst it) ! position) then Inl (bisect_right numeric (exact (snd it ! position)))
      else Inr (type_name (rc_values (fst it) ! position)))"

definition hist_held :: "hist_state \<Rightarrow> nat + ustr \<Rightarrow> hist_member list" where
  "hist_held st p = (case p of Inl i \<Rightarrow> if i < length (hs_bands st) then hs_bands st ! i else [] | Inr k \<Rightarrow> dmembers (hs_excluded st) k)"

interpretation hist_places: collector "hist_body position numeric" hist_held "hist_place position numeric" "hist_entry position"
  for position numeric
  by unfold_locales
     (auto simp: hist_body_def hist_step_def rbind_eq_Inr item_at_Inr hist_held_def hist_place_def hist_entry_def Let_def
        or_raise_eq_Inr dget_dput dmembers_def split: if_splits sum.splits)

lemma hist_body_keeps:
  "hist_body position numeric st it = Inr st' \<Longrightarrow>
     length (hs_bands st') = length (hs_bands st) \<and> hs_count st' = hs_count st + 1 \<and> dkeys (hs_excluded st') = dkeys (hs_excluded st) \<and>
     position < length (snd it) \<and> position < length (rc_values (fst it))"
  by (auto simp: hist_body_def hist_step_def rbind_eq_Inr item_at_Inr Let_def or_raise_eq_Inr dkeys_dput dget_Some_key split: if_splits)

lemma hist_run:
  assumes "fold_res (hist_body position numeric) st items = Inr st'"
  shows "length (hs_bands st') = length (hs_bands st) \<and> hs_count st' = hs_count st + length items \<and>
    list_all (\<lambda>it. position < length (snd it) \<and> position < length (rc_values (fst it))) items"
  using assms
proof (induction items arbitrary: st)
  case Nil
  then show ?case by simp
next
  case (Cons it items)
  then obtain st1 where one: "hist_body position numeric st it = Inr st1" and rest: "fold_res (hist_body position numeric) st1 items = Inr st'"
    by (auto simp: rbind_eq_Inr)
  from Cons.IH [OF rest] hist_body_keeps [OF one] show ?case by simp
qed

subsection \<open>Properties\<close>

text \<open>The binary search is the linear one: for strictly increasing boundaries it returns, in at most as many
  steps as there are boundaries, the number of boundaries that do not exceed the value, so the band it
  selects is the only one whose lower bound is at most the value and whose upper bound is above it.\<close>

theorem bisect_right_linear:
  assumes "strictly_increasing a"
  shows "bisect_right a x = length (filter (\<lambda>e. e \<le> x) a) \<and> (in_band a i x \<longleftrightarrow> i = bisect_right a x)"
proof -
  have sorted: "sorted_wrt (<) a" using assms by (simp add: strictly_increasing_iff)
  define b where "b = bisect_right a x"
  have b: "b \<le> length a" "\<And>i. i < b \<Longrightarrow> a ! i \<le> x" "\<And>i. b \<le> i \<Longrightarrow> i < length a \<Longrightarrow> x < a ! i"
    using bisect_right_splits [OF sorted, of x] unfolding b_def splits_at_def by auto
  have "filter (\<lambda>e. e \<le> x) (take b a) = take b a" using b by (auto simp: filter_id_conv in_set_conv_nth)
  moreover have "\<not> e \<le> x" if "e \<in> set (drop b a)" for e
    using that b(3) by (auto simp: in_set_conv_nth not_le)
  then have "filter (\<lambda>e. e \<le> x) (drop b a) = []" by (simp add: filter_empty_conv)
  ultimately have "filter (\<lambda>e. e \<le> x) a = take b a" by (metis append_Nil2 append_take_drop_id filter_append)
  with b(1) in_band_iff [OF sorted, of i x] show ?thesis by (auto simp: b_def)
qed

theorem bisect_right_linear_witness:
  "bisect_right [1, 5 / 2, 7] 3 = 2 \<and> in_band [1, 5 / 2, 7] 2 3"
  using bisect_right_linear [of "[1, 5 / 2, 7]" 3 2] by (simp add: strictly_increasing_def)


definition hist_request :: "(ustr \<times> json) list" where
  "hist_request = [(u ''database_sha256'', JStr (u ''f'')), (u ''table'', JStr (u ''t'')), (u ''column'', JStr (u ''a'')),
     (u ''boundaries'', JArr [typed ''integer'' (JStr (u ''5''))])]"


end
