(* ===== verification/Review.thy ===== *)
theory Review
  imports SchemaCompare Histogram JsonReread
begin

section \<open>The SQLite review command (tools/sqlite_review.py)\<close>

text \<open>
  The custom query and the command itself: what each sub-command reads, runs and writes, behind one
  bound and one \<open>except\<close> clause. The results of argparse are the values of \<open>sqlite_args\<close>; files are
  given as the outcome of reading them. The lemmas show that a query result is complete.
\<close>

subsection \<open>One custom query\<close>

text \<open>The SQL and its parameters come from files, or as bytes from the workbench.\<close>

datatype input = FromFile "bytes res" | Supplied bytes

definition load_input :: "input \<Rightarrow> ustr \<Rightarrow> bytes res" where
  "load_input i m =
     rbind (case i of FromFile f \<Rightarrow> read_file f MAX_SELECTION | Supplied b \<Rightarrow> Inr b) (\<lambda>raw.
     guard (length raw \<le> MAX_SELECTION) m (Inr raw))"

record query_args =
  qa_sql :: input
  qa_parameters :: input
  qa_max_rows :: json
  qa_csv :: bool

definition query_sql :: "bytes \<Rightarrow> ustr res" where
  "query_sql raw =
     rbind (utf8_decode raw) (\<lambda>sql.
     guard (strip sql \<noteq> [] \<and> 0 \<notin> set sql) (u ''SQL must be nonempty UTF-8 without NUL'') (Inr sql))"

definition query_request :: "bytes \<Rightarrow> ustr \<Rightarrow> (json list \<times> sqlval list) res" where
  "query_request raw fingerprint =
     rbind (decode raw) (\<lambda>v.
     rbind (want_dict v (u ''query parameters require exactly database_sha256 and parameters'')) (\<lambda>d.
     guard (jkeys d = {u ''database_sha256'', u ''parameters''}) (u ''query parameters require exactly database_sha256 and parameters'')
     (guard (jget d ''database_sha256'' = JStr fingerprint) (u ''query database fingerprint does not match retained artifact'')
     (rbind (want_list (jget d ''parameters'') (u ''query accepts at most 128 positional typed parameters'')) (\<lambda>items.
      guard (length items \<le> 128) (u ''query accepts at most 128 positional typed parameters'')
      (rbind (map_res parameter items) (\<lambda>params. Inr (items, params))))))))"

definition row_bound :: "json \<Rightarrow> nat res" where
  "row_bound v =
     (case v of
        JInt n \<Rightarrow> guard (1 \<le> n \<and> n \<le> 10000) (u ''max-rows must be 1..10000'') (Inr (nat n))
      | _ \<Rightarrow> Inl (ValueError (u ''max-rows must be 1..10000'')))"

definition query_step :: "nat \<Rightarrow> json list list \<times> nat \<Rightarrow> sqlval list \<Rightarrow> (json list list \<times> nat) res" where
  "query_step max_rows acc vals =
     (case acc of (result, scanned) \<Rightarrow>
        guard (length result < max_rows) (u ''query exceeds max-rows; narrow the SQL or raise the bound; no partial result'')
        (rbind (map_res cell vals) (\<lambda>row.
         rbind (utf8_encode (dumps plain_style (JArr row))) (\<lambda>encoded.
         guard (scanned + length encoded \<le> MAX_OUTPUT) (u ''query projection exceeds 16 MiB; no partial result'')
           (Inr (result @ [row], scanned + length encoded))))))"

definition query_rows :: "engine \<Rightarrow> conn \<Rightarrow> ustr \<Rightarrow> sqlval list \<Rightarrow> nat \<Rightarrow> (ustr list \<times> json list list) res" where
  "query_rows en cn sql params max_rows =
     rbind (inventory en cn) (\<lambda>tables.
     rbind (en_execute en (cn\<lparr>cn_authorizer := read_authorizer (Some tables)\<rparr>) sql params) (\<lambda>r.
     rbind (or_raise (ValueError (u ''SQL must return a result set'')) (sr_description r)) (\<lambda>columns.
     rbind (for_rows (query_step max_rows) ([], 0) (sr_rows r)) (\<lambda>(result, _). Inr (columns, result)))))"

definition query_csv :: "ustr list \<Rightarrow> json list list \<Rightarrow> ustr" where
  "query_csv columns result =
     csv_text (map (\<lambda>(i, name). u ''column:'' @ str_int (int i + 1) @ u '':'' @ name) (List.enumerate 0 columns) #
       map (map (dumps plain_style)) result)"

definition query_ordering :: ustr where
  "query_ordering = u ''Only the supplied SQL ORDER BY defines ordering; no implicit stable order.''"

definition query_meaning :: ustr where
  "query_meaning = u ''Complete result of supplied SQL on one retained in-memory copy. SQL LIMIT belongs to the query and may deliberately restrict its result. Derived rows have no inferred source locator. No authenticity, live state, execution, acceptance or promotion.''"

definition query_output :: "engine \<Rightarrow> query_args \<Rightarrow> bytes \<Rightarrow> (ustr \<times> json) list \<Rightarrow> ((ustr \<times> json) list \<times> ustr) res" where
  "query_output en args data source =
     rbind (load_input (qa_sql args) (u ''SQL exceeds 64 KiB'')) (\<lambda>sql_raw.
     rbind (query_sql sql_raw) (\<lambda>sql.
     rbind (load_input (qa_parameters args) (u ''parameters exceed 64 KiB'')) (\<lambda>raw.
     rbind (query_request raw (sha data)) (\<lambda>(items, params).
     rbind (row_bound (qa_max_rows args)) (\<lambda>max_rows.
     rbind (database en data) (\<lambda>cn.
     rbind (query_rows en cn sql params max_rows) (\<lambda>(columns, result).
     let context =
       [(u ''schema'', JStr (u ''moonfort.sqlite-query.v1'')), (u ''source'', JObj source), (u ''operation'', JStr (u ''query'')),
        (u ''sqlite_version'', JStr (en_version en)), (u ''database_sha256'', JStr (sha data)),
        (u ''sql_sha256'', JStr (sha sql_raw)), (u ''sql_size_bytes'', JInt (int (length sql_raw))), (u ''sql'', JStr sql),
        (u ''parameters_sha256'', JStr (sha raw)), (u ''parameters_size_bytes'', JInt (int (length raw))),
        (u ''parameters'', JArr items), (u ''columns'', JArr (map JStr columns)), (u ''row_count'', JInt (int (length result))),
        (u ''max_rows'', JInt (int max_rows)), (u ''complete'', JBool True), (u ''ordering'', JStr query_ordering),
        (u ''meaning'', JStr query_meaning)]
     in rbind (if qa_csv args then Inr (query_csv columns result)
               else finite_text (JObj (dmerge context [(u ''rows'', JArr (map JArr result))])) pretty) (\<lambda>output.
        Inr (context, output)))))))))"

subsection \<open>The command line\<close>

record row_args =
  ra_selection :: "bytes res"
  ra_offset :: int
  ra_limit :: int
  ra_csv :: bool

record other_side =
  os_bundle :: "bytes res"
  os_database :: "ustr option"

datatype sqlite_command =
    Schema
  | Query query_args
  | Histogram_of "bytes res"
  | Crosstab_of "bytes res"
  | Rows row_args "ustr option"
  | Related row_args
  | Referencing row_args
  | CompareSchema other_side "bytes res"
  | CompareRows other_side "bytes res" bool
  | Summarize "bytes res" bool
  | GroupRows row_args "bytes res"

record sqlite_args =
  sq_bundle :: "bytes res"
  sq_database :: ustr
  sq_command :: sqlite_command

definition command_name :: "sqlite_command \<Rightarrow> ustr" where
  "command_name c = u (case c of
     Schema \<Rightarrow> ''schema'' | Query _ \<Rightarrow> ''query'' | Histogram_of _ \<Rightarrow> ''histogram'' | Crosstab_of _ \<Rightarrow> ''crosstab''
   | Rows _ _ \<Rightarrow> ''rows'' | Related _ \<Rightarrow> ''related'' | Referencing _ \<Rightarrow> ''referencing'' | CompareSchema _ _ \<Rightarrow> ''compare-schema''
   | CompareRows _ _ _ \<Rightarrow> ''compare'' | Summarize _ _ \<Rightarrow> ''summarize'' | GroupRows _ _ \<Rightarrow> ''group-rows'')"

definition page_args :: "sqlite_command \<Rightarrow> row_args option" where
  "page_args c = (case c of Rows a _ \<Rightarrow> Some a | Related a \<Rightarrow> Some a | Referencing a \<Rightarrow> Some a | GroupRows a _ \<Rightarrow> Some a | _ \<Rightarrow> None)"

definition page_ok :: "sqlite_command \<Rightarrow> bool" where
  "page_ok c = (case page_args c of None \<Rightarrow> True
     | Some a \<Rightarrow> 0 \<le> ra_offset a \<and> ra_offset a \<le> 1000000 \<and> 1 \<le> ra_limit a \<and> ra_limit a \<le> 1000)"

definition expected_fingerprint :: "sqlite_command \<Rightarrow> ustr option" where
  "expected_fingerprint c = (case c of Rows _ e \<Rightarrow> e | _ \<Rightarrow> None)"

definition compare_request :: "sqlite_args \<Rightarrow> other_side \<Rightarrow> bytes res \<Rightarrow> bool \<Rightarrow> compare_args" where
  "compare_request args other selection csv =
     \<lparr>cm_selection = selection, cm_after_bundle = os_bundle other, cm_database = sq_database args,
      cm_after_database = os_database other, cm_csv = csv\<rparr>"

subsection \<open>Schema and row pages\<close>

definition review_meaning :: ustr where
  "review_meaning = u ''Read-only exploration of a supplied retained database copy; not authenticity, live state, execution, acceptance or promotion.''"

definition page_ordering :: ustr where
  "page_ordering = u ''Explicit columns then unique locator; BINARY collation, ascending locator ties.''"

definition review_context :: "engine \<Rightarrow> sqlite_command \<Rightarrow> (ustr \<times> json) list \<Rightarrow> (ustr \<times> json) list" where
  "review_context en c source =
     [(u ''schema'', JStr (u ''moonfort.sqlite-review.v1'')), (u ''source'', JObj source), (u ''operation'', JStr (command_name c)),
      (u ''sqlite_version'', JStr (en_version en)), (u ''meaning'', JStr review_meaning)] @
     (case expected_fingerprint c of None \<Rightarrow> [] | Some e \<Rightarrow> [(u ''expected_database_sha256'', JStr e)])"

definition schema_output :: "engine \<Rightarrow> schema_object list \<Rightarrow> (ustr \<times> json) list \<Rightarrow> (ustr \<times> json) list \<times> ustr" where
  "schema_output en tables context =
     (let context = dput (u ''object_count'') (JInt (int (length tables))) context
      in (context, pretty (JObj (dmerge context [(u ''objects'', JArr (map object_json tables))]))))"

text \<open>The page a row command shows, with the entries it adds to the context first.\<close>

definition plain_page :: "engine \<Rightarrow> conn \<Rightarrow> bytes \<Rightarrow> schema_object list \<Rightarrow> nat \<Rightarrow> nat \<Rightarrow> review_page res" where
  "plain_page en cn raw tables offset limit =
     rbind (selection_recipe raw tables) (\<lambda>(recipe, locator, kind).
     rbind (selected_rows en cn recipe locator offset limit None None) (\<lambda>(rows, again).
       Inr \<lparr>rp_recipe = recipe, rp_locator = locator, rp_kind = kind, rp_rows = rows, rp_more = again, rp_metadata = []\<rparr>))"

definition relation_page ::
  "(engine \<Rightarrow> conn \<Rightarrow> bytes \<Rightarrow> schema_object list \<Rightarrow> nat \<Rightarrow> nat \<Rightarrow> ustr \<Rightarrow> review_page res) \<Rightarrow>
   engine \<Rightarrow> conn \<Rightarrow> bytes \<Rightarrow> schema_object list \<Rightarrow> nat \<Rightarrow> nat \<Rightarrow> ustr \<Rightarrow> review_page res" where
  "relation_page review en cn raw tables offset limit fingerprint =
     rbind (review en cn raw tables offset limit fingerprint) (\<lambda>page.
     rbind (decode raw) (\<lambda>request.
       Inr (page\<lparr>rp_metadata := dput (u ''relation_selection'') request (rp_metadata page)\<rparr>)))"

definition page_members :: "bytes \<Rightarrow> nat \<Rightarrow> nat \<Rightarrow> review_page \<Rightarrow> (ustr \<times> json) list" where
  "page_members raw offset limit page =
     [(u ''selection_sha256'', JStr (sha raw)), (u ''selection_size_bytes'', JInt (int (length raw))),
      (u ''selection'', selection_json (rp_recipe page)), (u ''locator'', locator_json (rp_kind page) (rp_locator page)),
      (u ''offset'', JInt (int offset)), (u ''limit'', JInt (int limit)), (u ''row_count'', JInt (int (length (rp_rows page)))),
      (u ''has_more'', JBool (rp_more page)), (u ''next_offset'', offset_json (next_offset offset (rp_rows page) (rp_more page))),
      (u ''ordering'', JStr page_ordering)]"

definition page_output ::
  "row_args \<Rightarrow> (bytes \<Rightarrow> nat \<Rightarrow> nat \<Rightarrow> review_page res) \<Rightarrow> (ustr \<times> json) list \<Rightarrow> ((ustr \<times> json) list \<times> ustr) res" where
  "page_output args fetch context =
     rbind (read_file (ra_selection args) MAX_SELECTION) (\<lambda>raw.
     let offset = nat (ra_offset args); limit = nat (ra_limit args) in
     rbind (fetch raw offset limit) (\<lambda>page.
     let context = dmerge (dmerge context (rp_metadata page)) (page_members raw offset limit page)
     in Inr (context,
          if ra_csv args then rows_csv (sl_columns (rp_recipe page)) (rp_rows page)
          else pretty (JObj (dmerge context [(u ''rows'', JArr (map row_json (rp_rows page)))])))))"

definition explore_output ::
  "engine \<Rightarrow> sqlite_command \<Rightarrow> bytes \<Rightarrow> (ustr \<times> json) list \<Rightarrow> ((ustr \<times> json) list \<times> ustr) res" where
  "explore_output en c data source =
     rbind (database en data) (\<lambda>cn.
     rbind (inventory en cn) (\<lambda>tables.
     let context = review_context en c source in
     case c of
       Rows a _ \<Rightarrow> page_output a (\<lambda>raw. plain_page en cn raw tables) context
     | Related a \<Rightarrow> page_output a (\<lambda>raw offset limit. relation_page relation_rows en cn raw tables offset limit (sha data)) context
     | Referencing a \<Rightarrow> page_output a (\<lambda>raw offset limit. relation_page referencing_rows en cn raw tables offset limit (sha data)) context
     | _ \<Rightarrow> Inr (schema_output en tables context)))"

subsection \<open>The dispatch and the bound\<close>

definition review_output ::
  "engine \<Rightarrow> (pyerr \<Rightarrow> ustr) \<Rightarrow> (bytes \<Rightarrow> zmember list res) \<Rightarrow> sqlite_args \<Rightarrow> bytes \<Rightarrow> (ustr \<times> json) list \<Rightarrow>
   ((ustr \<times> json) list \<times> ustr) res" where
  "review_output en runtime zip_open args data source =
     (case sq_command args of
        Query q \<Rightarrow> query_output en q data source
      | Crosstab_of selection \<Rightarrow> crosstab_output en selection data source
      | Histogram_of selection \<Rightarrow> histogram_output en selection data source
      | CompareSchema other selection \<Rightarrow>
          schema_comparison_output en runtime zip_open (compare_request args other selection False) data source
      | CompareRows other selection csv \<Rightarrow> comparison_output en zip_open (compare_request args other selection csv) data source
      | Summarize selection csv \<Rightarrow>
          summary_output en \<lparr>sa_members = False, sa_selection = selection, sa_group = Inr [], sa_offset = 0, sa_limit = 0, sa_csv = csv\<rparr> data source
      | GroupRows a chosen \<Rightarrow>
          summary_output en \<lparr>sa_members = True, sa_selection = ra_selection a, sa_group = chosen, sa_offset = nat (ra_offset a),
            sa_limit = nat (ra_limit a), sa_csv = ra_csv a\<rparr> data source
      | c \<Rightarrow> explore_output en c data source)"

definition sqlite_body ::
  "engine \<Rightarrow> (pyerr \<Rightarrow> ustr) \<Rightarrow> (bytes \<Rightarrow> zmember list res) \<Rightarrow> sqlite_args \<Rightarrow> (bytes \<times> ustr) res" where
  "sqlite_body en runtime zip_open args =
     guard (page_ok (sq_command args)) (u ''offset must be 0..1000000 and limit 1..1000'')
     (rbind (read_bundle zip_open (sq_bundle args) (sq_database args) (u ''SQLite database'')) (\<lambda>(data, source).
      guard (case expected_fingerprint (sq_command args) of None \<Rightarrow> True | Some e \<Rightarrow> e = sha data)
        (u ''row navigation database fingerprint does not match retained artifact'')
      (rbind (review_output en runtime zip_open args data source) (\<lambda>(context, output).
       rbind (utf8_encode output) (\<lambda>encoded.
       guard (length encoded \<le> MAX_OUTPUT) (u ''selection exceeds 16 MiB output bound'')
       (Inr (encoded, pretty (JObj (dmerge context
          [(u ''candidate_sha256'', JStr (sha encoded)), (u ''candidate_size_bytes'', JInt (int (length encoded)))]))))))))) "

definition sqlite_error :: "pyerr \<Rightarrow> bool" where
  "sqlite_error e \<longleftrightarrow> review_error e \<or> e = SqliteError"

definition sqlite_main ::
  "engine \<Rightarrow> (pyerr \<Rightarrow> ustr) \<Rightarrow> (bytes \<Rightarrow> zmember list res) \<Rightarrow> sqlite_args \<Rightarrow> outcome" where
  "sqlite_main en runtime zip_open args = run_command sqlite_error (sqlite_body en runtime zip_open args)"

subsection \<open>What a query returns\<close>

lemma query_run:
  assumes "fold_res (query_step m) (acc, n) valss = Inr (result, n')" "length acc \<le> m"
  shows "\<exists>rows. map_res (map_res cell) valss = Inr rows \<and> result = acc @ rows \<and> length result \<le> m"
  using assms
proof (induction valss arbitrary: acc n)
  case Nil
  then show ?case by simp
next
  case (Cons vals valss)
  then obtain mid where step: "query_step m (acc, n) vals = Inr mid" and rest: "fold_res (query_step m) mid valss = Inr (result, n')"
    by (auto simp: rbind_eq_Inr)
  from step obtain row k where row: "length acc < m" "map_res cell vals = Inr row" "mid = (acc @ [row], k)"
    by (auto simp: query_step_def res_simps)
  from Cons.IH [OF rest [unfolded row(3)]] row(1) obtain rows
    where "map_res (map_res cell) valss = Inr rows" "result = (acc @ [row]) @ rows" "length result \<le> m" by auto
  with row(2) show ?case by simp
qed

lemma query_rows_Inr:
  assumes "query_rows en cn sql params m = Inr (columns, result)"
  obtains tables r where "inventory en cn = Inr tables"
    and "en_execute en (cn\<lparr>cn_authorizer := read_authorizer (Some tables)\<rparr>) sql params = Inr r"
    and "sr_description r = Some columns" "snd (sr_rows r) = None"
    and "map_res (map_res cell) (fst (sr_rows r)) = Inr result" "length result \<le> m"
proof -
  from assms obtain tables and r :: statement_result and n where
    t: "inventory en cn = Inr tables" and r: "en_execute en (cn\<lparr>cn_authorizer := read_authorizer (Some tables)\<rparr>) sql params = Inr r"
    and d: "or_raise (ValueError (u ''SQL must return a result set'')) (sr_description r) = Inr columns"
    and run: "for_rows (query_step m) ([], 0) (sr_rows r) = Inr (result, n)"
    unfolding query_rows_def rbind_eq_Inr split_paired_Ex prod.case sum.inject prod.inject by blast
  from run have "snd (sr_rows r) = None" "fold_res (query_step m) ([], 0) (fst (sr_rows r)) = Inr (result, n)" by (simp_all add: for_rows_Inr)
  with query_run [OF this(2)] t r d that show thesis by (auto simp: res_simps)
qed

text \<open>C34: a query result is complete and was computed under the restricted authorizer: the parameters name this
  database, the one statement run on its retained copy is the supplied SQL with the supplied typed
  parameters, on a connection whose authorizer allows only stored columns of its listed tables; the
  statement returned a result set and did not fail, and the rows written are all of its rows, value for
  value, at most the requested bound and never more than 10000.\<close>

theorem query_complete:
  assumes "query_output en args data source = Inr (context, output)"
  shows "\<exists>sql params cn tables r columns rows n. database en data = Inr cn \<and> inventory en cn = Inr tables \<and>
    en_execute en (cn\<lparr>cn_authorizer := read_authorizer (Some tables)\<rparr>) sql params = Inr r \<and>
    sr_description r = Some columns \<and> snd (sr_rows r) = None \<and>
    map_res (map_res cell) (fst (sr_rows r)) = Inr rows \<and>
    qa_max_rows args = JInt n \<and> int (length rows) \<le> n \<and> n \<le> 10000 \<and>
    jget context ''sql'' = JStr sql \<and> jget context ''database_sha256'' = JStr (sha data) \<and>
    jget context ''row_count'' = JInt (int (length rows)) \<and>
    (\<exists>items. jget context ''parameters'' = JArr items \<and> map_res parameter items = Inr params) \<and>
    output = (if qa_csv args then query_csv columns rows
              else pretty (JObj (dmerge context [(u ''rows'', JArr (map JArr rows))])))"
proof -
  let ?c = "\<lambda>sql_raw sql raw items columns (result :: json list list) m.
    [(u ''schema'', JStr (u ''moonfort.sqlite-query.v1'')), (u ''source'', JObj source), (u ''operation'', JStr (u ''query'')),
        (u ''sqlite_version'', JStr (en_version en)), (u ''database_sha256'', JStr (sha data)),
        (u ''sql_sha256'', JStr (sha sql_raw)), (u ''sql_size_bytes'', JInt (int (length sql_raw))), (u ''sql'', JStr sql),
        (u ''parameters_sha256'', JStr (sha raw)), (u ''parameters_size_bytes'', JInt (int (length raw))),
        (u ''parameters'', JArr items), (u ''columns'', JArr (map JStr columns)), (u ''row_count'', JInt (int (length result))),
        (u ''max_rows'', JInt (int m)), (u ''complete'', JBool True), (u ''ordering'', JStr query_ordering),
        (u ''meaning'', JStr query_meaning)]"
  from assms obtain sql_raw sql raw items params m cn columns result where
    req: "query_request raw (sha data) = Inr (items, params)" and m: "row_bound (qa_max_rows args) = Inr m"
    and cn: "database en data = Inr cn" and rows: "query_rows en cn sql params m = Inr (columns, result)"
    and out: "rbind (if qa_csv args then Inr (query_csv columns result)
        else finite_text (JObj (dmerge (?c sql_raw sql raw items columns result m) [(u ''rows'', JArr (map JArr result))])) pretty)
          (\<lambda>output. Inr (?c sql_raw sql raw items columns result m, output)) = Inr (context, output)"
    unfolding query_output_def rbind_eq_Inr split_paired_Ex prod.case Let_def by blast
  define c where "c = ?c sql_raw sql raw items columns result m"
  from out have ctx: "context = c" and written: "output = (if qa_csv args then query_csv columns result
      else pretty (JObj (dmerge c [(u ''rows'', JArr (map JArr result))])))"
    unfolding c_def [symmetric] by (auto simp: res_simps finite_text_def split: if_splits)
  have fields: "jget c ''sql'' = JStr sql" "jget c ''database_sha256'' = JStr (sha data)"
      "jget c ''row_count'' = JInt (int (length result))" "jget c ''parameters'' = JArr items"
    by (simp_all add: c_def jget_def)
  from m obtain n where n: "qa_max_rows args = JInt n" "n \<le> 10000" "1 \<le> n" "m = nat n"
    by (auto simp: row_bound_def res_simps split: json.splits)
  have params: "map_res parameter items = Inr params" using req by (auto simp: query_request_def res_simps)
  from rows obtain tables r where "inventory en cn = Inr tables"
    "en_execute en (cn\<lparr>cn_authorizer := read_authorizer (Some tables)\<rparr>) sql params = Inr r"
    "sr_description r = Some columns" "snd (sr_rows r) = None"
    "map_res (map_res cell) (fst (sr_rows r)) = Inr result" "length result \<le> m" by (rule query_rows_Inr)
  then show ?thesis using cn params n written fields
    unfolding ctx by (intro exI [of _ sql] exI [of _ params] exI [of _ cn] exI [of _ tables] exI [of _ r] exI [of _ columns]
        exI [of _ result] exI [of _ n]) auto
qed

text \<open>The query \<open>SELECT 1\<close> on the copy of \<open>keyed_file\<close>.\<close>

definition query_engine :: engine where
  "query_engine = keyed_engine\<lparr>en_execute := \<lambda>_ _ _. Inr \<lparr>sr_description = Some [u ''x''], sr_rows = ([[SInt 1], [SNull]], None)\<rparr>\<rparr>"

definition query_document :: json where
  "query_document = JObj [(u ''database_sha256'', JStr (sha keyed_file)), (u ''parameters'', JArr [])]"

definition sample_query :: query_args where
  "sample_query = \<lparr>qa_sql = FromFile (Inr (bs ''SELECT 1'')), qa_parameters = Supplied (utf8_bytes (compact query_document)),
     qa_max_rows = JInt 2, qa_csv = True\<rparr>"

lemma hex_plain:
  assumes "list_all is_hex_lower s"
  shows "dump_string a s = [34] @ s @ [34]" "list_all is_scalar s" "length (utf8_bytes s) = length s"
proof -
  have small: "list_all (\<lambda>c. c < 128) s" using assms by (rule list.pred_mono_strong) (auto simp: is_hex_lower_def is_digit_def)
  have "concat (map (escape_char a) s) = s" using assms by (induction s) (auto simp: escape_char_def is_hex_lower_def is_digit_def)
  then show "dump_string a s = [34] @ s @ [34]" by (simp add: dump_string_def)
  show "list_all is_scalar s" using small by (rule list.pred_mono_strong) (simp add: is_scalar_def)
  show "length (utf8_bytes s) = length s" using small by (induction s) (simp_all add: utf8_bytes_def utf8_char_def)
qed

lemma query_document_ok:
  "decode (utf8_bytes (compact query_document)) = Inr query_document" "length (utf8_bytes (compact query_document)) \<le> 1000"
proof -
  have hex: "list_all is_hex_lower (sha keyed_file)" "length (sha keyed_file) = 64"
    using re_hex64_sha [of keyed_file] by (simp_all add: re_hex64_def)
  note plain = hex_plain [OF hex(1)]
  show "decode (utf8_bytes (compact query_document)) = Inr query_document"
    by (rule compact_bytes.roundtrip) (use plain(2) in \<open>simp add: query_document_def list_all_iff char_ok_def; simp add: u_def is_scalar_def\<close>)
  have "compact query_document = [123] @ dump_string False (u ''database_sha256'') @ [58, 34] @ sha keyed_file @ [34, 44] @ dump_string False (u ''parameters'') @ [58, 91, 93, 125]"
    by (simp add: query_document_def plain(1) [unfolded dump_string_def] dump_string_def) (simp add: compact_style_def)
  then show "length (utf8_bytes (compact query_document)) \<le> 1000"
    by (simp only: utf8_bytes_append length_append plain(3) hex(2))
       (simp add: u_def dump_string_def escape_char_def utf8_bytes_def utf8_char_def)
qed

theorem query_complete_witness:
  "\<exists>context output rows. query_output query_engine sample_query keyed_file [] = Inr (context, output) \<and>
     jget context ''row_count'' = JInt 2 \<and> output = query_csv [u ''x''] rows \<and> length rows = 2"
proof -
  obtain cn where cn: "database query_engine keyed_file = Inr cn"
    by (simp add: database_def query_engine_def keyed_engine_def keyed_file_def MAX_REPORT_def sqlite_magic_def bs_def)
  have inv: "inventory query_engine cn = Inr [pair_table]"
    by (rule pair_inventory_of) (simp_all add: query_engine_def keyed_engine_def pair_engine_def sample_engine_def)
  have sql: "query_sql (bs ''SELECT 1'') = Inr (u ''SELECT 1'')"
    by (simp add: query_sql_def utf8_decode_def bs_def u_def strip_def is_space_def)
  have len: "length (bs ''SELECT 1'') = 8" by (simp add: bs_def)
  have req: "query_request (utf8_bytes (compact query_document)) (sha keyed_file) = Inr ([], [])"
    unfolding query_request_def query_document_ok(1) by (simp add: query_document_def jkeys_def jget_def insert_commute)
  have small: "list_all (\<lambda>row. \<exists>b. utf8_encode (dumps plain_style (JArr row)) = Inr b \<and> length b \<le> 1000)
      [[typed ''integer'' (JStr (u ''1''))], [typed ''null'' JNull]]"
    by (simp add: typed_def utf8_encode_def)
       (simp add: u_def plain_style_def dump_string_def escape_char_def is_scalar_def utf8_bytes_def utf8_char_def)
  have int: "str_int 1 = u ''1''" by (simp add: str_int_def u_def str_nat.simps [of "Suc 0"])
  have "\<exists>n. for_rows (query_step 2) ([], 0) ([[SInt 1], [SNull]], None) =
      Inr ([[typed ''integer'' (JStr (u ''1''))], [typed ''null'' JNull]], n)"
    using small by (auto simp: for_rows_def query_step_def int MAX_OUTPUT_def simp del: dumps.simps)
  then obtain n where rows: "for_rows (query_step 2) ([], 0) ([[SInt 1], [SNull]], None) =
      Inr ([[typed ''integer'' (JStr (u ''1''))], [typed ''null'' JNull]], n)" ..
  have table: "query_rows query_engine cn (u ''SELECT 1'') [] 2 = Inr ([u ''x''], [[typed ''integer'' (JStr (u ''1''))], [typed ''null'' JNull]])"
    unfolding query_rows_def inv by (simp add: query_engine_def rows)
  have "\<exists>context output. query_output query_engine sample_query keyed_file [] = Inr (context, output)"
    using query_document_ok(2)
    by (simp add: query_output_def sample_query_def load_input_def read_file_def MAX_SELECTION_def sql req row_bound_def cn table Let_def len)
  then obtain ctx out where run: "query_output query_engine sample_query keyed_file [] = Inr (ctx, out)" by blast
  from query_complete [OF run] obtain cn' tables sql' params and r :: statement_result and columns rows where
    "en_execute query_engine (cn'\<lparr>cn_authorizer := read_authorizer (Some tables)\<rparr>) sql' params = Inr r"
    "sr_description r = Some columns" "map_res (map_res cell) (fst (sr_rows r)) = Inr rows"
    "jget ctx ''row_count'' = JInt (int (length rows))" "out = query_csv columns rows"
    by (auto simp: sample_query_def)
  moreover from this have "length rows = 2" "columns = [u ''x'']"
    by (auto simp: query_engine_def dest: map_res_length)
  ultimately show ?thesis using run by auto
qed

end
