(* ===== verification/Refusals.thy ===== *)
theory Refusals
  imports Review
begin

section \<open>What the SQLite commands refuse\<close>

text \<open>
  Which exceptions the operations on a retained copy raise, proved once for the command and for the
  workbench: the locale \<open>refusals\<close> is what an \<open>except\<close> clause must catch, and which documents it lets
  pass on as bytes. Its lemmas follow the operations from cells to whole pages; they need of SQLite that
  it raises only what is caught and that a \<open>SELECT\<close> delivers as many values as it names columns.
\<close>

subsection \<open>Refusals with a text that can be encoded\<close>

definition plain_error :: "pyerr \<Rightarrow> bool" where
  "plain_error e \<longleftrightarrow> is_value_error e \<and> (case e of ValueError m \<Rightarrow> text_scalar m | _ \<Rightarrow> True)"

lemma plain_error_simps [simp]:
  "plain_error (ValueError m) \<longleftrightarrow> text_scalar m" "plain_error JSONDecodeError" "plain_error UnicodeError"
  "plain_error IntDigitsError" "plain_error Base64Error"
  by (simp_all add: plain_error_def)

lemma text_scalar_u [simp]: "text_scalar (u s)"
  by (simp add: text_scalar_def)

lemma plain_cell: "raises_only plain_error (cell v)"
  by (cases v) (auto intro!: raises)

lemma plain_b64decode: "raises_only plain_error (b64decode s)"
  by (induction s rule: b64decode.induct) (auto split: option.splits intro!: raises)

lemma plain_float: "raises_only plain_error (float_of_text s)"
  by (auto simp: float_of_text_def split: option.splits prod.splits list.splits)

lemma plain_py_int: "raises_only plain_error (py_int s)"
  by (auto simp: py_int_def Let_def)

lemma plain_parameter: "raises_only plain_error (parameter v)"
  unfolding parameter_def Let_def
  by (auto simp: plain_py_int plain_b64decode plain_float split: json.splits intro!: raises)

lemma plain_quoted: "raises_only plain_error (quoted v)"
  by (auto simp: quoted_def split: json.splits intro!: raises)

lemma plain_encode: "raises_only plain_error (utf8_encode s)"
  by (auto simp: utf8_encode_def)

lemma plain_utf8: "raises_only plain_error (utf8_decode data)"
  by (auto simp: utf8_decode_def intro!: raises_or_raise)

lemma plain_finite: "raises_only plain_error (finite_text v w)"
  unfolding finite_text_def by (intro raises) simp_all

lemma plain_wanted: "raises_only plain_error (want_dict v (u m))" "raises_only plain_error (want_list v (u m))"
  by (simp_all add: want_dict_def want_list_def raises_or_raise)

lemma plain_index: "text_scalar name \<Longrightarrow> raises_only plain_error (index_of columns name)"
  by (induction columns) (auto intro!: raises)

lemma index_of_bound: "index_of columns name = Inr i \<Longrightarrow> i < length columns"
  by (induction columns arbitrary: i) (auto simp: res_simps split: if_splits)

lemma plain_item: "p < length xs \<Longrightarrow> raises_only Q (item_at xs p)"
  by (simp add: item_at_def)

lemmas plain_basic = plain_wanted plain_cell plain_parameter plain_quoted plain_encode plain_utf8 plain_finite

subsection \<open>SQLite\<close>

definition cursor_raises :: "(pyerr \<Rightarrow> bool) \<Rightarrow> 'r cursor \<Rightarrow> bool" where
  "cursor_raises P c = (case snd c of None \<Rightarrow> True | Some e \<Rightarrow> P e)"

definition engine_raises :: "(pyerr \<Rightarrow> bool) \<Rightarrow> engine \<Rightarrow> bool" where
  "engine_raises P en \<longleftrightarrow>
     (\<forall>data. raises_only P (en_open en data)) \<and>
     (\<forall>cn q. cursor_raises P (en_table_list en cn q) \<and> cursor_raises P (en_table_xinfo en cn q) \<and> cursor_raises P (en_foreign_key_list en cn q)) \<and>
     (\<forall>cn q ps. raises_only P (en_execute en cn q ps)) \<and>
     (\<forall>cn q ps r. en_execute en cn q ps = Inr r \<longrightarrow> cursor_raises P (sr_rows r))"

lemma engine_cursors:
  "engine_raises P en \<Longrightarrow> cursor_raises P (en_table_list en cn q)"
  "engine_raises P en \<Longrightarrow> cursor_raises P (en_table_xinfo en cn q)"
  "engine_raises P en \<Longrightarrow> cursor_raises P (en_foreign_key_list en cn q)"
  "engine_raises P en \<Longrightarrow> raises_only P (en_execute en cn q ps)"
  "engine_raises P en \<Longrightarrow> en_execute en cn q ps = Inr r \<Longrightarrow> cursor_raises P (sr_rows r)"
  by (auto simp: engine_raises_def)

lemma engine_stop: "engine_raises P en \<Longrightarrow> en_execute en cn q ps = Inr r \<Longrightarrow> snd (sr_rows r) = Some e \<Longrightarrow> P e"
  by (drule engine_cursors(5)) (auto simp: cursor_raises_def)

lemma cursor_loop [raises]:
  assumes "cursor_raises P c" "\<And>s r. raises_only P (f s r)"
  shows "raises_only P (for_rows f s c)"
  using assms by (intro for_rows_raises) (auto simp: cursor_raises_def)

lemma raises_sum [raises]:
  "raises_only P m \<Longrightarrow> (\<And>x. m = Inr x \<Longrightarrow> raises_only P (f x)) \<Longrightarrow> raises_only P (case m of Inl e \<Rightarrow> Inl e | Inr x \<Rightarrow> f x)"
  by (cases m) auto

text \<open>A loop that raises only \<open>P\<close> while an invariant holds.\<close>

definition step_raises :: "(pyerr \<Rightarrow> bool) \<Rightarrow> ('s \<Rightarrow> bool) \<Rightarrow> 's res \<Rightarrow> bool" where
  "step_raises P I m = (case m of Inl e \<Rightarrow> P e | Inr s \<Rightarrow> I s)"

lemma step_raises_simps [simp]: "step_raises P I (Inl e) = P e" "step_raises P I (Inr s) = I s"
  by (simp_all add: step_raises_def)

lemma step_raisesI: "raises_only P m \<Longrightarrow> (\<And>s. m = Inr s \<Longrightarrow> I s) \<Longrightarrow> step_raises P I m"
  by (cases m) auto

lemma fold_step_raises:
  "I s \<Longrightarrow> (\<And>s x. x \<in> set xs \<Longrightarrow> I s \<Longrightarrow> step_raises P I (f s x)) \<Longrightarrow> raises_only P (fold_res f s xs)"
proof (induction xs arbitrary: s)
  case (Cons x xs)
  from Cons.prems have "step_raises P I (f s x)" by simp
  with Cons show ?case by (cases "f s x") auto
qed simp

lemma loop_step_raises:
  assumes "cursor_raises P c" "I s" "\<And>s r. r \<in> set (fst c) \<Longrightarrow> I s \<Longrightarrow> step_raises P I (f s r)"
  shows "raises_only P (for_rows f s c)"
  using fold_step_raises [where I = I and xs = "fst c" and f = f and s = s and P = P] assms
  by (cases c) (auto simp: for_rows_def cursor_raises_def split: option.splits intro!: raises)

text \<open>A \<open>SELECT\<close> of named columns delivers one value for each of them.\<close>

definition engine_widths :: "engine \<Rightarrow> bool" where
  "engine_widths en \<longleftrightarrow>
     (\<forall>cn columns names rest ps r vals. quoted_names columns = Inr names \<longrightarrow>
        en_execute en cn (u ''SELECT '' @ join (u '', '') names @ u '' FROM main.'' @ rest) ps = Inr r \<longrightarrow>
        vals \<in> set (fst (sr_rows r)) \<longrightarrow> length vals = length columns)"

lemma scan_width:
  assumes "engine_widths en" "scan_query sel locator = Inr (query, params)" "en_execute en cn query params = Inr r"
    "vals \<in> set (fst (sr_rows r))"
  shows "length vals = length locator + length (sl_columns sel)"
proof -
  from assms(2) obtain names rest where "quoted_names (locator @ sl_columns sel) = Inr names"
    "query = u ''SELECT '' @ join (u '', '') names @ u '' FROM main.'' @ rest"
    by (auto simp: scan_query_def res_simps)
  with assms(1,3,4) have "length vals = length (locator @ sl_columns sel)" unfolding engine_widths_def by blast
  then show ?thesis by simp
qed

definition input_raises :: "(pyerr \<Rightarrow> bool) \<Rightarrow> input \<Rightarrow> bool" where
  "input_raises P i = (case i of FromFile f \<Rightarrow> raises_only P f | Supplied _ \<Rightarrow> True)"

subsection \<open>What an \<open>except\<close> clause catches\<close>

locale refusals =
  fixes P :: "pyerr \<Rightarrow> bool" and clean :: "json \<Rightarrow> bool"
  assumes plain: "plain_error e \<Longrightarrow> P e"
    and lookups: "P TypeError" "P KeyError"
    and clean_get: "clean (JObj d) \<Longrightarrow> clean (jget d k)"
    and clean_text: "text_scalar s \<Longrightarrow> clean (JStr s)"
    and clean_list: "list_all clean vs \<Longrightarrow> clean (JArr vs)"
    and clean_object: "distinct (map fst d) \<Longrightarrow> list_all (\<lambda>(k, v). text_scalar k \<and> clean v) d \<Longrightarrow> clean (JObj d)"
    and clean_request: "clean (JObj d) \<Longrightarrow> raises_only P (decode (request_bytes d))"
    and clean_compact: "clean v \<Longrightarrow> utf8_encode (compact v) = Inr raw \<Longrightarrow> raises_only P (decode raw)"
begin

lemma refusal [simp]: "text_scalar m \<Longrightarrow> P (ValueError m)"
  by (simp add: plain)

lemma weak: "raises_only plain_error m \<Longrightarrow> raises_only P m"
  by (erule raises_only_weaken) (rule plain)

lemmas basic = plain_basic [THEN weak]

lemma open_raises: "engine_raises P en \<Longrightarrow> raises_only P (database en data)"
  unfolding database_def engine_raises_def by (intro raises) auto

lemma foreign_keys_raises: "engine_raises P en \<Longrightarrow> raises_only P (foreign_keys en cn table)"
  unfolding foreign_keys_def fk_step_def Let_def
  by (intro raises basic engine_cursors) simp_all

lemma inventory_raises: "engine_raises P en \<Longrightarrow> raises_only P (inventory en cn)"
  unfolding inventory_def table_step_def xinfo_step_def Let_def
  by (intro raises basic engine_cursors foreign_keys_raises) simp_all

lemma names_raises: "raises_only P (quoted_names names)"
  unfolding quoted_names_def by (intro raises basic)

lemma filters_raises: "raises_only P (filter_predicates items)"
  unfolding filter_predicates_def filter_item_def filter_text_def filter_between_def filter_threshold_def want_dict_def Let_def
  by (intro raises basic) simp_all

lemma select_value_raises: "raises_only P (select_value v tables)"
  unfolding select_value_def want_dict_def want_list_def order_step_def row_locator_def Let_def
  by (intro raises basic filters_raises) simp_all

lemma recipe_raises: "raises_only P (decode raw) \<Longrightarrow> raises_only P (selection_recipe raw tables)"
  unfolding selection_recipe_def by (intro raises select_value_raises)

lemma anchor_filter_raises: "raises_only P (anchor_filter columns vals prefix)"
  unfolding anchor_filter_def want_list_def by (intro raises basic names_raises) simp_all

lemma selection_query_raises: "raises_only P (selection_query recipe locator reference link)"
  unfolding selection_query_def incoming_condition_def order_texts_def Let_def
  by (intro raises basic names_raises filters_raises anchor_filter_raises) simp_all

lemma selected_rows_raises: "engine_raises P en \<Longrightarrow> raises_only P (selected_rows en cn recipe locator offset limit reference link)"
  unfolding selected_rows_def row_step_def
  by (intro raises basic selection_query_raises engine_cursors) simp_all

lemma anchor_row_raises: "engine_raises P en \<Longrightarrow> raises_only P (anchor_row en cn table columns locator_columns locator)"
  unfolding anchor_row_def
  by (intro raises basic names_raises anchor_filter_raises engine_cursors)
     (auto simp: cursor_raises_def dest: engine_cursors(5) split: option.splits)

lemma resolve_raises: "raises_only P (resolve_relationship rel child tables)"
  unfolding resolve_relationship_def resolve_names_def Let_def by (intro raises) simp_all

lemma listed_raises:
  assumes "selection_recipe raw tables = Inr (recipe, locator, kind)"
  shows "raises_only P (or_raise StopIteration (find_table tables (sl_table recipe)))"
  using assms by (auto elim!: selection_recipe_Inr)

text \<open>Requests that pass parts of themselves on.\<close>

definition clean_tables :: "schema_object list \<Rightarrow> bool" where
  "clean_tables tables \<longleftrightarrow> (\<forall>t \<in> set tables. clean (JStr (so_name t)))"

lemma clean_table: "clean v \<Longrightarrow> clean (JObj [(u ''table'', v)])"
  by (rule clean_object) simp_all

lemma clean_member: "clean (JObj d) \<Longrightarrow> dget d (u k) = Some v \<Longrightarrow> clean v"
  using clean_get [of d k] by (simp add: jget_def)

lemma clean_fields:
  assumes "clean (JObj d)" "clean v" "distinct keys" "''table'' \<notin> set keys"
  shows "clean (JObj ((u ''table'', v) # copy_fields keys d))"
proof (rule clean_object)
  have k: "map fst (copy_fields keys d) = map u (filter (\<lambda>k. dget d (u k) \<noteq> None) keys)"
    by (induction keys) (auto simp: copy_fields_def List.map_filter_simps)
  show "distinct (map fst ((u ''table'', v) # copy_fields keys d))"
    using assms(3,4) by (auto simp: k distinct_map inj_on_def)
  show "list_all (\<lambda>(k, v). text_scalar k \<and> clean v) ((u ''table'', v) # copy_fields keys d)"
    using assms(2) clean_member [OF assms(1)] by (auto simp: copy_fields_def list_all_iff List.map_filter_def)
qed

definition clean_raw :: "bytes \<Rightarrow> bool" where
  "clean_raw raw \<longleftrightarrow> raises_only P (decode raw) \<and> (\<forall>d. decode raw = Inr (JObj d) \<longrightarrow> clean (JObj d))"

lemma clean_rawD:
  "clean_raw raw \<Longrightarrow> raises_only P (decode raw)"
  "clean_raw raw \<Longrightarrow> decode raw = Inr v \<Longrightarrow> want_dict v m = Inr d \<Longrightarrow> clean (JObj d)"
  by (cases v; auto simp: clean_raw_def want_dict_def jbody_def res_simps)+

lemma request_raises: "clean (JObj d) \<Longrightarrow> raises_only P (selection_recipe (request_bytes d) tables)"
  by (intro recipe_raises clean_request)

lemma part_raises:
  assumes "clean_raw raw" "decode raw = Inr v" "want_dict v m = Inr d"
  shows "raises_only P (selection_recipe (request_bytes [(u ''table'', jget d k)]) tables)"
    "distinct keys \<Longrightarrow> ''table'' \<notin> set keys \<Longrightarrow>
      raises_only P (selection_recipe (request_bytes ((u ''table'', jget d k) # copy_fields keys d)) tables)"
    "distinct keys \<Longrightarrow> ''table'' \<notin> set keys \<Longrightarrow> clean (JStr s) \<Longrightarrow>
      raises_only P (selection_recipe (request_bytes ((u ''table'', JStr s) # copy_fields keys d)) tables)"
  using clean_rawD(2) [OF assms] by (auto intro!: request_raises clean_table clean_fields clean_get)

lemma clean_parent:
  "resolve_relationship rel child tables = Inr (cs, parent, ps) \<Longrightarrow> clean_tables tables \<Longrightarrow> clean (JStr (so_name parent))"
  by (auto simp: clean_tables_def dest: resolve_relationship_Inr)

lemma referencing_raises:
  assumes "engine_raises P en" "clean_raw raw"
  shows "raises_only P (referencing_rows en cn raw tables offset limit fingerprint)"
  unfolding referencing_rows_def referencing_status_def Let_def
  by (intro raises basic part_raises [OF assms(2)] clean_rawD(1) resolve_raises anchor_row_raises selected_rows_raises listed_raises assms) simp_all

lemma related_raises:
  assumes "engine_raises P en" "clean_raw raw" "clean_tables tables"
  shows "raises_only P (relation_rows en cn raw tables offset limit fingerprint)"
  unfolding relation_rows_def related_status_def Let_def
  by (intro raises basic part_raises [OF assms(2)] clean_rawD(1) names_raises resolve_raises anchor_row_raises selected_rows_raises
        listed_raises engine_cursors assms clean_parent [OF _ assms(3)])
     (auto simp: cursor_raises_def dest: engine_cursors(5) [OF assms(1)] split: list.splits option.splits)

lemma plain_page_raises:
  "engine_raises P en \<Longrightarrow> raises_only P (decode raw) \<Longrightarrow> raises_only P (plain_page en cn raw tables offset limit)"
  unfolding plain_page_def by (intro raises recipe_raises selected_rows_raises) simp_all

text \<open>Scans.\<close>

lemma scan_raises:
  assumes "engine_raises P en" "engine_widths en" "I s"
    and body: "\<And>s row vals. I s \<Longrightarrow> length (rc_values row) = length (sl_columns sel) \<Longrightarrow> length vals = length (sl_columns sel) \<Longrightarrow>
      step_raises P I (body s row vals)"
  shows "raises_only P (scan en cn sel locator body s)"
proof -
  have query: "raises_only P (scan_query sel locator)"
    unfolding scan_query_def by (intro raises basic names_raises filters_raises) simp
  have step: "step_raises P (\<lambda>(count, scanned, s). I s) (scan_step (length locator) body acc vals)"
    if "case acc of (count, scanned, s) \<Rightarrow> I s" "length vals = length locator + length (sl_columns sel)" for acc vals
  proof -
    obtain count scanned s where acc: "acc = (count, scanned, s)" by (cases acc)
    have b: "step_raises P I (body s row (drop (length locator) vals))"
      if "map_res cell (drop (length locator) vals) = Inr (rc_values row)" for row
      using body [of s row "drop (length locator) vals"] map_res_length [OF that] \<open>case acc of (count, scanned, s) \<Rightarrow> I s\<close>
        \<open>length vals = length locator + length (sl_columns sel)\<close> by (simp add: acc)
    have r: "raises_only P (body s \<lparr>rc_locator = loc, rc_values = cells\<rparr> (drop (length locator) vals))"
      if "map_res cell (drop (length locator) vals) = Inr cells" for loc cells
      using b [of "\<lparr>rc_locator = loc, rc_values = cells\<rparr>"] that
      by (cases "body s \<lparr>rc_locator = loc, rc_values = cells\<rparr> (drop (length locator) vals)") auto
    show ?thesis
    proof (rule step_raisesI)
      show "raises_only P (scan_step (length locator) body acc vals)"
        unfolding scan_step_def encoded_size_def Let_def acc prod.case by (intro raises basic r) simp_all
    next
      fix t assume "scan_step (length locator) body acc vals = Inr t"
      then obtain loc cells k n s' where "map_res cell (drop (length locator) vals) = Inr cells" "t = (k, n, s')"
          "body s \<lparr>rc_locator = loc, rc_values = cells\<rparr> (drop (length locator) vals) = Inr s'"
        by (auto simp: scan_step_def acc Let_def res_simps)
      with b [of "\<lparr>rc_locator = loc, rc_values = cells\<rparr>"] show "case t of (count, scanned, s) \<Rightarrow> I s" by simp
    qed
  qed
  have loop: "raises_only P (for_rows (scan_step (length locator) body) (0, 0, s) (sr_rows r))"
    if "scan_query sel locator = Inr (query, params)" "en_execute en cn query params = Inr r" for query params r
    by (rule loop_step_raises [where I = "\<lambda>(count, scanned, s). I s"])
       (use engine_cursors(5) [OF assms(1) that(2)] assms(3) step scan_width [OF assms(2) that] in auto)
  show ?thesis unfolding scan_def by (intro raises_rbind raises_prod query loop engine_cursors assms) simp_all
qed

text \<open>Cross tables and histograms.\<close>

lemma fresh_raises: "engine_raises P en \<Longrightarrow> clean (JObj d) \<Longrightarrow> raises_only P (fresh_recipe en cn d)"
  unfolding fresh_recipe_def by (intro raises basic inventory_raises recipe_raises clean_compact)

lemma clean_where: "clean (JObj d) \<Longrightarrow> list_all clean columns \<Longrightarrow> clean (JObj (request_where d columns))"
  unfolding request_where_def
  by (rule clean_object) (auto simp: clean_get clean_list jget_or_def clean_member split: option.splits)

lemma fresh_scalar:
  assumes "fresh_recipe en cn (request_where d columns) = Inr r" "JStr name \<in> set columns"
  shows "text_scalar name"
proof -
  from assms(1) have "text_scalar (compact (JObj (request_where d columns)))"
    by (auto simp: fresh_recipe_def rbind_eq_Inr utf8_encode_def text_scalar_def split: if_splits simp del: dumps.simps)
  then have "jscalar (JObj (request_where d columns))" by (rule scalar_dumps [rotated]) (simp add: compact_style_def)
  with assms(2) show ?thesis by (cases "columns = []") (auto simp: request_where_def list_all_iff text_scalar_def)
qed

lemma clean_parts:
  assumes "clean_raw raw" "decode raw = Inr (JObj d)"
  shows "clean (JObj (request_where d []))" "clean (JObj (request_where d [jget d k]))"
    "jget d k = a \<Longrightarrow> jget d l = b \<Longrightarrow> clean (JObj (request_where d [a, b]))"
  using assms clean_get by (auto simp: clean_raw_def intro!: clean_where)

lemma crosstab_raises:
  assumes "engine_raises P en" "engine_widths en" "clean_raw raw"
  shows "raises_only P (crosstab en cn raw fingerprint)"
proof -
  have scan: "raises_only P (scan en cn sel locator (crosstab_step i j) crosstab_start)"
    if "index_of (sl_columns sel) a = Inr i" "index_of (sl_columns sel) b = Inr j" for sel locator i j a b
    by (rule scan_raises [where I = "\<lambda>_. True", OF assms(1,2)])
       (use that in \<open>auto simp: crosstab_step_def Let_def intro!: step_raisesI raises plain_item dest: index_of_bound\<close>)
  have index: "raises_only P (index_of names name)"
    if "fresh_recipe en cn (request_where d [JStr a, JStr b]) = Inr r" "name \<in> {a, b}" for names name d a b r
    using that by (intro weak [OF plain_index] fresh_scalar) auto
  show ?thesis unfolding crosstab_def
    by (intro raises basic clean_rawD(1) fresh_raises scan assms) (auto simp: res_simps intro: clean_parts [OF assms(3)] index)
qed

lemma hist_step_raises:
  assumes "strictly_increasing numeric" "position < length (rc_values row)" "position < length vals"
    "length (hs_bands st) = Suc (length numeric)"
  shows "step_raises P (\<lambda>st. length (hs_bands st) = Suc (length numeric)) (hist_step position numeric st row vals)"
proof -
  have "bisect_right numeric x < length (hs_bands st)" for x
    using bisect_right_splits [of numeric x] assms(1,4) by (simp add: splits_at_def strictly_increasing_iff)
  with assms(2,3,4) lookups show ?thesis
    by (cases "dget (hs_excluded st) (type_name (rc_values row ! position))") (simp_all add: hist_step_def item_at_def Let_def)
qed

lemma edge_values_raises: "raises_only P (map_res edge_value edges)"
  unfolding edge_value_def by (intro raises basic) simp_all

lemma distribution_raises:
  assumes "engine_raises P en" "engine_widths en" "clean_raw raw"
  shows "raises_only P (distribution en cn raw fingerprint)"
proof -
  have scan: "raises_only P (scan en cn sel locator (hist_step position numeric) (hist_start n))"
    if "index_of (sl_columns sel) a = Inr position" "strictly_increasing numeric" "length numeric = n" for sel locator position numeric n a
    by (rule scan_raises [where I = "\<lambda>st. length (hs_bands st) = Suc (length numeric)", OF assms(1,2)])
       (use index_of_bound [OF that(1)] that(2,3) in \<open>auto simp: hist_start_def intro!: hist_step_raises\<close>)
  have index: "raises_only P (index_of names name)"
    if "fresh_recipe en cn (request_where d [JStr name]) = Inr r" for names name d r
    using that by (intro weak [OF plain_index] fresh_scalar) auto
  show ?thesis unfolding distribution_def
    by (intro raises basic clean_rawD(1) fresh_raises edge_values_raises scan assms)
       (auto simp: res_simps intro: clean_parts [OF assms(3)] index dest: map_res_length)
qed

text \<open>Custom queries.\<close>

lemma file_raises: "raises_only P f \<Longrightarrow> raises_only P (read_file f n)"
  unfolding read_file_def Let_def by (intro raises) simp_all

lemma input_loaded: "input_raises P i \<Longrightarrow> raises_only P (load_input i (u m))"
  by (cases i) (auto simp: load_input_def input_raises_def intro!: raises file_raises)

lemma query_rows_raises: "engine_raises P en \<Longrightarrow> raises_only P (query_rows en cn sql params m)"
  unfolding query_rows_def query_step_def
  by (intro raises basic inventory_raises engine_cursors) (simp_all add: engine_stop)

lemma query_output_raises:
  assumes "engine_raises P en" "input_raises P (qa_sql args)" "input_raises P (qa_parameters args)"
    "\<And>m raw. load_input (qa_parameters args) m = Inr raw \<Longrightarrow> raises_only P (decode raw)"
  shows "raises_only P (query_output en args data source)"
proof -
  have "raises_only P (query_request raw fingerprint)" if "raises_only P (decode raw)" for raw fingerprint
    unfolding query_request_def by (intro raises basic that) simp_all
  moreover have "raises_only P (row_bound v)" for v
    by (auto simp: row_bound_def split: json.splits intro!: raises)
  moreover have "raises_only P (query_sql raw)" for raw
    unfolding query_sql_def by (intro raises basic) simp_all
  ultimately show ?thesis unfolding query_output_def Let_def
    by (intro raises basic input_loaded query_rows_raises open_raises assms(1-3)) (simp_all add: assms(4))
qed

end

subsection \<open>The \<open>except\<close> clause of the command\<close>

lemma value_sqlite: "raises_only is_value_error m \<Longrightarrow> raises_only sqlite_error m"
  by (erule raises_only_weaken) (simp add: sqlite_error_def)

interpretation command: refusals sqlite_error "\<lambda>_. True"
  by unfold_locales (auto simp: sqlite_error_def plain_error_def intro: value_sqlite decode_raises)

subsection \<open>An engine of null rows\<close>

text \<open>It counts the identifiers a \<open>SELECT\<close> names, and answers with one row of as many nulls.\<close>

fun listed_names :: "nat \<Rightarrow> ustr \<Rightarrow> nat" where
  "listed_names 0 s = 0"
| "listed_names (Suc n) s =
     (case lex_identifier s of None \<Rightarrow> 0
      | Some (_, r) \<Rightarrow> if starts_with r (u '', '') then Suc (listed_names n (drop 2 r)) else 1)"

definition null_engine :: engine where
  "null_engine = keyed_engine\<lparr>en_execute := \<lambda>_ q _.
     if starts_with q (u ''SELECT '')
     then Inr \<lparr>sr_description = Some [u ''x''], sr_rows = ([replicate (listed_names (length q) (drop 7 q)) SNull], None)\<rparr>
     else Inl SqliteError\<rparr>"

lemma listed_names_quoted:
  "quoted_names columns = Inr names \<Longrightarrow> length columns \<le> n \<Longrightarrow>
   listed_names n (join (u '', '') names @ u '' FROM main.'' @ rest) = length columns"
proof (induction columns arbitrary: names n)
  case Nil
  then show ?case by (cases n) (simp_all add: quoted_names_def lex_identifier_def u_def)
next
  case (Cons c columns)
  then obtain k where n: "n = Suc k" "length columns \<le> k" by (cases n) auto
  from Cons.prems(1) obtain names' where names: "names = quote c # names'" "quoted_names columns = Inr names'"
    by (auto simp: quoted_names_def res_simps quoted_Inr)
  show ?case
  proof (cases columns)
    case Nil
    with names(2) have "names' = []" by (simp add: quoted_names_def)
    moreover have "lex_identifier (quote c @ u '' FROM main.'' @ rest) = Some (c, u '' FROM main.'' @ rest)"
      by (rule lex_identifier_quote) (simp add: u_def)
    ultimately show ?thesis by (simp add: n(1) names(1) Nil) (simp add: u_def)
  next
    case (Cons d ds)
    with names(2) obtain q qs where q: "names' = q # qs" by (auto simp: quoted_names_def res_simps)
    have "lex_identifier (quote c @ u '', '' @ join (u '', '') (q # qs) @ u '' FROM main.'' @ rest) =
        Some (c, u '', '' @ join (u '', '') (q # qs) @ u '' FROM main.'' @ rest)"
      by (rule lex_identifier_quote) (simp add: u_def)
    moreover have "starts_with (u '', '' @ r) (u '', '')" "drop 2 (u '', '' @ r) = r" for r by (simp_all add: u_def)
    ultimately show ?thesis using Cons.IH [OF names(2) n(2)] by (simp add: n(1) names(1) q)
  qed
qed

lemma quoted_names_length: "quoted_names columns = Inr names \<Longrightarrow> length columns \<le> length (join (u '', '') names)"
proof (induction columns arbitrary: names)
  case (Cons c columns)
  from Cons.prems obtain names' where names: "names = quote c # names'" "quoted_names columns = Inr names'"
    by (auto simp: quoted_names_def res_simps quoted_Inr)
  with Cons.IH [OF names(2)] show ?case by (cases names') (simp_all add: quote_def)
qed simp

lemma null_engine_widths: "engine_widths null_engine"
  unfolding engine_widths_def
proof (intro allI impI)
  fix cn columns names rest ps and r :: statement_result and vals
  let ?q = "u ''SELECT '' @ join (u '', '') names @ u '' FROM main.'' @ rest"
  assume q: "quoted_names columns = Inr names" and r: "en_execute null_engine cn ?q ps = Inr r" "vals \<in> set (fst (sr_rows r))"
  have s: "starts_with (u ''SELECT '' @ t) (u ''SELECT '')" "drop 7 (u ''SELECT '' @ t) = t" for t by (simp_all add: u_def)
  have "length columns \<le> length ?q" using quoted_names_length [OF q] by simp
  from r listed_names_quoted [OF q this, of rest] show "length vals = length columns"
    by (auto simp: null_engine_def s simp del: length_append)
qed

lemma null_engine_raises: "P SqliteError \<Longrightarrow> engine_raises P null_engine"
  by (simp add: engine_raises_def null_engine_def keyed_engine_def pair_engine_def sample_engine_def cursor_raises_def)

end
