(* ===== verification/ReviewTotal.thy ===== *)
theory ReviewTotal
  imports Refusals
begin

section \<open>The review command refuses, it does not crash\<close>

text \<open>
  The remaining parts of the command (summaries, comparisons of rows and of schemas, row pages), with the
  \<open>except\<close> clause of its main function: every sub-command either writes a bounded output that the sidecar
  names, or refuses. The lemmas rest on the interpretation of \<open>refusals\<close> for that clause.
\<close>

lemma sqlite_error_value [simp]: "sqlite_error (ValueError m)" "sqlite_error SqliteError"
  by (simp_all add: sqlite_error_def)

lemma review_sqlite: "raises_only review_error m \<Longrightarrow> raises_only sqlite_error m"
  by (erule raises_only_weaken) (simp add: sqlite_error_def)

lemmas command_basic = command.basic value_sqlite [OF decode_raises] value_sqlite [OF loads_raises]

lemma clean_anything [simp]: "command.clean_raw raw" "command.clean_tables tables"
  by (simp_all add: command.clean_raw_def command.clean_tables_def value_sqlite decode_raises)

lemma recipe_sqlite: "raises_only sqlite_error (selection_recipe raw tables)"
  by (intro command.recipe_raises command_basic)

lemma size_sqlite: "raises_only sqlite_error (encoded_size v)"
  unfolding encoded_size_def by (intro raises command_basic) simp

subsection \<open>Summaries\<close>

lemma index_sqlite: "raises_only sqlite_error (index_of names name)"
  by (induction names) (auto intro!: raises)

lemma positions_raises: "raises_only sqlite_error (positions columns names)"
  unfolding positions_def by (intro raises index_sqlite)

lemma positions_bound: "positions columns names = Inr ps \<Longrightarrow> p \<in> set ps \<Longrightarrow> p < length columns"
  unfolding positions_def by (drule map_res_member) (auto dest: index_of_bound)

lemma cells_raises: "(\<And>p. p \<in> set ps \<Longrightarrow> p < length (rc_values row)) \<Longrightarrow> raises_only sqlite_error (cells_at ps row)"
  unfolding cells_at_def by (intro raises plain_item)

lemma group_step_raises:
  assumes "\<And>p. p \<in> set ks \<union> set ms \<Longrightarrow> p < length (rc_values row) \<and> p < length vals"
  shows "raises_only sqlite_error (group_step ks ms acc row vals)"
  unfolding group_step_def add_row_def sample_at_def Let_def
  by (intro raises cells_raises plain_item) (use assms in \<open>auto dest: set_zip_rightD\<close>)

lemma groups_raises:
  assumes "engine_raises sqlite_error en" "engine_widths en"
  shows "raises_only sqlite_error (groups en cn request sel locator)"
proof -
  have scan: "raises_only sqlite_error (scan en cn sel locator (group_step ks ms) s)"
    if "positions (sl_columns sel) a = Inr ks" "positions (sl_columns sel) b = Inr ms" for ks ms a b s
    by (rule command.scan_raises [where I = "\<lambda>_. True", OF assms])
       (use positions_bound [OF that(1)] positions_bound [OF that(2)] in \<open>auto intro!: step_raisesI group_step_raises\<close>)
  show ?thesis unfolding groups_def bound_step_def
    by (intro raises positions_raises scan size_sqlite) simp_all
qed

lemma recipe_compact: "raises_only sqlite_error (compact_recipe d tables)"
  unfolding compact_recipe_def by (intro raises command_basic recipe_sqlite)

lemma summary_recipe_raises: "raises_only sqlite_error (summary_recipe raw tables fingerprint members)"
proof -
  have "raises_only sqlite_error (summary_names d name)" for d name
    by (auto simp: summary_names_def Let_def split: json.splits)
  then show ?thesis unfolding summary_recipe_def Let_def
    by (intro raises command_basic recipe_compact) simp_all
qed

lemma member_output_raises:
  assumes "engine_raises sqlite_error en" "engine_widths en" "raises_only sqlite_error (sa_group args)"
  shows "raises_only sqlite_error (member_output en cn args request sel locator context)"
proof -
  have "raises_only sqlite_error (group_key raw width)" for raw width
    unfolding group_key_def by (intro raises command_basic) simp_all
  moreover have "raises_only sqlite_error (scan en cn sel locator (member_step ks token offset limit) s)"
    if "positions (sl_columns sel) a = Inr ks" for ks a token offset limit s
    by (rule command.scan_raises [where I = "\<lambda>_. True", OF assms(1,2)])
       (use positions_bound [OF that] in \<open>auto simp: member_step_def intro!: step_raisesI raises cells_raises\<close>)
  ultimately show ?thesis unfolding member_output_def Let_def
    by (intro raises positions_raises command.file_raises assms) simp_all
qed

lemma summary_raises:
  assumes "engine_raises sqlite_error en" "engine_widths en" "raises_only sqlite_error (sa_selection args)"
    "raises_only sqlite_error (sa_group args)"
  shows "raises_only sqlite_error (summary_output en args data source)"
  unfolding summary_output_def Let_def
  by (intro raises command_basic command.file_raises command.open_raises command.inventory_raises summary_recipe_raises
        member_output_raises groups_raises assms) simp_all

subsection \<open>Comparisons\<close>

lemma side_width:
  assumes "engine_widths en" "side_query sel locator = Inr query" "en_execute en cn query ps = Inr r" "vals \<in> set (fst (sr_rows r))"
  shows "length vals = length locator + length (sl_columns sel)"
proof -
  from assms(2) obtain names rest where "quoted_names (locator @ sl_columns sel) = Inr names"
    "query = u ''SELECT '' @ join (u '', '') names @ u '' FROM main.'' @ rest"
    by (auto simp: side_query_def res_simps)
  with assms(1,3,4) have "length vals = length (locator @ sl_columns sel)" unfolding engine_widths_def by blast
  then show ?thesis by simp
qed

lemma side_step_raises:
  assumes "\<And>p. p \<in> set ks \<Longrightarrow> n + p < length vals"
  shows "raises_only sqlite_error (side_step side n ks acc vals)"
proof -
  have "p < length (rc_values row)" if "row_cell n vals = Inr row" "p \<in> set ks" for row p
    using that assms [of p] by (auto simp: row_cell_def res_simps dest: map_res_length)
  moreover have "raises_only sqlite_error (row_cell n vals)" unfolding row_cell_def by (intro raises command_basic) simp_all
  ultimately show ?thesis unfolding side_step_def Let_def
    by (intro raises command_basic size_sqlite cells_raises) simp_all
qed

lemma side_scan_raises:
  assumes "engine_raises sqlite_error en" "engine_widths en"
  shows "raises_only sqlite_error (side_scan en data source d keys side)"
proof -
  have query: "raises_only sqlite_error (side_query sel locator)" for sel locator
    unfolding side_query_def by (intro raises command_basic command.names_raises) simp
  have fresh: "raises_only sqlite_error (fresh_recipe en cn d)" for cn d
    by (intro command.fresh_raises assms) simp
  have "raises_only sqlite_error (for_rows (side_step s (length locator) ks) acc (sr_rows r))"
    if "positions (sl_columns sel) keys = Inr ks" "side_query sel locator = Inr q" "en_execute en cn q ps = Inr r" for s acc locator sel ks q cn ps r
    by (intro for_rows_raises side_step_raises)
       (use positions_bound [OF that(1)] side_width [OF assms(2) that(2,3)] in \<open>auto intro: engine_stop [OF assms(1) that(3)]\<close>)
  then show ?thesis unfolding side_scan_def
    by (intro raises_guard raises_rbind raises_prod command_basic query fresh positions_raises command.open_raises engine_cursors assms) simp_all
qed

lemma comparison_raises:
  assumes "engine_raises sqlite_error en" "engine_widths en" "archive_raises review_error zip_open"
    "raises_only sqlite_error (cm_selection args)" "raises_only review_error (cm_after_bundle args)"
  shows "raises_only sqlite_error (comparison_output en zip_open args data source)"
proof -
  have "raises_only sqlite_error (comparison_recipe raw)" for raw
    unfolding comparison_recipe_def key_names_def Let_def by (intro raises command_basic) (auto split: json.splits)
  moreover have "raises_only sqlite_error (compare_sides columns b a)" for columns b a
    unfolding compare_sides_def change_step_def Let_def by (intro raises command_basic size_sqlite) simp_all
  ultimately show ?thesis unfolding comparison_output_def Let_def
    by (intro raises command.file_raises review_sqlite [OF read_bundle_raises] side_scan_raises assms) simp_all
qed

lemma navigation_raises: "raises_only sqlite_error (navigation runtime table tables)"
proof -
  have "raises_only sqlite_error (rbind (utf8_encode s) (\<lambda>raw. rbind (selection_recipe raw tables) (\<lambda>(sel, locator, kind).
      rbind (encoded_size (selection_json sel)) (\<lambda>size. guard (size \<le> n) m (Inr (Available sel locator kind))))))" for s n m
    unfolding encoded_size_def by (intro raises command.basic command.recipe_raises value_sqlite [OF decode_raises]) simp_all
  then show ?thesis unfolding navigation_def by (intro raises_option) (auto split: sum.splits dest: raises_onlyD)
qed

lemma dkeys_keyed: "set (dkeys (keyed f xs)) = f ` set xs"
proof -
  have "set (dkeys (foldl (\<lambda>d x. dput (f x) x d) d xs)) = set (dkeys d) \<union> f ` set xs" for d
    by (induction xs arbitrary: d) (auto simp: dkeys_dput split: if_splits)
  from this [of "[]"] show ?thesis by (simp add: keyed_def)
qed

lemma status_found:
  assumes "compare_schemas before after = (entries, counts)" "dhas before name \<or> dhas after name"
  shows "\<exists>status. status_of entries name = Inr status"
proof -
  have "entries = map (schema_entry_of before after) (sorted_union (dkeys before) (dkeys after))"
    using assms(1) by (simp add: compare_schemas_def schema_run)
  moreover have "name \<in> set (dkeys before) \<union> set (dkeys after)" using assms(2) by (simp add: dhas_def)
  ultimately have "\<exists>e \<in> set entries. se_name e = name" by (auto simp: schema_entry_of_def)
  then show ?thesis by (auto simp: status_of_def find_None_iff split: option.splits)
qed

lemma schema_comparison_raises:
  assumes "engine_raises sqlite_error en" "archive_raises review_error zip_open"
    "raises_only sqlite_error (cm_selection args)" "raises_only review_error (cm_after_bundle args)"
  shows "raises_only sqlite_error (schema_comparison_output en runtime zip_open args data source)"
proof -
  have "raises_only sqlite_error (schema_request raw)" for raw
    unfolding schema_request_def want_dict_def
    by (intro raises command_basic) (auto split: json.splits)
  moreover have "raises_only sqlite_error (snapshot en d expected side)" for d expected side
    unfolding snapshot_def by (intro raises command.open_raises command.inventory_raises assms) simp_all
  moreover have "raises_only sqlite_error (selected_object runtime src1 src2 left right entries name)"
    if "compare_schemas (keyed so_name left) (keyed so_name right) = (entries, counts)" for src1 src2 left right entries counts name
    unfolding selected_object_def Let_def
    by (intro raises navigation_raises) (simp, use status_found [OF that] in fastforce, simp)
  ultimately show ?thesis unfolding schema_comparison_output_def Let_def
    by (intro raises command.file_raises review_sqlite [OF read_bundle_raises] assms) simp_all
qed

subsection \<open>The command\<close>

text \<open>The files a command reads raise only what the command catches.\<close>

definition files_raise :: "sqlite_command \<Rightarrow> bool" where
  "files_raise c = (let ok = raises_only sqlite_error in case c of
     Schema \<Rightarrow> True
   | Query q \<Rightarrow> input_raises sqlite_error (qa_sql q) \<and> input_raises sqlite_error (qa_parameters q)
   | Histogram_of selection \<Rightarrow> ok selection
   | Crosstab_of selection \<Rightarrow> ok selection
   | Rows a _ \<Rightarrow> ok (ra_selection a)
   | Related a \<Rightarrow> ok (ra_selection a)
   | Referencing a \<Rightarrow> ok (ra_selection a)
   | CompareSchema other selection \<Rightarrow> ok selection \<and> raises_only review_error (os_bundle other)
   | CompareRows other selection _ \<Rightarrow> ok selection \<and> raises_only review_error (os_bundle other)
   | Summarize selection _ \<Rightarrow> ok selection
   | GroupRows a chosen \<Rightarrow> ok (ra_selection a) \<and> ok chosen)"

lemma page_output_raises:
  "raises_only sqlite_error (ra_selection a) \<Longrightarrow> (\<And>raw offset limit. raises_only sqlite_error (fetch raw offset limit)) \<Longrightarrow>
   raises_only sqlite_error (page_output a fetch context)"
  unfolding page_output_def Let_def by (intro raises command.file_raises) simp_all

lemma relation_page_raises:
  "raises_only sqlite_error (review en cn raw tables offset limit fingerprint) \<Longrightarrow>
   raises_only sqlite_error (relation_page review en cn raw tables offset limit fingerprint)"
  unfolding relation_page_def by (intro raises command_basic) simp_all

lemma plain_sqlite: "engine_raises sqlite_error en \<Longrightarrow> raises_only sqlite_error (plain_page en cn raw tables offset limit)"
  by (intro command.plain_page_raises command_basic)

lemma explore_raises:
  assumes "engine_raises sqlite_error en" "files_raise c"
  shows "raises_only sqlite_error (explore_output en c data source)"
  unfolding explore_output_def Let_def using assms
  by (intro raises command.open_raises command.inventory_raises)
     (auto simp: files_raise_def Let_def split: sqlite_command.splits
        intro!: page_output_raises plain_sqlite relation_page_raises command.related_raises command.referencing_raises)

lemma table_outputs_raise:
  assumes "engine_raises sqlite_error en" "engine_widths en" "raises_only sqlite_error selection"
  shows "raises_only sqlite_error (crosstab_output en selection data source)"
    and "raises_only sqlite_error (histogram_output en selection data source)"
  unfolding crosstab_output_def histogram_output_def Let_def
  by (intro raises command.file_raises command.open_raises command.crosstab_raises command.distribution_raises assms; simp)+

lemma sqlite_body_raises:
  assumes "engine_raises sqlite_error en" "engine_widths en" "archive_raises review_error zip_open" "raises_only review_error (sq_bundle args)"
    "files_raise (sq_command args)"
  shows "raises_only sqlite_error (sqlite_body en runtime zip_open args)"
proof -
  have "raises_only sqlite_error (review_output en runtime zip_open args data source)" for data source
    using assms explore_raises [OF assms(1,5), of data source]
    by (auto simp: review_output_def files_raise_def compare_request_def Let_def value_sqlite decode_raises split: sqlite_command.splits
        intro!: command.query_output_raises schema_comparison_raises comparison_raises summary_raises table_outputs_raise)
  then show ?thesis unfolding sqlite_body_def
    by (intro raises command_basic review_sqlite [OF read_bundle_raises] assms) simp_all
qed

lemma sqlite_body_Inr:
  assumes "sqlite_body en runtime zip_open args = Inr (out, sidecar)"
  shows "length out \<le> MAX_OUTPUT \<and> page_ok (sq_command args) \<and>
    (\<exists>data source context text. read_bundle zip_open (sq_bundle args) (sq_database args) (u ''SQLite database'') = Inr (data, source) \<and>
       review_output en runtime zip_open args data source = Inr (context, text) \<and> utf8_encode text = Inr out \<and>
       (case expected_fingerprint (sq_command args) of None \<Rightarrow> True | Some e \<Rightarrow> e = sha data) \<and>
       sidecar = pretty (JObj (dmerge context [(u ''candidate_sha256'', JStr (sha out)), (u ''candidate_size_bytes'', JInt (int (length out)))])))"
  using assms by (auto simp: sqlite_body_def res_simps)



end
