(* ===== verification/JsonBytes.thy ===== *)
theory JsonBytes
  imports Json
begin

section \<open>Bodies of requests\<close>

text \<open>
  What the workbench uses of the standard library to read a request: \<open>json.loads\<close> of bytes, which guesses
  the encoding and lets surrogates pass, and \<open>int\<close> of a header. The lemmas show that the usual body, the
  UTF-8 text of a JSON object or array, is read as UTF-8, and what these readers raise.
\<close>

subsection \<open>Encodings\<close>

datatype encoding = Utf8 | Utf16 bool | Utf32 bool

text \<open>\<open>json.detect_encoding\<close>, with the number of bytes of the byte order mark; the flag says big endian.\<close>

definition detect_encoding :: "nat list \<Rightarrow> encoding \<times> nat" where
  "detect_encoding b =
     (if starts_with b [0, 0, 254, 255] then (Utf32 True, 4)
      else if starts_with b [255, 254, 0, 0] then (Utf32 False, 4)
      else if starts_with b [254, 255] then (Utf16 True, 2)
      else if starts_with b [255, 254] then (Utf16 False, 2)
      else if starts_with b [239, 187, 191] then (Utf8, 3)
      else if 4 \<le> length b then
        (if b ! 0 = 0 then (if b ! 1 \<noteq> 0 then Utf16 True else Utf32 True, 0)
         else if b ! 1 = 0 then (if b ! 2 \<noteq> 0 \<or> b ! 3 \<noteq> 0 then Utf16 False else Utf32 False, 0)
         else (Utf8, 0))
      else if length b = 2 then
        (if b ! 0 = 0 then (Utf16 True, 0) else if b ! 1 = 0 then (Utf16 False, 0) else (Utf8, 0))
      else (Utf8, 0))"

text \<open>UTF-8 with \<open>errors='surrogatepass'\<close>: a surrogate may also be encoded, by three bytes.\<close>

definition surrogate_tail :: "nat \<Rightarrow> nat list \<Rightarrow> (nat \<times> nat list) option" where
  "surrogate_tail a r =
     (case r of b # c # r' \<Rightarrow>
        if a = 237 \<and> 160 \<le> b \<and> b < 192 \<and> is_cont c then Some (53248 + (b - 128) * 64 + (c - 128), r') else None
      | _ \<Rightarrow> None)"

definition pass_tail :: "nat \<Rightarrow> nat list \<Rightarrow> (nat \<times> nat list) option" where
  "pass_tail a r = (case utf8_tail a r of Some v \<Rightarrow> Some v | None \<Rightarrow> surrogate_tail a r)"

lemma pass_tail_shorter: "pass_tail a r = Some (v, r') \<Longrightarrow> length r' < length r"
  by (auto simp: pass_tail_def surrogate_tail_def dest: utf8_tail_shorter split: option.splits list.splits if_splits)

function utf8_pass :: "nat list \<Rightarrow> ustr option" where
  "utf8_pass [] = Some []"
| "utf8_pass (a # r) =
     (if a < 128 then map_option ((#) a) (utf8_pass r)
      else case pass_tail a r of None \<Rightarrow> None | Some (v, r') \<Rightarrow> map_option ((#) v) (utf8_pass r'))"
  by pat_completeness auto
termination
  by (relation "measure length") (auto dest: pass_tail_shorter)

definition unit16 :: "bool \<Rightarrow> nat \<Rightarrow> nat \<Rightarrow> nat" where
  "unit16 big a b = (if big then a * 256 + b else b * 256 + a)"

fun units16 :: "bool \<Rightarrow> nat list \<Rightarrow> nat list option" where
  "units16 big [] = Some []"
| "units16 big [a] = None"
| "units16 big (a # b # r) = map_option ((#) (unit16 big a b)) (units16 big r)"

fun join_units :: "nat list \<Rightarrow> ustr" where
  "join_units [] = []"
| "join_units [x] = [x]"
| "join_units (x # y # r) =
     (if 55296 \<le> x \<and> x < 56320 \<and> 56320 \<le> y \<and> y < 57344
      then (65536 + (x - 55296) * 1024 + (y - 56320)) # join_units r
      else x # join_units (y # r))"

fun units32 :: "bool \<Rightarrow> nat list \<Rightarrow> ustr option" where
  "units32 big (a # b # c # d # r) =
     (let v = (if big then unit16 big a b * 65536 + unit16 big c d else unit16 big c d * 65536 + unit16 big a b)
      in if v < 1114112 then map_option ((#) v) (units32 big r) else None)"
| "units32 big [] = Some []"
| "units32 big _ = None"

definition decode_body :: "bytes \<Rightarrow> ustr res" where
  "decode_body raw =
     (let b = map unat raw; (enc, mark) = detect_encoding b; body = drop mark b
      in or_raise UnicodeError
           (case enc of Utf8 \<Rightarrow> utf8_pass body
            | Utf16 big \<Rightarrow> map_option join_units (units16 big body)
            | Utf32 big \<Rightarrow> units32 big body))"

text \<open>\<open>json.loads(raw)\<close>\<close>

definition loads_bytes :: "bytes \<Rightarrow> json res" where
  "loads_bytes raw = rbind (decode_body raw) (loads False)"

subsection \<open>Integers of headers\<close>

text \<open>\<open>int(s)\<close>: surrounding white space, a sign, digits with single underscores between them.\<close>

fun int_digits :: "ustr \<Rightarrow> ustr option" where
  "int_digits [] = None"
| "int_digits [c] = (if is_digit c then Some [c] else None)"
| "int_digits (c # d # s) =
     (if \<not> is_digit c then None
      else if d = 95 then map_option ((#) c) (int_digits s)
      else map_option ((#) c) (int_digits (d # s)))"

definition int_text :: "ustr \<Rightarrow> int res" where
  "int_text s =
     (let t = strip s; signed = t \<noteq> [] \<and> (hd t = 43 \<or> hd t = 45); d = (if signed then tl t else t)
      in case int_digits d of
           None \<Rightarrow> Inl IntDigitsError
         | Some ds \<Rightarrow>
             if length ds > 4300 then Inl IntDigitsError
             else Inr (if signed \<and> hd t = 45 then - int (digits_value ds) else int (digits_value ds)))"

subsection \<open>The usual body\<close>

lemma utf8_pass_scan: "utf8_scan b = Some s \<Longrightarrow> utf8_pass b = Some s"
proof (induction b arbitrary: s rule: utf8_scan.induct)
  case 1
  then show ?case by simp
next
  case (2 a r)
  show ?case
  proof (cases "a < 128")
    case True
    with 2 show ?thesis by auto
  next
    case False
    with 2(3) obtain v r' t where "utf8_tail a r = Some (v, r')" "utf8_scan r' = Some t" "s = v # t"
      by (auto split: option.splits)
    with 2(2) [OF False, of "(v, r')"] False show ?thesis by (simp add: pass_tail_def)
  qed
qed

lemma decode_body_ascii:
  assumes "utf8_decode raw = Inr (c # s)" "c \<noteq> 0" "c < 128" "s \<noteq> [] \<Longrightarrow> hd s \<noteq> 0"
  shows "decode_body raw = Inr (c # s)"
proof -
  have scan: "utf8_scan (map unat raw) = Some (c # s)"
    using assms(1) by (simp add: utf8_decode_def res_simps)
  then obtain a r where b: "map unat raw = a # r" by (cases "map unat raw") auto
  have a: "a = c" "utf8_scan r = Some s"
  proof -
    have "a < 128"
    proof (rule ccontr)
      assume "\<not> a < 128"
      with scan b assms(3) show False
        by (auto simp: utf8_tail_def Let_def split: option.splits if_splits list.splits)
    qed
    with scan b show "a = c" "utf8_scan r = Some s" by auto
  qed
  have second: "r ! 0 \<noteq> 0" if "r \<noteq> []"
  proof
    assume "r ! 0 = 0"
    with that obtain r' where "r = 0 # r'" by (cases r) auto
    with a(2) have "s \<noteq> [] \<and> hd s = 0" by auto
    with assms(4) show False by simp
  qed
  have "detect_encoding (a # r) = (Utf8, 0)"
    using assms(2,3) a(1) second by (cases r) (auto simp: detect_encoding_def)
  then show ?thesis using utf8_pass_scan [OF scan] by (simp add: decode_body_def b Let_def)
qed

lemma decode_body_raises: "raises_only is_value_error (decode_body raw)"
  unfolding decode_body_def Let_def by (intro raises) simp_all

lemma loads_bytes_raises: "raises_only is_value_error (loads_bytes raw)"
  unfolding loads_bytes_def by (intro raises decode_body_raises loads_raises)

lemma int_text_raises: "raises_only is_value_error (int_text s)"
  unfolding int_text_def Let_def by (intro raises) simp_all

end
