(* ===== verification/Workbench.thy ===== *)
theory Workbench
  imports Review JsonBytes Documents
begin

section \<open>The loopback workbench (tools/sqlite_workbench.py)\<close>

text \<open>
  One pinned copy, a dispatch of JSON requests over the operations of the review command, and the two
  handlers of the HTTP server as functions from a request to a response. The two random secrets are
  arguments; sockets, header parsing and the other methods of \<open>BaseHTTPRequestHandler\<close> belong to
  \<open>http.server\<close> and are not modelled: a request is its path, its headers and what reading its body
  delivers. The lemmas show who is answered, that nothing about the copy or the secrets reaches a
  requester without the token, and that a page of the workbench is the page of the command.
\<close>

subsection \<open>The pinned copy\<close>

record workbench =
  wb_data :: bytes
  wb_source :: "(ustr \<times> json) list"
  wb_digest :: ustr
  wb_session :: ustr
  wb_token :: ustr
  wb_tables :: "schema_object list"

definition open_workbench ::
  "engine \<Rightarrow> (bytes \<Rightarrow> zmember list res) \<Rightarrow> bytes res \<Rightarrow> ustr \<Rightarrow> ustr \<Rightarrow> ustr \<Rightarrow> workbench res" where
  "open_workbench en zip_open archive artifact session token =
     rbind (read_bundle zip_open archive artifact (u ''SQLite database'')) (\<lambda>(data, source).
     rbind (database en data) (\<lambda>cn.
     rbind (inventory en cn) (\<lambda>tables.
       Inr \<lparr>wb_data = data, wb_source = source, wb_digest = sha data, wb_session = session, wb_token = token, wb_tables = tables\<rparr>)))"

lemma open_workbench_Inr:
  assumes "open_workbench en zip_open archive artifact session token = Inr wb"
  shows "wb_session wb = session \<and> wb_token wb = token \<and> wb_digest wb = sha (wb_data wb) \<and>
    (\<exists>cn. database en (wb_data wb) = Inr cn \<and> inventory en cn = Inr (wb_tables wb)) \<and>
    read_bundle zip_open archive artifact (u ''SQLite database'') = Inr (wb_data wb, wb_source wb)"
  using assms by (auto simp: open_workbench_def rbind_eq_Inr)

text \<open>\<open>encoded\<close>\<close>

definition encoded_json :: "json \<Rightarrow> bytes res" where
  "encoded_json v = rbind (finite_text v (dumps plain_style)) utf8_encode"

subsection \<open>Dispatch\<close>

definition operations :: "string list" where
  "operations = [''schema'', ''rows'', ''related'', ''referencing'', ''query'', ''crosstab'', ''histogram'']"

definition operation_fields :: "ustr \<Rightarrow> string list" where
  "operation_fields op =
     [''session'', ''database_sha256'', ''operation''] @
     (if op = u ''query'' then [''sql'', ''parameters'', ''max_rows'']
      else if op = u ''crosstab'' \<or> op = u ''histogram'' then [''selection'']
      else if op \<noteq> u ''schema'' then [''selection'', ''offset'', ''limit''] else [])"

definition workbench_meaning :: ustr where
  "workbench_meaning = u ''Retained copy review only; not authenticity, execution, acceptance or promotion.''"

definition workbench_context :: "workbench \<Rightarrow> ustr \<Rightarrow> (ustr \<times> json) list" where
  "workbench_context wb op =
     [(u ''session'', JStr (wb_session wb)), (u ''database_sha256'', JStr (wb_digest wb)), (u ''source'', JObj (wb_source wb)),
      (u ''operation'', JStr op), (u ''meaning'', JStr workbench_meaning)]"

text \<open>\<open>encoded(request.get('selection'))\<close>, bounded.\<close>

definition selection_bytes :: "(ustr \<times> json) list \<Rightarrow> bytes res" where
  "selection_bytes request =
     rbind (encoded_json (jget request ''selection'')) (\<lambda>raw.
     guard (length raw \<le> MAX_SELECTION) (u ''selection exceeds 64 KiB'') (Inr raw))"

definition page_bounds :: "(ustr \<times> json) list \<Rightarrow> (nat \<times> nat) res" where
  "page_bounds request =
     (case (jget_or request ''offset'' (JInt 0), jget_or request ''limit'' (JInt 100)) of
        (JInt offset, JInt limit) \<Rightarrow>
          guard (0 \<le> offset \<and> offset \<le> 1000000 \<and> 1 \<le> limit \<and> limit \<le> 1000) (u ''offset must be 0..1000000 and limit 1..1000'')
            (Inr (nat offset, nat limit))
      | _ \<Rightarrow> Inl (ValueError (u ''offset must be 0..1000000 and limit 1..1000'')))"

definition query_operation :: "engine \<Rightarrow> workbench \<Rightarrow> (ustr \<times> json) list \<Rightarrow> (ustr \<times> json) list res" where
  "query_operation en wb request =
     rbind (or_raise (ValueError (u ''SQL must be text'')) (text_of (jget request ''sql''))) (\<lambda>sql.
     rbind (utf8_encode sql) (\<lambda>sql_bytes.
     rbind (encoded_json (JObj [(u ''database_sha256'', JStr (wb_digest wb)),
         (u ''parameters'', jget_or request ''parameters'' (JArr []))])) (\<lambda>parameter_bytes.
     rbind (query_output en \<lparr>qa_sql = Supplied sql_bytes, qa_parameters = Supplied parameter_bytes,
         qa_max_rows = jget_or request ''max_rows'' (JInt 1000), qa_csv = False\<rparr> (wb_data wb) (wb_source wb)) (\<lambda>(_, text).
     rbind (loads False text) (\<lambda>v.
     rbind (or_raise TypeError (jbody v)) (\<lambda>d. Inr (dput (u ''session'') (JStr (wb_session wb)) d)))))))"

definition explore_operation :: "engine \<Rightarrow> workbench \<Rightarrow> ustr \<Rightarrow> (ustr \<times> json) list \<Rightarrow> (ustr \<times> json) list res" where
  "explore_operation en wb op request =
     rbind (selection_bytes request) (\<lambda>raw.
     rbind (database en (wb_data wb)) (\<lambda>cn.
     rbind (if op = u ''crosstab'' then rbind (crosstab en cn raw (wb_digest wb)) (\<lambda>t. Inr (crosstab_members t))
            else rbind (distribution en cn raw (wb_digest wb)) (\<lambda>t. Inr (hist_members t))) (\<lambda>members.
       Inr (dmerge (workbench_context wb op) members))))"

definition page_operation :: "engine \<Rightarrow> workbench \<Rightarrow> ustr \<Rightarrow> (ustr \<times> json) list \<Rightarrow> (ustr \<times> json) list res" where
  "page_operation en wb op request =
     rbind (page_bounds request) (\<lambda>(offset, limit).
     rbind (selection_bytes request) (\<lambda>raw.
     rbind (database en (wb_data wb)) (\<lambda>cn.
     rbind (inventory en cn) (\<lambda>tables.
     rbind (if op = u ''rows'' then plain_page en cn raw tables offset limit
            else if op = u ''related'' then relation_rows en cn raw tables offset limit (wb_digest wb)
            else referencing_rows en cn raw tables offset limit (wb_digest wb)) (\<lambda>page.
       Inr (dmerge (dmerge (workbench_context wb op) (rp_metadata page))
         [(u ''selection'', selection_json (rp_recipe page)), (u ''locator'', locator_json (rp_kind page) (rp_locator page)),
          (u ''rows'', JArr (map row_json (rp_rows page))), (u ''offset'', JInt (int offset)), (u ''limit'', JInt (int limit)),
          (u ''has_more'', JBool (rp_more page)),
          (u ''next_offset'', offset_json (next_offset offset (rp_rows page) (rp_more page)))]))))))"

definition dispatch :: "engine \<Rightarrow> workbench \<Rightarrow> json \<Rightarrow> (ustr \<times> json) list res" where
  "dispatch en wb v =
     rbind (want_dict v (u ''request must be an object'')) (\<lambda>request.
     guard (jget request ''session'' = JStr (wb_session wb) \<and> jget request ''database_sha256'' = JStr (wb_digest wb))
       (u ''stale session or database fingerprint'')
     (rbind (or_raise (ValueError (u ''unknown operation'')) (text_of (jget request ''operation''))) (\<lambda>op.
      guard (op \<in> u ` set operations) (u ''unknown operation'')
      (guard (jkeys request \<subseteq> u ` set (operation_fields op)) (u ''unexpected request field'')
      (if op = u ''schema'' then
         Inr (dmerge (workbench_context wb op) [(u ''objects'', JArr (map object_json (wb_tables wb)))])
       else if op = u ''query'' then query_operation en wb request
       else if op = u ''crosstab'' \<or> op = u ''histogram'' then explore_operation en wb op request
       else page_operation en wb op request)))))"

subsection \<open>Requests and responses\<close>

text \<open>
  The body is what the connection delivers and how it then ends: closed, or with the error that reading
  further raises (a timeout).
\<close>

record http_request =
  hq_path :: ustr
  hq_headers :: "(ustr \<times> ustr) list"
  hq_body :: bytes
  hq_end :: "pyerr option"

record http_response =
  hs_status :: nat
  hs_type :: ustr
  hs_body :: bytes

definition header :: "http_request \<Rightarrow> string \<Rightarrow> ustr option" where
  "header r name = map_option snd (List.find (\<lambda>h. folded (fst h) = folded (u name)) (hq_headers r))"

text \<open>\<open>self.rfile.read(n)\<close>\<close>

definition read_body :: "http_request \<Rightarrow> nat \<Rightarrow> bytes res" where
  "read_body r n =
     (if n \<le> length (hq_body r) then Inr (take n (hq_body r))
      else case hq_end r of None \<Rightarrow> Inr (hq_body r) | Some e \<Rightarrow> Inl e)"

definition json_type :: ustr where "json_type = u ''application/json; charset=utf-8''"

definition respond :: "nat \<Rightarrow> bytes \<Rightarrow> ustr \<Rightarrow> http_response" where
  "respond status data kind = \<lparr>hs_status = status, hs_type = kind, hs_body = data\<rparr>"

definition error_body :: "string \<Rightarrow> bytes" where
  "error_body m = bs ''{\"error\":\"'' @ bs m @ bs ''\"}''"

text \<open>The header fields of every response, as \<open>respond\<close> sends them.\<close>

definition response_headers :: "http_response \<Rightarrow> (ustr \<times> ustr) list" where
  "response_headers r =
     [(u ''Content-Type'', hs_type r), (u ''Content-Length'', str_int (int (length (hs_body r)))), (u ''Cache-Control'', u ''no-store''),
      (u ''X-Content-Type-Options'', u ''nosniff''), (u ''Referrer-Policy'', u ''no-referrer''),
      (u ''Content-Security-Policy'', u ''default-src 'none'; script-src 'self'; style-src 'self'; connect-src 'self'; frame-ancestors 'none'; base-uri 'none'; form-action 'none'' @ [39])]"

subsection \<open>The handlers\<close>

definition server_address :: "nat \<Rightarrow> ustr" where
  "server_address port = u ''127.0.0.1:'' @ str_int (int port)"

definition host_ok :: "ustr \<Rightarrow> http_request \<Rightarrow> bool" where
  "host_ok address r \<longleftrightarrow> header r ''Host'' = Some address"

definition assets :: "(ustr \<times> string \<times> string) list" where
  "assets = [(u ''/'', ''index.html'', ''text/html; charset=utf-8''),
     (u ''/app.js'', ''app.js'', ''text/javascript; charset=utf-8''),
     (u ''/style.css'', ''style.css'', ''text/css; charset=utf-8'')]"

definition do_GET :: "(string \<Rightarrow> bytes res) \<Rightarrow> ustr \<Rightarrow> http_request \<Rightarrow> http_response res" where
  "do_GET asset_file address r =
     (if \<not> host_ok address r then Inr (respond 403 (error_body ''invalid host'') json_type)
      else case dget assets (hq_path r) of
             None \<Rightarrow> Inr (respond 404 (error_body ''not found'') json_type)
           | Some (name, kind) \<Rightarrow> rbind (asset_file name) (\<lambda>data. Inr (respond 200 data (u kind))))"

definition bootstrap_request :: json where
  "bootstrap_request = JObj [(u ''operation'', JStr (u ''bootstrap''))]"

definition answer :: "engine \<Rightarrow> workbench \<Rightarrow> json \<Rightarrow> (ustr \<times> json) list res" where
  "answer en wb request =
     (if request = bootstrap_request
      then Inr [(u ''session'', JStr (wb_session wb)), (u ''database_sha256'', JStr (wb_digest wb))]
      else dispatch en wb request)"

definition absent :: "ustr option \<Rightarrow> bool" where
  "absent h = (case h of None \<Rightarrow> True | Some v \<Rightarrow> v = [])"

definition body_length :: "http_request \<Rightarrow> int res" where
  "body_length r = int_text (case header r ''Content-Length'' of None \<Rightarrow> u ''-1'' | Some v \<Rightarrow> v)"

definition api_body :: "engine \<Rightarrow> workbench \<Rightarrow> http_request \<Rightarrow> bytes res" where
  "api_body en wb r =
     guard (header r ''Content-Type'' = Some (u ''application/json'') \<and> absent (header r ''Transfer-Encoding'')) (u ''JSON body required'')
     (rbind (body_length r) (\<lambda>n.
      guard (0 < n \<and> n \<le> 3 * int MAX_SELECTION) (u ''request exceeds bound'')
      (rbind (read_body r (nat n)) (\<lambda>raw.
       guard (int (length raw) = n) (u ''incomplete request'')
       (rbind (loads_bytes raw) (\<lambda>request.
        rbind (answer en wb request) (\<lambda>response.
        rbind (encoded_json (JObj response)) (\<lambda>data.
        guard (length data \<le> MAX_OUTPUT) (u ''response exceeds 16 MiB'') (Inr data)))))))))"

definition api_error :: "pyerr \<Rightarrow> bool" where
  "api_error e \<longleftrightarrow> is_value_error e \<or> e \<in> {TypeError, KeyError, RecursionError, SqliteError, OSError}"

definition authorized :: "ustr \<Rightarrow> workbench \<Rightarrow> http_request \<Rightarrow> bool res" where
  "authorized address wb r =
     (if \<not> host_ok address r \<or> header r ''Origin'' \<noteq> Some (u ''http://'' @ address) then Inr False
      else
        rbind (utf8_encode (case header r ''X-Review-Token'' of None \<Rightarrow> [] | Some t \<Rightarrow> t)) (\<lambda>given.
        rbind (utf8_encode (wb_token wb)) (\<lambda>token. Inr (given = token))))"

definition do_POST :: "engine \<Rightarrow> (pyerr \<Rightarrow> ustr) \<Rightarrow> ustr \<Rightarrow> workbench \<Rightarrow> http_request \<Rightarrow> http_response res" where
  "do_POST en runtime address wb r =
     rbind (authorized address wb r) (\<lambda>ok.
     if \<not> ok then Inr (respond 403 (error_body ''local session authorization required'') json_type)
     else if hq_path r \<noteq> u ''/api'' then Inr (respond 404 (error_body ''not found'') json_type)
     else case api_body en wb r of
            Inr data \<Rightarrow> Inr (respond 200 data json_type)
          | Inl e \<Rightarrow>
              if api_error e
              then rbind (encoded_json (JObj [(u ''error'', JStr (error_text runtime e))])) (\<lambda>data. Inr (respond 400 data json_type))
              else Inl e)"

subsection \<open>Who is answered\<close>

lemma authorized_True:
  "authorized address wb r = Inr True \<longleftrightarrow>
     header r ''Host'' = Some address \<and> header r ''Origin'' = Some (u ''http://'' @ address) \<and>
     (\<exists>b. utf8_encode (case header r ''X-Review-Token'' of None \<Rightarrow> [] | Some t \<Rightarrow> t) = Inr b \<and> utf8_encode (wb_token wb) = Inr b)"
  by (auto simp: authorized_def host_ok_def rbind_eq_Inr)

lemma utf8_encode_inj: "utf8_encode s = Inr b \<Longrightarrow> utf8_encode t = Inr b \<Longrightarrow> s = t"
  by (metis utf8_encode_decode sum.inject(2))

lemma authorized_token:
  "authorized address wb r = Inr True \<Longrightarrow> wb_token wb \<noteq> [] \<Longrightarrow> header r ''X-Review-Token'' = Some (wb_token wb)"
  by (auto simp: authorized_True dest: utf8_encode_inj split: option.splits)

lemma do_POST_status:
  assumes "do_POST en runtime address wb r = Inr resp" "hs_status resp \<in> {200, 400}"
  shows "authorized address wb r = Inr True \<and> hq_path r = u ''/api'' \<and>
    (hs_status resp = 200 \<longrightarrow> api_body en wb r = Inr (hs_body resp))"
  using assms by (auto simp: do_POST_def respond_def rbind_eq_Inr split: sum.splits if_splits)

lemma api_body_Inr:
  assumes "api_body en wb r = Inr data"
  obtains n request response where "header r ''Content-Type'' = Some (u ''application/json'')" "0 < n" "n \<le> 196608"
    "n \<le> length (hq_body r)" "loads_bytes (take n (hq_body r)) = Inr request" "answer en wb request = Inr response"
    "encoded_json (JObj response) = Inr data" "length data \<le> 16777216"
proof -
  from assms obtain n raw request response where c: "header r ''Content-Type'' = Some (u ''application/json'')"
    and n: "0 < n" "n \<le> 3 * int MAX_SELECTION" and raw: "read_body r (nat n) = Inr raw" "int (length raw) = n"
    and rest: "loads_bytes raw = Inr request" "answer en wb request = Inr response" "encoded_json (JObj response) = Inr data"
      "length data \<le> MAX_OUTPUT"
    unfolding api_body_def rbind_eq_Inr guard_eq_Inr by blast
  have "raw = take (nat n) (hq_body r)" "nat n \<le> length (hq_body r)"
    using raw n(1) by (auto simp: read_body_def split: if_splits option.splits)
  with c n rest that [of "nat n"] show thesis by (simp add: MAX_SELECTION_def MAX_OUTPUT_def)
qed

lemma dispatch_current:
  assumes "dispatch en wb request = Inr response"
  shows "\<exists>d. request = JObj d \<and> jget d ''session'' = JStr (wb_session wb) \<and> jget d ''database_sha256'' = JStr (wb_digest wb) \<and>
    (\<exists>op. jget d ''operation'' = JStr op \<and> op \<in> u ` set operations)"
  using assms by (auto simp: dispatch_def res_simps)

text \<open>C36: the workbench answers about the pinned copy only to its own page: a response that is not a plain refusal was
  asked for with the exact loopback host, the page's origin and the secret token, on the one API path;
  and a successful one answers a complete JSON body of at most 192 KiB, is at most 16 MiB, and unless it is
  the bootstrap the request named this session and the fingerprint of this copy.\<close>

theorem workbench_answers_authorized:
  assumes "do_POST en runtime address wb r = Inr resp" "hs_status resp \<in> {200, 400}" "wb_token wb \<noteq> []"
  shows "header r ''Host'' = Some address \<and> header r ''Origin'' = Some (u ''http://'' @ address) \<and>
    header r ''X-Review-Token'' = Some (wb_token wb) \<and> hq_path r = u ''/api'' \<and>
    (hs_status resp = 200 \<longrightarrow> length (hs_body resp) \<le> 16777216 \<and>
       (\<exists>n request. 0 < n \<and> n \<le> 196608 \<and> n \<le> length (hq_body r) \<and> loads_bytes (take n (hq_body r)) = Inr request \<and>
          (request = bootstrap_request \<or>
           (\<exists>d. request = JObj d \<and> jget d ''session'' = JStr (wb_session wb) \<and> jget d ''database_sha256'' = JStr (wb_digest wb)))))"
proof -
  from do_POST_status [OF assms(1,2)] have ok: "authorized address wb r = Inr True" "hq_path r = u ''/api''"
    and data: "hs_status resp = 200 \<Longrightarrow> api_body en wb r = Inr (hs_body resp)" by auto
  have "length (hs_body resp) \<le> 16777216 \<and>
       (\<exists>n request. 0 < n \<and> n \<le> 196608 \<and> n \<le> length (hq_body r) \<and> loads_bytes (take n (hq_body r)) = Inr request \<and>
          (request = bootstrap_request \<or>
           (\<exists>d. request = JObj d \<and> jget d ''session'' = JStr (wb_session wb) \<and> jget d ''database_sha256'' = JStr (wb_digest wb))))"
    if "hs_status resp = 200"
    using data [OF that]
  proof (rule api_body_Inr)
    fix n request response
    assume n: "0 < n" "n \<le> 196608" "n \<le> length (hq_body r)" "loads_bytes (take n (hq_body r)) = Inr request"
      and a: "answer en wb request = Inr response" and len: "length (hs_body resp) \<le> 16777216"
    have "request = bootstrap_request \<or>
        (\<exists>d. request = JObj d \<and> jget d ''session'' = JStr (wb_session wb) \<and> jget d ''database_sha256'' = JStr (wb_digest wb))"
      using a dispatch_current [of en wb request response] by (auto simp: answer_def split: if_splits)
    with n len show ?thesis by blast
  qed
  with ok authorized_token [OF ok(1) assms(3)] show ?thesis by (auto simp: authorized_True)
qed


subsection \<open>The page of the workbench and of the command\<close>

text \<open>The command that asks for the page the workbench operation asks for.\<close>

definition page_command :: "ustr \<Rightarrow> bytes \<Rightarrow> nat \<Rightarrow> nat \<Rightarrow> sqlite_command" where
  "page_command op raw offset limit =
     (let a = \<lparr>ra_selection = Inr raw, ra_offset = int offset, ra_limit = int limit, ra_csv = False\<rparr>
      in if op = u ''rows'' then Rows a None else if op = u ''related'' then Related a else Referencing a)"

definition shared_members :: "string list" where
  "shared_members = [''selection'', ''locator'', ''offset'', ''limit'', ''has_more'', ''next_offset'']"

lemma page_bounds_Inr:
  "page_bounds request = Inr (offset, limit) \<Longrightarrow> offset \<le> 1000000 \<and> 1 \<le> limit \<and> limit \<le> 1000"
  by (auto simp: page_bounds_def guard_eq_Inr split: json.splits)

lemma page_output_Inr:
  assumes "fetch raw offset limit = Inr page" "length raw \<le> MAX_SELECTION"
  shows "\<exists>context. page_output \<lparr>ra_selection = Inr raw, ra_offset = int offset, ra_limit = int limit, ra_csv = False\<rparr> fetch start =
      Inr (context, pretty (JObj (dmerge context [(u ''rows'', JArr (map row_json (rp_rows page)))]))) \<and>
    context = dmerge (dmerge start (rp_metadata page)) (page_members raw offset limit page)"
  using assms by (simp add: page_output_def read_file_def Let_def)

definition same_page :: "review_page \<Rightarrow> review_page \<Rightarrow> bool" where
  "same_page p q \<longleftrightarrow> rp_recipe p = rp_recipe q \<and> rp_locator p = rp_locator q \<and> rp_kind p = rp_kind q \<and>
     rp_rows p = rp_rows q \<and> rp_more p = rp_more q"

lemma relation_page_Inr:
  assumes "review en cn raw tables offset limit fingerprint = Inr page" "decode raw = Inr v"
  shows "\<exists>page'. relation_page review en cn raw tables offset limit fingerprint = Inr page' \<and> same_page page' page"
  using assms by (simp add: relation_page_def same_page_def)

lemma explore_page:
  assumes "database en data = Inr cn" "inventory en cn = Inr tables"
    and page: "(if op = u ''rows'' then plain_page en cn raw tables offset limit
      else if op = u ''related'' then relation_rows en cn raw tables offset limit (sha data)
      else referencing_rows en cn raw tables offset limit (sha data)) = Inr page"
  shows "\<exists>start fetch page'. explore_output en (page_command op raw offset limit) data source =
      page_output \<lparr>ra_selection = Inr raw, ra_offset = int offset, ra_limit = int limit, ra_csv = False\<rparr> fetch start \<and>
    fetch raw offset limit = Inr page' \<and> same_page page' page"
proof (cases "op = u ''rows''")
  case True
  with assms show ?thesis by (auto simp: explore_output_def page_command_def same_page_def Let_def)
next
  case False
  show ?thesis
  proof (cases "op = u ''related''")
    case True
    with page have r: "relation_rows en cn raw tables offset limit (sha data) = Inr page" by simp
    then obtain v where "decode raw = Inr v" by (auto simp: relation_rows_def rbind_eq_Inr)
    from relation_page_Inr [of relation_rows, OF r this] True assms(1,2) show ?thesis
      by (auto simp: explore_output_def page_command_def Let_def)
  next
    case other: False
    with page False have r: "referencing_rows en cn raw tables offset limit (sha data) = Inr page" by simp
    then obtain v where "decode raw = Inr v" by (auto simp: referencing_rows_def rbind_eq_Inr)
    from relation_page_Inr [of referencing_rows, OF r this] False other assms(1,2) show ?thesis
      by (auto simp: explore_output_def page_command_def Let_def)
  qed
qed

text \<open>Whenever the workbench shows a page of rows, of related or of
  referencing rows, the command given the same selection, offset and limit on the same copy writes a
  document with the same selection, locator, bounds, paging and rows.\<close>

theorem workbench_page_agrees:
  assumes "page_operation en wb op request = Inr response" "wb_digest wb = sha (wb_data wb)"
  shows "\<exists>raw offset limit context rows. selection_bytes request = Inr raw \<and> page_bounds request = Inr (offset, limit) \<and>
    page_ok (page_command op raw offset limit) \<and>
    explore_output en (page_command op raw offset limit) (wb_data wb) (wb_source wb) =
      Inr (context, pretty (JObj (dmerge context [(u ''rows'', rows)]))) \<and>
    jget response ''rows'' = rows \<and> list_all (\<lambda>k. jget response k = jget context k) shared_members"
proof -
  from assms(1) obtain offset limit raw cn tables and page :: review_page where
    bounds: "page_bounds request = Inr (offset, limit)" and raw: "selection_bytes request = Inr raw"
    and cn: "database en (wb_data wb) = Inr cn" and tables: "inventory en cn = Inr tables"
    and page: "(if op = u ''rows'' then plain_page en cn raw tables offset limit
            else if op = u ''related'' then relation_rows en cn raw tables offset limit (wb_digest wb)
            else referencing_rows en cn raw tables offset limit (wb_digest wb)) = Inr page"
    and response: "dmerge (dmerge (workbench_context wb op) (rp_metadata page))
         [(u ''selection'', selection_json (rp_recipe page)), (u ''locator'', locator_json (rp_kind page) (rp_locator page)),
          (u ''rows'', JArr (map row_json (rp_rows page))), (u ''offset'', JInt (int offset)), (u ''limit'', JInt (int limit)),
          (u ''has_more'', JBool (rp_more page)),
          (u ''next_offset'', offset_json (next_offset offset (rp_rows page) (rp_more page)))] = response"
    unfolding page_operation_def rbind_eq_Inr split_paired_Ex prod.case sum.inject by blast
  have small: "length raw \<le> MAX_SELECTION" using raw by (auto simp: selection_bytes_def res_simps)
  let ?a = "\<lparr>ra_selection = Inr raw, ra_offset = int offset, ra_limit = int limit, ra_csv = False\<rparr>"
  from explore_page [OF cn tables page [unfolded assms(2)], of "wb_source wb"] obtain start fetch and page' :: review_page where
    run: "explore_output en (page_command op raw offset limit) (wb_data wb) (wb_source wb) = page_output ?a fetch start"
    and fetch: "fetch raw offset limit = Inr page'" and same: "same_page page' page" by blast
  note same = same [unfolded same_page_def]
  from page_output_Inr [where fetch = fetch, OF fetch small, of start] obtain ctx where
    out: "page_output ?a fetch start = Inr (ctx, pretty (JObj (dmerge ctx [(u ''rows'', JArr (map row_json (rp_rows page')))])))"
    and ctx: "ctx = dmerge (dmerge start (rp_metadata page')) (page_members raw offset limit page')" by blast
  have ok: "page_ok (page_command op raw offset limit)"
    using page_bounds_Inr [OF bounds] by (simp add: page_ok_def page_args_def page_command_def Let_def)
  have rows: "jget response ''rows'' = JArr (map row_json (rp_rows page'))"
    by (simp add: response [symmetric] jget_def dget_dmerge same)
  have "list_all (\<lambda>k. jget response k = jget ctx k) shared_members"
    by (simp add: response [symmetric] ctx shared_members_def jget_def dget_dmerge page_members_def same)
  with raw bounds ok run out rows show ?thesis by auto
qed

subsection \<open>A session over the copy of \<open>keyed_file\<close>\<close>

text \<open>A bundle that holds \<open>keyed_file\<close>.\<close>

definition keyed_files :: "(ustr \<times> bytes) list" where
  "keyed_files = [(u ''results/a'', keyed_file)]"

lemma keyed_stored:
  obtains source where "read_bundle (\<lambda>_. Inr (make_bundle keyed_files)) (Inr []) (u ''results/a'') (u ''SQLite database'') = Inr (keyed_file, source)"
proof -
  have "length keyed_file \<le> 1000" by (simp add: keyed_file_def sqlite_magic_def bs_def)
  from that one_file_read [OF this] show thesis by (simp add: keyed_files_def)
qed

lemma keyed_database: "\<exists>cn. database keyed_engine keyed_file = Inr cn"
  by (simp add: database_def keyed_engine_def keyed_file_def MAX_REPORT_def sqlite_magic_def bs_def)

lemma keyed_inventory: "inventory keyed_engine cn = Inr [pair_table]"
  by (rule pair_inventory_of) (simp_all add: keyed_engine_def pair_engine_def sample_engine_def)

definition keyed_workbench :: "string \<Rightarrow> workbench" where
  "keyed_workbench token = \<lparr>wb_data = keyed_file, wb_source = [], wb_digest = sha keyed_file, wb_session = u ''s'', wb_token = u token,
     wb_tables = [pair_table]\<rparr>"

definition page_request :: "string \<Rightarrow> bytes \<Rightarrow> http_request" where
  "page_request token body = \<lparr>hq_path = u ''/api'', hq_headers =
     [(u ''host'', u ''127.0.0.1:8000''), (u ''origin'', u ''http://127.0.0.1:8000''), (u ''X-Review-Token'', u token),
      (u ''Content-Type'', u ''application/json''), (u ''Content-Length'', u ''25'')], hq_body = body, hq_end = None\<rparr>"

definition bootstrap_body :: bytes where
  "bootstrap_body = utf8_bytes (compact bootstrap_request)"

lemma bootstrap_body: "length bootstrap_body = 25" "loads_bytes bootstrap_body = Inr bootstrap_request"
proof -
  have c: "compact bootstrap_request = 123 # 34 # u ''operation'' @ [34, 58, 34] @ u ''bootstrap'' @ [34, 125]"
    by (simp add: bootstrap_request_def) (simp add: u_def compact_style_def dump_string_def escape_char_def)
  show "length bootstrap_body = 25" by (simp add: bootstrap_body_def c) (simp add: u_def utf8_bytes_def utf8_char_def)
  have "utf8_decode bootstrap_body = Inr (compact bootstrap_request)"
    unfolding bootstrap_body_def by (rule utf8_encode_decode) (simp add: utf8_encode_def c, simp add: u_def is_scalar_def)
  then have "decode_body bootstrap_body = Inr (compact bootstrap_request)" unfolding c by (rule decode_body_ascii) simp_all
  moreover have "loads False (compact bootstrap_request) = Inr bootstrap_request"
    by (rule compact_text.roundtrip) (simp add: bootstrap_request_def char_ok_def)
  ultimately show "loads_bytes bootstrap_body = Inr bootstrap_request" by (simp add: loads_bytes_def)
qed

lemma page_headers:
  "header (page_request token body) ''Host'' = Some (u ''127.0.0.1:8000'')"
  "header (page_request token body) ''Origin'' = Some (u ''http://'' @ u ''127.0.0.1:8000'')"
  "header (page_request token body) ''X-Review-Token'' = Some (u token)"
  "header (page_request token body) ''Content-Type'' = Some (u ''application/json'')"
  "header (page_request token body) ''Content-Length'' = Some (u ''25'')"
  "header (page_request token body) ''Transfer-Encoding'' = None"
  by (simp_all add: header_def page_request_def) (simp_all add: u_def folded_def fold_char_def)

lemma bootstrap_answer:
  "\<exists>data. encoded_json (JObj [(u ''session'', JStr (u ''s'')), (u ''database_sha256'', JStr (sha keyed_file))]) = Inr data \<and> length data \<le> 1000"
proof -
  have hex: "list_all is_hex_lower (sha keyed_file)" "length (sha keyed_file) = 64"
    using re_hex64_sha [of keyed_file] by (simp_all add: re_hex64_def)
  note plain = hex_plain [OF hex(1)]
  have written: "dumps plain_style (JObj [(u ''session'', JStr (u ''s'')), (u ''database_sha256'', JStr (sha keyed_file))]) =
      [123] @ dump_string False (u ''session'') @ [58, 32] @ dump_string False (u ''s'') @ [44, 32] @
      dump_string False (u ''database_sha256'') @ [58, 32, 34] @ sha keyed_file @ [34, 125]" (is "_ = ?t")
    using plain(1) [of False] by (simp add: plain_style_def)
  have "list_all is_scalar ?t" using plain(2) by (simp add: u_def dump_string_def escape_char_def is_scalar_def)
  moreover have "length (utf8_bytes ?t) \<le> 1000"
    by (simp only: utf8_bytes_append length_append plain(3) hex(2))
       (simp add: u_def dump_string_def escape_char_def utf8_bytes_def utf8_char_def)
  ultimately show ?thesis unfolding encoded_json_def finite_text_def written utf8_encode_def by simp
qed

theorem workbench_answers_authorized_witness:
  "\<exists>resp. do_POST keyed_engine (\<lambda>_. []) (u ''127.0.0.1:8000'') (keyed_workbench ''k'') (page_request ''k'' bootstrap_body) = Inr resp \<and>
     hs_status resp = 200 \<and> length (hs_body resp) \<le> 16777216"
proof -
  let ?wb = "keyed_workbench ''k''" and ?r = "page_request ''k'' bootstrap_body" and ?addr = "u ''127.0.0.1:8000''"
  obtain data where data: "encoded_json (JObj [(u ''session'', JStr (u ''s'')), (u ''database_sha256'', JStr (sha keyed_file))]) = Inr data"
    "length data \<le> 1000" using bootstrap_answer by blast
  have n: "body_length ?r = Inr 25"
    by (simp add: body_length_def page_headers)
       (simp add: int_text_def strip_def is_space_def u_def is_digit_def digits_value_def)
  have "utf8_encode (u ''k'') = Inr (utf8_bytes (u ''k''))" by (simp add: utf8_encode_def u_def is_scalar_def)
  then have ok: "authorized ?addr ?wb ?r = Inr True" by (simp add: authorized_True page_headers keyed_workbench_def)
  have "read_body ?r 25 = Inr bootstrap_body" by (simp add: read_body_def page_request_def bootstrap_body(1))
  then have "api_body keyed_engine ?wb ?r = Inr data"
    using data by (simp add: api_body_def page_headers absent_def n MAX_SELECTION_def bootstrap_body answer_def keyed_workbench_def MAX_OUTPUT_def)
  then have run: "do_POST keyed_engine (\<lambda>_. []) ?addr ?wb ?r = Inr (respond 200 data json_type)"
    by (simp add: do_POST_def ok) (simp add: page_request_def)
  have "wb_token ?wb \<noteq> []" by (simp add: keyed_workbench_def)
  from workbench_answers_authorized [OF run _ this] run show ?thesis by (simp add: respond_def)
qed


definition rows_request :: "(ustr \<times> json) list" where
  "rows_request = [(u ''session'', JStr (u ''s'')), (u ''database_sha256'', JStr (sha keyed_file)), (u ''operation'', JStr (u ''rows'')),
     (u ''selection'', JObj [(u ''table'', JStr (u ''t''))]), (u ''limit'', JInt 10)]"

lemma rows_selection:
  "\<exists>raw. selection_bytes rows_request = Inr raw \<and> decode raw = Inr (JObj [(u ''table'', JStr (u ''t''))])"
proof -
  let ?v = "JObj [(u ''table'', JStr (u ''t''))]"
  have v: "jvalid (ds_ascii plain_style) ?v" "jscalar ?v"
    by (simp_all add: plain_style_def char_ok_def)
  have "utf8_encode (dumps plain_style ?v) = Inr (utf8_bytes (dumps plain_style ?v))"
    using dumps_scalar [OF style_ok_styles(2) v] by (simp add: utf8_encode_def text_scalar_def del: dumps.simps)
  then have "encoded_json ?v = Inr (utf8_bytes (dumps plain_style ?v))" by (simp add: encoded_json_def finite_text_def del: dumps.simps)
  moreover have "length (utf8_bytes (dumps plain_style ?v)) \<le> MAX_SELECTION"
    by (simp add: MAX_SELECTION_def) (simp add: u_def plain_style_def dump_string_def escape_char_def utf8_bytes_def utf8_char_def)
  moreover have "jget rows_request ''selection'' = ?v" by (simp add: rows_request_def jget_def)
  ultimately show ?thesis using decode_dumps [OF style_ok_styles(2) v]
    by (intro exI [of _ "utf8_bytes (dumps plain_style ?v)"]) (simp add: selection_bytes_def del: dumps.simps)
qed

lemma rows_page:
  assumes "wb_data wb = keyed_file"
  shows "\<exists>response. page_operation keyed_engine wb (u ''rows'') rows_request = Inr response \<and> jget response ''has_more'' = JBool False"
proof -
  obtain cn where cn: "database keyed_engine keyed_file = Inr cn" using keyed_database by blast
  note inv = keyed_inventory [of cn]
  obtain raw where raw: "selection_bytes rows_request = Inr raw" "decode raw = Inr (JObj [(u ''table'', JStr (u ''t''))])"
    using rows_selection by blast
  have recipe: "selection_recipe raw [pair_table] = Inr (pair_recipe [''a'', ''b''], [u ''_rowid_''], u ''rowid'')"
    by (simp add: selection_recipe_def raw(2) pair_default)
  have q: "quoted (JStr (u ''a'')) = Inr (quote (u ''a''))" "quoted (JStr (u ''b'')) = Inr (quote (u ''b''))"
    "quoted (JStr (u ''t'')) = Inr (quote (u ''t''))" "quoted (JStr (u ''_rowid_'')) = Inr (quote (u ''_rowid_''))"
    by (simp_all add: quoted_def quote_def) (simp_all add: u_def)
  have "\<exists>query ps. selection_query (pair_recipe [''a'', ''b'']) [u ''_rowid_''] None None = Inr (query, ps)"
    by (simp add: selection_query_def pair_recipe_def quoted_names_def q filter_predicates_def order_texts_def Let_def)
  then obtain query ps where query: "selection_query (pair_recipe [''a'', ''b'']) [u ''_rowid_''] None None = Inr (query, ps)" by blast
  have "\<exists>rows. selected_rows keyed_engine cn (pair_recipe [''a'', ''b'']) [u ''_rowid_''] 0 10 None None = Inr (rows, False)"
    by (simp add: selected_rows_def query keyed_engine_def for_rows_def row_step_def)
  then obtain rows where rows: "selected_rows keyed_engine cn (pair_recipe [''a'', ''b'']) [u ''_rowid_''] 0 10 None None = Inr (rows, False)" ..
  have bounds: "page_bounds rows_request = Inr (0, 10)" by (simp add: page_bounds_def rows_request_def jget_or_def)
  show ?thesis by (simp add: page_operation_def bounds raw(1) assms cn inv plain_page_def recipe rows jget_def dget_dmerge)
qed

theorem workbench_page_agrees_witness:
  "\<exists>response raw context. page_operation keyed_engine (keyed_workbench ''k'') (u ''rows'') rows_request = Inr response \<and>
     jget response ''has_more'' = JBool False \<and>
     explore_output keyed_engine (page_command (u ''rows'') raw 0 10) keyed_file [] =
       Inr (context, pretty (JObj (dmerge context [(u ''rows'', jget response ''rows'')])))"
proof -
  let ?wb = "keyed_workbench ''k''"
  obtain raw where raw: "selection_bytes rows_request = Inr raw" using rows_selection by blast
  have bounds: "page_bounds rows_request = Inr (0, 10)" by (simp add: page_bounds_def rows_request_def jget_or_def)
  have "wb_data ?wb = keyed_file" by (simp add: keyed_workbench_def)
  from rows_page [OF this] obtain response where
    run: "page_operation keyed_engine ?wb (u ''rows'') rows_request = Inr response" "jget response ''has_more'' = JBool False" by blast
  have "wb_digest ?wb = sha (wb_data ?wb)" by (simp add: keyed_workbench_def)
  from workbench_page_agrees [OF run(1) this] run bounds raw show ?thesis
    by (auto simp: keyed_workbench_def)
qed

end
