(* ===== verification/WorkbenchTotal.thy ===== *)
theory WorkbenchTotal
  imports Workbench Refusals
begin

section \<open>Every request is answered\<close>

text \<open>
  The handler of the workbench answers every request: what dispatching raises is in its \<open>except\<close>
  clause, and the text of the error can itself be encoded. For that the interface \<open>refusals\<close> is
  interpreted on the errors it answers and on the documents that survive being passed on as bytes,
  which the parts of a request that was read and encoded again are.
\<close>

subsection \<open>The \<open>except\<close> clause of the handler\<close>

definition answerable :: "pyerr \<Rightarrow> bool" where
  "answerable e \<longleftrightarrow> api_error e \<and> (case e of ValueError m \<Rightarrow> text_scalar m | _ \<Rightarrow> True)"

definition passable :: "json \<Rightarrow> bool" where
  "passable v \<longleftrightarrow> jvalid False v \<and> jscalar v"

lemma passable_request:
  assumes "passable (JObj d)"
  shows "decode (request_bytes d) = Inr (JObj d)"
proof -
  have "jvalid (ds_ascii ascii_style) (JObj d)" "jscalar (JObj d)" using assms jvalid_ascii [of "JObj d"] by (auto simp: passable_def)
  from decode_dumps [OF _ this] show ?thesis by (simp add: request_bytes_def)
qed

lemma passable_compact:
  assumes "passable v" "utf8_encode (compact v) = Inr raw"
  shows "decode raw = Inr v"
proof -
  have "raw = utf8_bytes (compact v)" using assms(2) by (auto simp: utf8_encode_def split: if_splits)
  then show ?thesis using compact_bytes.roundtrip [of v] assms(1) by (simp add: passable_def)
qed

interpretation api: refusals answerable passable
proof unfold_locales
  fix e assume "plain_error e"
  then show "answerable e" by (cases e) (simp_all add: plain_error_def answerable_def api_error_def)
next
  show "answerable TypeError" "answerable KeyError" by (simp_all add: answerable_def api_error_def)
next
  fix d k assume "passable (JObj d)"
  then show "passable (jget d k)" by (auto simp: passable_def jget_def list_all_iff split: option.splits dest: map_of_SomeD)
next
  fix d assume "passable (JObj d)"
  then show "raises_only answerable (decode (request_bytes d))" by (simp add: passable_request)
next
  fix v raw assume "passable v" "utf8_encode (compact v) = Inr raw"
  then show "raises_only answerable (decode raw)" by (simp add: passable_compact)
qed (auto simp: passable_def text_scalar_def list_all_iff)

subsection \<open>Requests that were read\<close>

lemma passed_on:
  assumes "jread v" "encoded_json v = Inr raw"
  shows "decode raw = Inr v" "passable v"
  using assms read_again [OF assms(1)] by (auto simp: encoded_json_def passable_def rbind_eq_Inr)

lemma selection_clean:
  assumes "jread (JObj request)" "selection_bytes request = Inr raw"
  shows "api.clean_raw raw"
proof -
  have e: "encoded_json (jget request ''selection'') = Inr raw" using assms(2) by (auto simp: selection_bytes_def res_simps)
  from passed_on [OF read_get [OF assms(1)] e] show ?thesis by (auto simp: api.clean_raw_def)
qed

lemma encoded_raises: "raises_only answerable (encoded_json v)"
  unfolding encoded_json_def by (intro raises api.basic)

lemma loads_answerable: "raises_only answerable (loads False s)"
  by (rule raises_only_weaken [OF loads_reader_raises [of False s]]) (auto simp: reader_error_def answerable_def api_error_def)

lemma loads_bytes_read: "loads_bytes raw = Inr v \<Longrightarrow> jread v"
  by (auto simp: loads_bytes_def rbind_eq_Inr dest: loads_read)

lemma loads_bytes_answerable: "raises_only answerable (loads_bytes raw)"
  unfolding loads_bytes_def decode_body_def Let_def by (intro raises loads_answerable) (simp_all add: answerable_def api_error_def)

lemma int_text_answerable: "raises_only answerable (int_text s)"
  unfolding int_text_def Let_def by (intro raises) (simp_all add: answerable_def api_error_def)

subsection \<open>The operations\<close>

text \<open>The names SQLite gives are text that can be encoded.\<close>

definition engine_text :: "engine \<Rightarrow> bool" where
  "engine_text en \<longleftrightarrow> (\<forall>cn q. \<forall>r \<in> set (fst (en_table_list en cn q)). text_scalar (tr_name r))"

lemma tables_run:
  "fold_res (table_step en cn) tables rows = Inr found \<Longrightarrow> so_name ` set found \<subseteq> so_name ` set tables \<union> tr_name ` set rows"
proof (induction rows arbitrary: tables)
  case (Cons r rows)
  then obtain mid where mid: "table_step en cn tables r = Inr mid" "fold_res (table_step en cn) mid rows = Inr found"
    by (auto simp: rbind_eq_Inr)
  have "so_name ` set mid \<subseteq> insert (tr_name r) (so_name ` set tables)"
    using mid(1) by (auto simp: table_step_def res_simps split: if_splits)
  with Cons.IH [OF mid(2)] show ?case by auto
qed simp

lemma engine_textD: "engine_text en \<Longrightarrow> n \<in> tr_name ` set (fst (en_table_list en cn q)) \<Longrightarrow> text_scalar n"
  unfolding engine_text_def by (elim imageE) simp

lemma inventory_names:
  assumes "inventory en cn = Inr tables"
  shows "so_name ` set tables \<subseteq> tr_name ` set (fst (en_table_list en cn (u ''PRAGMA main.table_list'')))"
proof -
  from assms obtain found where run: "fold_res (table_step en cn) [] (fst (en_table_list en cn (u ''PRAGMA main.table_list''))) = Inr found"
    and found: "tables = map (\<lambda>parent. parent\<lparr>so_incoming := incoming (sort_key so_name found) parent\<rparr>) (sort_key so_name found)"
    unfolding inventory_def rbind_eq_Inr for_rows_Inr Let_def sum.inject by blast
  have "so_name ` set tables = so_name ` set found" by (simp add: found image_image)
  then show ?thesis using tables_run [OF run] by (simp only: list.set(1) image_empty Un_empty_left)
qed

lemma inventory_text:
  assumes "engine_text en" "inventory en cn = Inr tables"
  shows "api.clean_tables tables"
proof -
  have "text_scalar (so_name t)" if "t \<in> set tables" for t
    by (rule engine_textD [OF assms(1) subsetD [OF inventory_names [OF assms(2)]]]) (rule imageI [OF that])
  then show ?thesis by (simp add: api.clean_tables_def passable_def text_scalar_def)
qed

lemma page_bounds_raises: "raises_only answerable (page_bounds request)"
  by (auto simp: page_bounds_def split: json.splits intro!: raises)

lemma query_operation_raises:
  assumes "engine_raises answerable en" "jread (JObj request)"
  shows "raises_only answerable (query_operation en wb request)"
proof -
  let ?doc = "JObj [(u ''database_sha256'', JStr (wb_digest wb)), (u ''parameters'', jget_or request ''parameters'' (JArr []))]"
  have "jread (jget_or request ''parameters'' (JArr []))"
    using read_member [OF assms(2)] by (simp add: jget_or_def split: option.splits)
  then have "jread ?doc" by simp
  then have "raises_only answerable (decode raw)" if "encoded_json ?doc = Inr raw" for raw
    using passed_on(1) [OF _ that] by simp
  moreover have "raises_only answerable (query_output en \<lparr>qa_sql = Supplied sql, qa_parameters = Supplied raw, qa_max_rows = m, qa_csv = False\<rparr> data source)"
    if "raises_only answerable (decode raw)" for sql raw m data source
    by (rule api.query_output_raises [OF assms(1)]) (use that in \<open>auto simp: input_raises_def load_input_def res_simps\<close>)
  ultimately show ?thesis unfolding query_operation_def
    by (intro raises api.basic encoded_raises loads_answerable) (simp_all add: api.lookups)
qed

lemma dispatch_raises:
  assumes "engine_raises answerable en" "engine_widths en" "engine_text en" "jread v"
  shows "raises_only answerable (dispatch en wb v)"
proof -
  have read: "jread (JObj request)" if "want_dict v m = Inr request" for m request
    using assms(4) that by (cases v) (auto simp: want_dict_def jbody_def)
  have part: "raises_only answerable (selection_bytes request)" for request
    unfolding selection_bytes_def by (intro raises encoded_raises) simp_all
  have clean: "api.clean_raw raw" if "want_dict v m = Inr request" "selection_bytes request = Inr raw" for m request raw
    by (rule selection_clean [OF read [OF that(1)] that(2)])
  have "raises_only answerable (explore_operation en wb op request)" if "want_dict v m = Inr request" for m op request
    unfolding explore_operation_def
    by (intro raises part api.open_raises api.crosstab_raises api.distribution_raises clean [OF that] assms) simp_all
  moreover have "raises_only answerable (page_operation en wb op request)" if "want_dict v m = Inr request" for m op request
    unfolding page_operation_def
    by (intro raises part page_bounds_raises api.open_raises api.inventory_raises api.plain_page_raises api.related_raises api.referencing_raises
          api.clean_rawD(1) clean [OF that] inventory_text [OF assms(3)] assms) simp_all
  moreover have "raises_only answerable (query_operation en wb request)" if "want_dict v m = Inr request" for m request
    by (rule query_operation_raises [OF assms(1) read [OF that]])
  ultimately show ?thesis unfolding dispatch_def
    by (intro raises api.basic) simp_all
qed

subsection \<open>The handler\<close>

lemma answer_raises:
  assumes "engine_raises answerable en" "engine_widths en" "engine_text en" "jread v"
  shows "raises_only answerable (answer en wb v)"
  unfolding answer_def by (intro raises dispatch_raises assms) simp

text \<open>The body is delivered, or reading it stops with an error that is answered.\<close>

definition body_raises :: "http_request \<Rightarrow> bool" where
  "body_raises r = (case hq_end r of None \<Rightarrow> True | Some e \<Rightarrow> answerable e)"

lemma api_body_raises:
  assumes "engine_raises answerable en" "engine_widths en" "engine_text en" "body_raises r"
  shows "raises_only answerable (api_body en wb r)"
proof -
  have "raises_only answerable (read_body r n)" for n
    using assms(4) by (auto simp: read_body_def body_raises_def split: option.splits)
  moreover have "raises_only answerable (body_length r)" unfolding body_length_def by (rule int_text_answerable)
  ultimately show ?thesis unfolding api_body_def
    by (intro raises loads_bytes_answerable answer_raises loads_bytes_read encoded_raises assms) simp_all
qed

text \<open>The text of a refusal reaches the page as a JSON document.\<close>

lemma error_document:
  assumes "text_scalar t"
  shows "\<exists>data. encoded_json (JObj [(u ''error'', JStr t)]) = Inr data \<and> decode data = Inr (JObj [(u ''error'', JStr t)])"
proof -
  let ?v = "JObj [(u ''error'', JStr t)]"
  have v: "jvalid (ds_ascii plain_style) ?v" "jscalar ?v"
    using assms text_scalar_u [of "''error''"] by (simp_all add: plain_style_def text_scalar_def)
  have "encoded_json ?v = Inr (utf8_bytes (dumps plain_style ?v))"
    using dumps_scalar [OF _ v] by (simp add: encoded_json_def finite_text_def utf8_encode_def text_scalar_def del: dumps.simps)
  with decode_dumps [OF _ v] show ?thesis by (simp del: dumps.simps)
qed

text \<open>C39: every request gets an answer, whatever its headers and its body say: the result, an error document that
  the page can read, a refusal of authorization or a missing path; no exception leaves the handler. This
  holds where reading the body and SQLite raise only errors that the handler catches, a SELECT delivers a
  value per named column, and the names of tables, the header with the token and Python's own messages are
  text that UTF-8 can encode.\<close>

theorem workbench_total:
  assumes "engine_raises answerable en" "engine_widths en" "engine_text en" "body_raises r"
    and "text_scalar (wb_token wb)" "\<And>t. header r ''X-Review-Token'' = Some t \<Longrightarrow> text_scalar t" "\<And>e. text_scalar (runtime e)"
  shows "\<exists>resp. do_POST en runtime address wb r = Inr resp \<and>
    (hs_status resp \<in> {200, 403, 404} \<or>
     hs_status resp = 400 \<and> (\<exists>t. decode (hs_body resp) = Inr (JObj [(u ''error'', JStr t)])))"
proof -
  have enc: "utf8_encode t = Inr (utf8_bytes t)" if "text_scalar t" for t using that by (simp add: utf8_encode_def text_scalar_def)
  have "\<exists>ok. authorized address wb r = Inr ok"
    using assms(5,6) enc enc [of "[]"] by (cases "header r ''X-Review-Token''") (auto simp: authorized_def)
  then obtain ok where ok: "authorized address wb r = Inr ok" ..
  show ?thesis
  proof (cases "ok \<and> hq_path r = u ''/api''")
    case False
    with ok show ?thesis by (auto simp: do_POST_def respond_def)
  next
    case True
    show ?thesis
    proof (cases "api_body en wb r")
      case (Inr data)
      with ok True show ?thesis by (simp add: do_POST_def respond_def)
    next
      case (Inl e)
      from api_body_raises [OF assms(1-4), of wb] Inl have e: "answerable e" by simp
      then have "text_scalar (error_text runtime e)" using assms(7) by (auto simp: answerable_def error_text_def split: pyerr.splits)
      from error_document [OF this] obtain data where "encoded_json (JObj [(u ''error'', JStr (error_text runtime e))]) = Inr data"
        "decode data = Inr (JObj [(u ''error'', JStr (error_text runtime e))])" by blast
      with ok True Inl e show ?thesis by (simp add: do_POST_def respond_def answerable_def)
    qed
  qed
qed

theorem workbench_total_witness:
  "\<exists>resp. do_POST null_engine (\<lambda>_. []) (u ''127.0.0.1:8000'') (keyed_workbench ''k'') (page_request ''k'' [0, 255]) = Inr resp \<and>
    (hs_status resp \<in> {200, 403, 404} \<or>
     hs_status resp = 400 \<and> (\<exists>t. decode (hs_body resp) = Inr (JObj [(u ''error'', JStr t)])))"
proof (rule workbench_total)
  show "engine_raises answerable null_engine" by (rule null_engine_raises) (simp add: answerable_def api_error_def)
  show "engine_widths null_engine" by (rule null_engine_widths)
  show "engine_text null_engine"
    by (simp add: engine_text_def null_engine_def keyed_engine_def pair_engine_def sample_engine_def)
  show "body_raises (page_request ''k'' [0, 255])" by (simp add: body_raises_def page_request_def)
  show "text_scalar (wb_token (keyed_workbench ''k''))" by (simp add: keyed_workbench_def)
  show "text_scalar t" if "header (page_request ''k'' [0, 255]) ''X-Review-Token'' = Some t" for t
    using that by (auto simp: page_headers)
qed simp

end
