(* ===== verification/WorkbenchSession.thy ===== *)
theory WorkbenchSession
  imports WorkbenchTotal
begin

section \<open>Opening a review session\<close>

text \<open>
  \<open>main\<close> of the workbench pins the copy and prints a link with the token; the page behind the link asks for
  the session with it, and from then on names the session and the fingerprint it got. The lemmas show
  that this handshake succeeds. The two secrets are what \<open>secrets.token_urlsafe(32)\<close> returns: 43
  characters of the URL alphabet.
\<close>

subsection \<open>The command\<close>

record workbench_args =
  wa_bundle :: "bytes res"
  wa_database :: ustr

definition opening_lines :: "ustr \<Rightarrow> workbench \<Rightarrow> ustr list" where
  "opening_lines address wb =
     [u ''Open http://'' @ address @ u ''/#'' @ wb_token wb,
      u ''Pinned database '' @ wb_digest wb @ u ''; Ctrl-C closes the review session.'']"

definition workbench_main ::
  "engine \<Rightarrow> (bytes \<Rightarrow> zmember list res) \<Rightarrow> ustr \<Rightarrow> ustr \<Rightarrow> nat \<Rightarrow> workbench_args \<Rightarrow> (workbench \<times> ustr list) res" where
  "workbench_main en zip_open session token port args =
     rbind (open_workbench en zip_open (wa_bundle args) (wa_database args) session token) (\<lambda>wb.
       Inr (wb, opening_lines (server_address port) wb))"

subsection \<open>Secrets\<close>

definition url_char :: "nat \<Rightarrow> bool" where
  "url_char c \<longleftrightarrow> is_digit c \<or> 65 \<le> c \<and> c \<le> 90 \<or> 97 \<le> c \<and> c \<le> 122 \<or> c = 45 \<or> c = 95"

definition url_token :: "ustr \<Rightarrow> bool" where
  "url_token s \<longleftrightarrow> length s = 43 \<and> list_all url_char s"

lemma url_plain:
  assumes "list_all url_char s"
  shows "dump_string False s = [34] @ s @ [34]" "text_scalar s" "length (utf8_bytes s) = length s"
proof -
  have "concat (map (escape_char False) s) = s"
    using assms by (induction s) (auto simp: escape_char_def url_char_def is_digit_def)
  then show "dump_string False s = [34] @ s @ [34]" by (simp add: dump_string_def)
  have small: "list_all (\<lambda>c. c < 128) s" using assms by (rule list.pred_mono_strong) (auto simp: url_char_def is_digit_def)
  then show "text_scalar s" by (auto simp: text_scalar_def list_all_iff is_scalar_def)
  show "length (utf8_bytes s) = length s" using small by (induction s) (simp_all add: utf8_bytes_def utf8_char_def)
qed

subsection \<open>The handshake\<close>

definition session_document :: "workbench \<Rightarrow> (ustr \<times> json) list" where
  "session_document wb = [(u ''session'', JStr (wb_session wb)), (u ''database_sha256'', JStr (wb_digest wb))]"

lemma session_text:
  assumes "url_token (wb_session wb)" "wb_digest wb = sha (wb_data wb)"
  shows "\<exists>data. encoded_json (JObj (session_document wb)) = Inr data \<and> length data \<le> 1000 \<and>
    decode data = Inr (JObj (session_document wb))"
proof -
  let ?v = "JObj (session_document wb)"
  have hex: "list_all is_hex_lower (wb_digest wb)" "length (wb_digest wb) = 64"
    using re_hex64_sha [of "wb_data wb"] by (simp_all add: re_hex64_def assms(2))
  have session: "list_all url_char (wb_session wb)" "length (wb_session wb) = 43" using assms(1) by (simp_all add: url_token_def)
  note plain = hex_plain [OF hex(1)] url_plain [OF session(1)]
  have v: "jvalid (ds_ascii plain_style) ?v" "jscalar ?v"
    using plain(2,5) text_scalar_u [of "''session''"] text_scalar_u [of "''database_sha256''"]
    by (simp_all add: session_document_def plain_style_def text_scalar_def)
  have written: "dumps plain_style ?v = [123] @ dump_string False (u ''session'') @ [58, 32, 34] @ wb_session wb @ [34, 44, 32] @
      dump_string False (u ''database_sha256'') @ [58, 32, 34] @ wb_digest wb @ [34, 125]"
    using plain(1) [of False] plain(4) by (simp add: session_document_def plain_style_def)
  have "length (utf8_bytes (dumps plain_style ?v)) \<le> 1000" unfolding written
    by (simp only: utf8_bytes_append length_append plain(3,6) hex(2) session(2))
       (simp add: u_def dump_string_def escape_char_def utf8_bytes_def utf8_char_def)
  moreover have "encoded_json ?v = Inr (utf8_bytes (dumps plain_style ?v))"
    using dumps_scalar [OF _ v] by (simp add: encoded_json_def finite_text_def utf8_encode_def text_scalar_def session_document_def del: dumps.simps)
  ultimately show ?thesis using decode_dumps [OF _ v] by (simp del: dumps.simps)
qed

text \<open>A request of the page: the exact loopback headers, the token, and a complete JSON body.\<close>

definition page_asks :: "ustr \<Rightarrow> ustr \<Rightarrow> json \<Rightarrow> http_request \<Rightarrow> bool" where
  "page_asks address token request r \<longleftrightarrow>
     header r ''Host'' = Some address \<and> header r ''Origin'' = Some (u ''http://'' @ address) \<and>
     header r ''X-Review-Token'' = Some token \<and> header r ''Content-Type'' = Some (u ''application/json'') \<and>
     absent (header r ''Transfer-Encoding'') \<and> hq_path r = u ''/api'' \<and>
     body_length r = Inr (int (length (hq_body r))) \<and> 0 < length (hq_body r) \<and> length (hq_body r) \<le> 196608 \<and>
     loads_bytes (hq_body r) = Inr request"

lemma page_answered:
  assumes "page_asks address (wb_token wb) request r" "text_scalar (wb_token wb)"
    and "answer en wb request = Inr response" "encoded_json (JObj response) = Inr data" "length data \<le> 16777216"
  shows "do_POST en runtime address wb r = Inr (respond 200 data json_type)"
proof -
  note asks = assms(1) [unfolded page_asks_def]
  have "utf8_encode (wb_token wb) = Inr (utf8_bytes (wb_token wb))" using assms(2) by (simp add: utf8_encode_def text_scalar_def)
  then have ok: "authorized address wb r = Inr True" using asks by (simp add: authorized_True)
  have "api_body en wb r = Inr data"
    using asks assms(3-5) by (simp add: api_body_def read_body_def MAX_SELECTION_def MAX_OUTPUT_def)
  with ok asks show ?thesis by (simp add: do_POST_def)
qed

definition objects_request :: "(ustr \<times> json) list \<Rightarrow> json" where
  "objects_request session = JObj (session @ [(u ''operation'', JStr (u ''schema''))])"

text \<open>C40: the handshake of a review session succeeds: the link that the command prints carries the token of the
  workbench it opened; a page that asks for the session with that token gets a document with the
  session and the fingerprint of the pinned file, and a request that repeats this document is
  current: asking for the schema with it is answered with the objects of the pinned database.\<close>

theorem session_opens:
  assumes "workbench_main en zip_open session token port args = Inr (wb, printed)" "url_token session" "url_token token"
    and "page_asks (server_address port) token bootstrap_request r"
  shows "hd printed = u ''Open http://'' @ server_address port @ u ''/#'' @ token \<and>
    (\<exists>resp document. do_POST en runtime (server_address port) wb r = Inr resp \<and> hs_status resp = 200 \<and>
       decode (hs_body resp) = Inr (JObj document) \<and>
       jget document ''session'' = JStr session \<and> jget document ''database_sha256'' = JStr (sha (wb_data wb)) \<and>
       (\<exists>shown cn tables. dispatch en wb (objects_request document) = Inr shown \<and>
          database en (wb_data wb) = Inr cn \<and> inventory en cn = Inr tables \<and>
          jget shown ''objects'' = JArr (map object_json tables)))"
proof -
  from assms(1) have printed: "printed = opening_lines (server_address port) wb"
    and opened: "open_workbench en zip_open (wa_bundle args) (wa_database args) session token = Inr wb"
    by (auto simp: workbench_main_def rbind_eq_Inr)
  from open_workbench_Inr [OF opened] obtain cn where wb: "wb_session wb = session" "wb_token wb = token" "wb_digest wb = sha (wb_data wb)"
    and cn: "database en (wb_data wb) = Inr cn" "inventory en cn = Inr (wb_tables wb)" by blast
  from session_text [of wb] assms(2) wb obtain data where data: "encoded_json (JObj (session_document wb)) = Inr data" "length data \<le> 1000"
      "decode data = Inr (JObj (session_document wb))" by auto
  have "text_scalar token" using assms(3) url_plain(2) by (simp add: url_token_def)
  moreover have "answer en wb bootstrap_request = Inr (session_document wb)" by (simp add: answer_def session_document_def)
  ultimately have post: "do_POST en runtime (server_address port) wb r = Inr (respond 200 data json_type)"
    using page_answered [of "server_address port" wb bootstrap_request r] assms(4) data(1,2) by (simp add: wb(2))
  have "\<exists>shown. dispatch en wb (objects_request (session_document wb)) = Inr shown \<and> jget shown ''objects'' = JArr (map object_json (wb_tables wb))"
    by (simp add: dispatch_def objects_request_def session_document_def want_dict_def jbody_def jget_def jkeys_def text_of_def
        operations_def operation_fields_def dget_dmerge)
  moreover have "jget (session_document wb) ''session'' = JStr session" "jget (session_document wb) ''database_sha256'' = JStr (sha (wb_data wb))"
    by (simp_all add: session_document_def jget_def wb)
  moreover have "hd printed = u ''Open http://'' @ server_address port @ u ''/#'' @ token" by (simp add: printed opening_lines_def wb)
  moreover have "hs_status (respond 200 data json_type) = 200" "hs_body (respond 200 data json_type) = data" by (simp_all add: respond_def)
  ultimately show ?thesis using post data(3) cn by metis
qed

definition sample_secret :: string where
  "sample_secret = replicate 43 CHR ''a''"

theorem session_opens_witness:
  "\<exists>wb printed resp. workbench_main keyed_engine (\<lambda>_. Inr (make_bundle keyed_files)) (u sample_secret) (u sample_secret) 8000
       \<lparr>wa_bundle = Inr [], wa_database = u ''results/a''\<rparr> = Inr (wb, printed) \<and>
     do_POST keyed_engine (\<lambda>_. []) (server_address 8000) wb (page_request sample_secret bootstrap_body) = Inr resp \<and> hs_status resp = 200"
proof -
  let ?zip = "\<lambda>_. Inr (make_bundle keyed_files)" and ?args = "\<lparr>wa_bundle = Inr [], wa_database = u ''results/a''\<rparr>"
  obtain source where stored: "read_bundle ?zip (Inr []) (u ''results/a'') (u ''SQLite database'') = Inr (keyed_file, source)"
    by (rule keyed_stored)
  obtain cn where cn: "database keyed_engine keyed_file = Inr cn" using keyed_database by blast
  note inv = keyed_inventory [of cn]
  obtain wb printed where run: "workbench_main keyed_engine ?zip (u sample_secret) (u sample_secret) 8000 ?args = Inr (wb, printed)"
    by (simp add: workbench_main_def open_workbench_def stored cn inv)
  have secret: "url_token (u sample_secret)" by (simp add: url_token_def sample_secret_def u_def list_all_iff) (simp add: url_char_def)
  have address: "server_address 8000 = u ''127.0.0.1:8000''"
  proof -
    have "str_nat 8000 = [56, 48, 48, 48]"
      by (simp add: str_nat.simps [of 8000] str_nat.simps [of 800] str_nat.simps [of 80] str_nat.simps [of 8])
    then have "str_int (int 8000) = u ''8000''" by (simp add: str_int_def u_def)
    then show ?thesis by (simp add: server_address_def) (simp add: u_def)
  qed
  have n: "body_length (page_request sample_secret bootstrap_body) = Inr 25"
    by (simp add: body_length_def page_headers)
       (simp add: int_text_def strip_def is_space_def u_def is_digit_def digits_value_def)
  have "hq_body (page_request sample_secret bootstrap_body) = bootstrap_body" "hq_path (page_request sample_secret bootstrap_body) = u ''/api''"
    by (simp_all add: page_request_def)
  then have "page_asks (server_address 8000) (u sample_secret) bootstrap_request (page_request sample_secret bootstrap_body)"
    unfolding page_asks_def address by (simp add: page_headers absent_def n bootstrap_body)
  from session_opens [OF run secret secret this] run show ?thesis by blast
qed

end
