(* ===== verification/WorkbenchAgrees.thy ===== *)
theory WorkbenchAgrees
  imports Workbench
begin

section \<open>The workbench answers what the command answers\<close>

text \<open>
  Every operation of the workbench has a sub-command that asks for the same: \<open>request_command\<close> gives
  it. The theorem says that what the workbench shows of the copy is what that sub-command writes about
  it, for the schema, for pages of rows, for the two explorations and for a custom query, whose answer
  passes through the text of the command and the JSON reader.
\<close>

subsection \<open>The command of a request\<close>

definition query_command :: "workbench \<Rightarrow> (ustr \<times> json) list \<Rightarrow> sqlite_command res" where
  "query_command wb request =
     rbind (or_raise (ValueError (u ''SQL must be text'')) (text_of (jget request ''sql''))) (\<lambda>sql.
     rbind (utf8_encode sql) (\<lambda>sql_bytes.
     rbind (encoded_json (JObj [(u ''database_sha256'', JStr (wb_digest wb)),
         (u ''parameters'', jget_or request ''parameters'' (JArr []))])) (\<lambda>parameter_bytes.
       Inr (Query \<lparr>qa_sql = FromFile (Inr sql_bytes), qa_parameters = FromFile (Inr parameter_bytes),
         qa_max_rows = jget_or request ''max_rows'' (JInt 1000), qa_csv = False\<rparr>))))"

definition request_command :: "workbench \<Rightarrow> (ustr \<times> json) list \<Rightarrow> ustr \<Rightarrow> sqlite_command res" where
  "request_command wb request op =
     (if op = u ''schema'' then Inr Schema
      else if op = u ''query'' then query_command wb request
      else rbind (selection_bytes request) (\<lambda>raw.
        if op = u ''crosstab'' then Inr (Crosstab_of (Inr raw))
        else if op = u ''histogram'' then Inr (Histogram_of (Inr raw))
        else rbind (page_bounds request) (\<lambda>(offset, limit). Inr (page_command op raw offset limit))))"

text \<open>The members that both documents have, with one meaning.\<close>

definition query_members :: "string list" where
  "query_members = [''schema'', ''source'', ''operation'', ''sqlite_version'', ''database_sha256'', ''sql_sha256'', ''sql_size_bytes'',
     ''sql'', ''parameters_sha256'', ''parameters_size_bytes'', ''parameters'', ''columns'', ''row_count'', ''max_rows'', ''complete'',
     ''ordering'', ''meaning'', ''rows'']"

definition agreed_members :: "ustr \<Rightarrow> string list" where
  "agreed_members op =
     (if op = u ''schema'' then [''source'', ''objects'']
      else if op = u ''query'' then query_members
      else if op = u ''crosstab'' then
        [''source'', ''selection'', ''row_keys'', ''column_keys'', ''counts'', ''row_totals'', ''column_totals'', ''selected_row_count'',
         ''columns'', ''locator'', ''cells'', ''complete_selection_scanned'']
      else if op = u ''histogram'' then
        [''source'', ''selection'', ''columns'', ''locator'', ''selected_row_count'', ''bands'', ''excluded'', ''complete_selection_scanned'']
      else ''rows'' # shared_members)"

definition agree :: "string list \<Rightarrow> (ustr \<times> json) list \<Rightarrow> (ustr \<times> json) list \<Rightarrow> bool" where
  "agree ks d e \<longleftrightarrow> list_all (\<lambda>k. jget d k = jget e k) ks"

subsection \<open>What a custom query writes can be read\<close>

lemma query_cells_read:
  assumes "map_res (map_res cell) valss = Inr rows"
  shows "list_all (list_all jread) rows"
proof -
  have "list_all jread row" if row: "row \<in> set rows" for row
  proof -
    obtain vals where vals: "map_res cell vals = Inr row" using map_res_member [OF assms row] by blast
    show ?thesis unfolding list_all_iff using map_res_member [OF vals] by (metis cell_jvalid valid_parts)
  qed
  then show ?thesis by (simp add: list_all_iff)
qed

lemma load_input_Inr: "load_input i m = Inr raw \<Longrightarrow> length raw \<le> 65536"
  by (auto simp: load_input_def res_simps MAX_SELECTION_def)

lemma query_document:
  assumes "query_output en args data source = Inr (context, written)" "\<not> qa_csv args" "jread (JObj source)"
  obtains document where "written = pretty (JObj document)" "jvalid False (JObj document)"
proof -
  from assms(1,2) obtain sql_raw sql raw items params m cn columns result where
    len: "load_input (qa_sql args) (u ''SQL exceeds 64 KiB'') = Inr sql_raw" "load_input (qa_parameters args) (u ''parameters exceed 64 KiB'') = Inr raw"
    and req: "query_request raw (sha data) = Inr (items, params)" and m: "row_bound (qa_max_rows args) = Inr m"
    and rows: "query_rows en cn sql params m = Inr (columns, result)"
    and out: "finite_text (JObj (dmerge [(u ''schema'', JStr (u ''moonfort.sqlite-query.v1'')), (u ''source'', JObj source), (u ''operation'', JStr (u ''query'')),
        (u ''sqlite_version'', JStr (en_version en)), (u ''database_sha256'', JStr (sha data)),
        (u ''sql_sha256'', JStr (sha sql_raw)), (u ''sql_size_bytes'', JInt (int (length sql_raw))), (u ''sql'', JStr sql),
        (u ''parameters_sha256'', JStr (sha raw)), (u ''parameters_size_bytes'', JInt (int (length raw))),
        (u ''parameters'', JArr items), (u ''columns'', JArr (map JStr columns)), (u ''row_count'', JInt (int (length result))),
        (u ''max_rows'', JInt (int m)), (u ''complete'', JBool True), (u ''ordering'', JStr query_ordering),
        (u ''meaning'', JStr query_meaning)] [(u ''rows'', JArr (map JArr result))])) pretty = Inr written" (is "finite_text (JObj ?d) _ = _")
    unfolding query_output_def rbind_eq_Inr split_paired_Ex prod.case Let_def by auto
  have m: "m \<le> 10000" using m by (auto simp: row_bound_def res_simps split: json.splits)
  from rows obtain valss where "map_res (map_res cell) valss = Inr result" "length result \<le> m" by (rule query_rows_Inr) blast
  then have result: "list_all (list_all jread) result" "length result \<le> 10000" using m query_cells_read by auto
  from req obtain d where "decode raw = Inr (JObj d)" "jget d ''parameters'' = JArr items"
    by (auto simp: query_request_def res_simps)
  with read_get [OF decode_read [OF this(1)], of "''parameters''"] have items: "list_all jread items" by simp
  have "jread (JObj ?d)"
    using result m items assms(3) len [THEN load_input_Inr]
    by (simp add: dmerge_def small_printable list_all_iff)
  moreover have "written = pretty (JObj ?d)" "jfinite (JObj ?d)" using out by (auto simp: finite_text_def res_simps simp del: jfinite.simps)
  ultimately show thesis using that jvalid_read by blast
qed

subsection \<open>The operations one by one\<close>

lemma agree_dmerge: "u ` set ks \<subseteq> fst ` set e \<Longrightarrow> agree ks (dmerge d e) (dmerge d' e)"
  unfolding agree_def list_all_iff jget_def by (metis dget_dmerge_same image_eqI subsetD)

lemma agree_Cons [simp]: "agree [] d e" "agree (k # ks) d e \<longleftrightarrow> jget d k = jget e k \<and> agree ks d e"
  by (simp_all add: agree_def)

text \<open>A file holds the bytes the workbench passes on.\<close>

lemma load_supplied: "load_input (Supplied b) m = Inr raw \<Longrightarrow> load_input (FromFile (Inr b)) m = Inr raw"
  by (auto simp: load_input_def read_file_def res_simps)

lemma query_from_files:
  assumes "query_output en \<lparr>qa_sql = Supplied a, qa_parameters = Supplied b, qa_max_rows = m, qa_csv = c\<rparr> data source = Inr r"
  shows "query_output en \<lparr>qa_sql = FromFile (Inr a), qa_parameters = FromFile (Inr b), qa_max_rows = m, qa_csv = c\<rparr> data source = Inr r"
proof -
  from assms have a: "load_input (Supplied a) (u ''SQL exceeds 64 KiB'') = Inr a"
    by (auto simp: query_output_def rbind_eq_Inr load_input_def res_simps)
  from assms have b: "load_input (Supplied b) (u ''parameters exceed 64 KiB'') = Inr b"
    by (auto simp: query_output_def rbind_eq_Inr load_input_def res_simps)
  show ?thesis using assms by (simp add: query_output_def a b load_supplied [OF a] load_supplied [OF b])
qed

lemma query_agrees:
  assumes "query_operation en wb request = Inr response" "jread (JObj (wb_source wb))"
  shows "\<exists>q ctx document. query_command wb request = Inr (Query q) \<and>
    query_output en q (wb_data wb) (wb_source wb) = Inr (ctx, pretty (JObj document)) \<and> agree query_members response document"
proof -
  from assms(1) obtain sql sql_bytes parameter_bytes ctx written v d where
    sql: "or_raise (ValueError (u ''SQL must be text'')) (text_of (jget request ''sql'')) = Inr sql" "utf8_encode sql = Inr sql_bytes"
    and parameters: "encoded_json (JObj [(u ''database_sha256'', JStr (wb_digest wb)),
         (u ''parameters'', jget_or request ''parameters'' (JArr []))]) = Inr parameter_bytes"
    and run: "query_output en \<lparr>qa_sql = Supplied sql_bytes, qa_parameters = Supplied parameter_bytes,
         qa_max_rows = jget_or request ''max_rows'' (JInt 1000), qa_csv = False\<rparr> (wb_data wb) (wb_source wb) = Inr (ctx, written)"
    and read: "loads False written = Inr v" "or_raise TypeError (jbody v) = Inr d"
    and response: "response = dput (u ''session'') (JStr (wb_session wb)) d"
    unfolding query_operation_def rbind_eq_Inr split_paired_Ex prod.case sum.inject by blast
  obtain document where document: "written = pretty (JObj document)" "jvalid False (JObj document)"
    using query_document [OF run _ assms(2)] by auto
  have "d = document" using read pretty_text.roundtrip [OF document(2)] by (auto simp: document(1) jbody_def)
  then have "agree query_members response document"
    by (simp add: response query_members_def jget_def dget_dput)
  with query_from_files [OF run] sql parameters document(1) show ?thesis by (auto simp: query_command_def)
qed

lemma explore_agrees:
  assumes "explore_operation en wb op request = Inr response" "op = u ''crosstab'' \<or> op = u ''histogram''"
    "wb_digest wb = sha (wb_data wb)"
  shows "\<exists>c ctx document. request_command wb request op = Inr c \<and> page_ok c \<and>
    review_output en runtime zip_open \<lparr>sq_bundle = archive, sq_database = artifact, sq_command = c\<rparr> (wb_data wb) (wb_source wb) =
      Inr (ctx, pretty (JObj document)) \<and> agree (agreed_members op) response document"
proof -
  from assms(1) obtain raw cn members where raw: "selection_bytes request = Inr raw" and cn: "database en (wb_data wb) = Inr cn"
    and members: "(if op = u ''crosstab'' then rbind (crosstab en cn raw (wb_digest wb)) (\<lambda>t. Inr (crosstab_members t))
            else rbind (distribution en cn raw (wb_digest wb)) (\<lambda>t. Inr (hist_members t))) = Inr members"
    and response: "response = dmerge (workbench_context wb op) members"
    unfolding explore_operation_def rbind_eq_Inr by blast
  have "length raw \<le> MAX_SELECTION" using raw by (auto simp: selection_bytes_def res_simps)
  then have whole: "read_file (Inr raw) MAX_SELECTION = Inr raw" by (simp add: read_file_def)
  define c where "c = (if op = u ''crosstab'' then Crosstab_of (Inr raw) else Histogram_of (Inr raw))"
  have c: "request_command wb request op = Inr c" "page_ok c"
    using assms(2) by (auto simp: request_command_def c_def raw page_ok_def page_args_def)
  have "\<exists>ctx. review_output en runtime zip_open \<lparr>sq_bundle = archive, sq_database = artifact, sq_command = c\<rparr> (wb_data wb) (wb_source wb) =
      Inr (ctx, pretty (JObj (dmerge ctx members))) \<and> jget (dmerge ctx members) ''source'' = JObj (wb_source wb) \<and>
    u ` set (tl (agreed_members op)) \<subseteq> fst ` set members \<and> u ''source'' \<notin> fst ` set members \<and> hd (agreed_members op) = ''source'' \<and>
    agreed_members op \<noteq> []"
  proof (cases "op = u ''crosstab''")
    case True
    with members obtain t where t: "crosstab en cn raw (sha (wb_data wb)) = Inr t" "members = crosstab_members t"
      by (auto simp: assms(3) rbind_eq_Inr)
    show ?thesis by (simp add: True c_def review_output_def crosstab_output_def whole cn t Let_def agreed_members_def)
       (simp add: crosstab_members_def jget_def dget_dmerge)
  next
    case False
    with members obtain t where t: "distribution en cn raw (sha (wb_data wb)) = Inr t" "members = hist_members t"
      by (auto simp: assms(3) rbind_eq_Inr)
    show ?thesis using assms(2) False
      by (simp add: c_def review_output_def histogram_output_def whole cn t Let_def agreed_members_def)
         (simp add: hist_members_def jget_def dget_dmerge)
  qed
  then obtain ctx where run: "review_output en runtime zip_open \<lparr>sq_bundle = archive, sq_database = artifact, sq_command = c\<rparr> (wb_data wb) (wb_source wb) =
      Inr (ctx, pretty (JObj (dmerge ctx members)))" and source: "jget (dmerge ctx members) ''source'' = JObj (wb_source wb)"
    and ks: "u ` set (tl (agreed_members op)) \<subseteq> fst ` set members" "u ''source'' \<notin> fst ` set members"
      "hd (agreed_members op) = ''source''" "agreed_members op \<noteq> []" by blast
  have "map_of (rev members) (u ''source'') = None" using ks(2) by (simp add: map_of_eq_None_iff)
  then have "jget response ''source'' = JObj (wb_source wb)" by (simp add: response jget_def dget_dmerge workbench_context_def)
  then have "agree (''source'' # tl (agreed_members op)) response (dmerge ctx members)"
    using agree_dmerge [OF ks(1)] source by (simp add: response)
  with ks(3,4) have "agree (agreed_members op) response (dmerge ctx members)" by (cases "agreed_members op") auto
  with c run show ?thesis by blast
qed

text \<open>A page, from the theorem about one page of rows.\<close>

lemma page_agrees:
  assumes "page_operation en wb op request = Inr response" "op \<in> {u ''rows'', u ''related'', u ''referencing''}"
    "wb_digest wb = sha (wb_data wb)"
  shows "\<exists>c ctx document. request_command wb request op = Inr c \<and> page_ok c \<and>
    review_output en runtime zip_open \<lparr>sq_bundle = archive, sq_database = artifact, sq_command = c\<rparr> (wb_data wb) (wb_source wb) =
      Inr (ctx, pretty (JObj document)) \<and> agree (agreed_members op) response document"
proof -
  from workbench_page_agrees [OF assms(1,3)] obtain raw offset limit ctx rows where
    raw: "selection_bytes request = Inr raw" "page_bounds request = Inr (offset, limit)" and ok: "page_ok (page_command op raw offset limit)"
    and run: "explore_output en (page_command op raw offset limit) (wb_data wb) (wb_source wb) =
      Inr (ctx, pretty (JObj (dmerge ctx [(u ''rows'', rows)])))"
    and rows: "jget response ''rows'' = rows" and shared: "list_all (\<lambda>k. jget response k = jget ctx k) shared_members" by blast
  have "request_command wb request op = Inr (page_command op raw offset limit)"
    using assms(2) raw by (auto simp: request_command_def)
  moreover have "review_output en runtime zip_open \<lparr>sq_bundle = archive, sq_database = artifact, sq_command = page_command op raw offset limit\<rparr>
      (wb_data wb) (wb_source wb) = Inr (ctx, pretty (JObj (dmerge ctx [(u ''rows'', rows)])))"
    using run by (cases "op = u ''rows''"; cases "op = u ''related''") (simp_all add: review_output_def page_command_def Let_def)
  moreover have "agree (agreed_members op) response (dmerge ctx [(u ''rows'', rows)])"
  proof -
    have "agreed_members op = ''rows'' # shared_members" using assms(2) by (elim insertE emptyE) (simp_all add: agreed_members_def)
    moreover have "jget (dmerge ctx [(u ''rows'', rows)]) ''rows'' = rows" by (simp add: jget_def dget_dmerge)
    moreover have "agree shared_members response (dmerge ctx [(u ''rows'', rows)])"
      using shared by (simp add: shared_members_def jget_def dget_dmerge)
    ultimately show ?thesis using rows by simp
  qed
  ultimately show ?thesis using ok by blast
qed

lemma schema_agrees:
  assumes "database en (wb_data wb) = Inr cn" "inventory en cn = Inr (wb_tables wb)"
    and "response = dmerge (workbench_context wb (u ''schema'')) [(u ''objects'', JArr (map object_json (wb_tables wb)))]"
  shows "\<exists>ctx document. review_output en runtime zip_open \<lparr>sq_bundle = archive, sq_database = artifact, sq_command = Schema\<rparr>
      (wb_data wb) (wb_source wb) = Inr (ctx, pretty (JObj document)) \<and> agree (agreed_members (u ''schema'')) response document"
proof -
  have "\<exists>ctx document. explore_output en Schema (wb_data wb) (wb_source wb) = Inr (ctx, pretty (JObj document)) \<and>
      document = dmerge ctx [(u ''objects'', JArr (map object_json (wb_tables wb)))] \<and> jget ctx ''source'' = JObj (wb_source wb)"
    using assms(1,2) by (simp add: explore_output_def schema_output_def Let_def review_context_def jget_def dget_dput expected_fingerprint_def)
  then obtain ctx document where run: "explore_output en Schema (wb_data wb) (wb_source wb) = Inr (ctx, pretty (JObj document))"
    and document: "document = dmerge ctx [(u ''objects'', JArr (map object_json (wb_tables wb)))]" "jget ctx ''source'' = JObj (wb_source wb)" by blast
  have "agree (agreed_members (u ''schema'')) response document"
    using document(2) by (simp add: agreed_members_def assms(3) document(1) jget_def dget_dmerge workbench_context_def)
  with run show ?thesis by (auto simp: review_output_def)
qed



end
