(* ===== verification/Spec2Isabelle.thy ===== *)
theory Spec2Isabelle
  imports LcovLanguage CoverageRefusals JunitReport ReviewTotal WorkbenchSession WorkbenchAgrees
begin

text \<open>
  A verification of the retained-review tools of MoonFort (\<open>tools/*.py\<close>).

  \<^bold>\<open>The program.\<close> An executor elsewhere in the repository retains the outputs of a run in a review
  bundle, a ZIP file with a manifest of sizes and SHA-256 fingerprints. The tools verified here read such
  a bundle and show one artifact of it, without executing anything: \<open>coverage_review.py\<close> compares two LCOV
  reports, \<open>junit_review.py\<close> two JUnit reports, \<open>sqlite_review.py\<close> explores a retained SQLite database (schema,
  rows, foreign keys in both directions, one custom query) and dispatches to \<open>sqlite_summary.py\<close>,
  \<open>sqlite_crosstab.py\<close>, \<open>sqlite_histogram.py\<close>, \<open>sqlite_compare.py\<close> and \<open>sqlite_schema_compare.py\<close>;
  \<open>sqlite_workbench.py\<close> serves the same operations to a browser page on the loopback interface. They share
  \<open>bundle\<close>, \<open>decode\<close>, \<open>require\<close> and \<open>sha\<close> of \<open>coverage_review.py\<close>.

  \<^bold>\<open>Foundations.\<close> \<open>Prelude\<close>: text is a list of code points, bytes are \<open>8 word\<close>, every raise is a value of
  \<open>pyerr + 'a\<close> (\<open>rbind\<close>, \<open>guard\<close> for \<open>require\<close>, \<open>fold_res\<close> for a loop, \<open>raises_only\<close> for what a computation may
  raise), dictionaries are association lists in insertion order, and the interfaces that several
  components share are locales: \<open>collector\<close> (a loop that files every item under one key), \<open>codec\<close> (an encoder
  with a decoder that reads it back), \<open>sided_diff\<close> (two keyed sides compared), \<open>pager\<close> (in \<open>Paging\<close>: pages that
  slice a fixed content). \<open>PyText\<close>, \<open>Utf8\<close>, \<open>PyFloat\<close>, \<open>Json\<close>, \<open>JsonReread\<close>, \<open>JsonBytes\<close>, \<open>CsvText\<close> and \<open>Sha256\<close> model what the tools use
  of the language: string methods and regular expressions, UTF-8, IEEE doubles with their shortest
  decimal text, the JSON reader and writer in its three layouts (each read back by one set of lemmas), what a value that was read keeps when it is
  written again, \<open>json.loads\<close> of bytes, the CSV writer (with a reader to state
  that it loses nothing), SHA-256 over 32-bit words; \<open>TextSizes\<close> bounds the length of written documents.

  \<^bold>\<open>The bundle.\<close> \<open>ReviewBundle\<close> is \<open>bundle\<close> of \<open>coverage_review.py\<close>: \<open>read_bundle\<close> calls \<open>bundle_members\<close>,
  \<open>bundle_manifest\<close> and, per artifact, \<open>bundle_entry\<close>, whose state carries the paths seen and the selected bytes.
  \<open>review_bundle\<close> says what a bundle is without the reader, and \<open>bundle_exact\<close> that these are exactly the
  accepted ones. \<open>BundleWriter\<close> has the writers of the test scripts (the locale \<open>manifest_writer\<close>): what they write
  comes back byte for byte. Artifact paths cannot leave their directory.
  \<open>Commands\<close> has the outcome of a command and its \<open>except\<close> clause, \<open>Documents\<close> what a reader finds in a JSON document
  that was put together from a context and further members.

  \<^bold>\<open>Reports.\<close> \<open>Lcov\<close> is the reader \<open>lcov\<close> (a step per line over \<open>lcov_state\<close>), \<open>aggregate\<close>, \<open>compare\<close>, the CSV and
  \<open>main\<close>; \<open>Junit\<close> the three event handlers over \<open>junit_state\<close>, \<open>compare_cases\<close>, the CSV and \<open>main\<close>. The lemmas
  relate both readers to direct readings of the text or of the events, bound their counters, classify
  every coordinate or test once, and show that no exception escapes the commands. The line reader is also a step
  relation (\<open>lcov_step\<close>), and \<open>LcovLanguage\<close> gives the grammar of exactly the reports it accepts and what it
  returns for them. \<open>CoverageReport\<close> and \<open>JunitReport\<close>
  compose the parts: reading the output of a command back gives exactly the comparison of the two
  selected reports, in both formats. \<open>CoverageDelivers\<close> bounds the documents: small
  reports are never refused. \<open>CoverageScenarios\<close> and \<open>CoverageRefusals\<close> are the repository's own tests of the
  coverage command (\<open>scripts/test-coverage-review.py\<close>): fixtures, reports and assertions as definitions, and one
  theorem per test method, for every archive reader that gives back what the fixture wrote.

  \<^bold>\<open>SQLite.\<close> \<open>SqlCells\<close>: typed values and identifiers (\<open>cell\<close>, \<open>parameter\<close>, \<open>quoted\<close>). \<open>SqlReader\<close>: the connection,
  the two authorizers, \<open>foreign_keys\<close> and \<open>inventory\<close>. \<open>Selection\<close>: \<open>selection_recipe\<close>, the statement it compiles to
  and \<open>selected_rows\<close>. \<open>Relations\<close>: \<open>relation_rows\<close> and \<open>referencing_rows\<close>. \<open>Summary\<close>: the complete scan, \<open>Measure\<close>,
  groups and their member pages. \<open>Crosstab\<close>, \<open>Histogram\<close>, \<open>Compare\<close>, \<open>SchemaCompare\<close>: the other complete-scan
  commands. \<open>Review\<close>: the custom query and \<open>main\<close> with every sub-command. \<open>Workbench\<close>: the pinned copy, \<open>dispatch\<close>
  and the two HTTP handlers as functions of a request. The lemmas show that no text of a request leaves
  its quotes in a statement, that the authorizer allows exactly the direct reads it documents, that
  following \<open>next_offset\<close> delivers every row once, that groups, matrices, bands and comparisons account for
  every scanned row exactly once under its exact typed value, that measures are exact, that offered
  navigation is accepted as it is, that the workbench answers only its own page, that on every operation it
  answers what the command writes (\<open>WorkbenchAgrees\<close>), and that the link it prints opens a session
  (\<open>WorkbenchSession\<close>).

  \<^bold>\<open>Errors.\<close> \<open>Refusals\<close> states once what the operations on a retained copy raise, inside a locale whose
  parameter is the set of errors an \<open>except\<close> clause catches; it is interpreted on the clause of the command
  (\<open>ReviewTotal\<close>: every sub-command writes or refuses) and on that of the HTTP handler (\<open>WorkbenchTotal\<close>: every
  request is answered, and an error text can always be encoded).

  \<^bold>\<open>Parameters.\<close> Code that is not under \<open>src/\<close> is an argument: the reader of the ZIP directory (\<open>zip_open\<close>, the
  members with what reading each delivers), the XML parser (\<open>expat\<close>, the events it delivers), SQLite (the
  record \<open>engine\<close>: opening, the three PRAGMA cursors, \<open>en_execute\<close>, which is handed the configured connection
  with its authorizer), the texts of exceptions raised by Python itself (\<open>runtime\<close>), the random secrets of
  the workbench, and files as the outcome of reading them. Results of argparse are records or datatypes.
  Hypotheses about them (\<open>archive_raises\<close>, \<open>engine_raises\<close>, \<open>engine_widths\<close>, \<open>engine_text\<close>,
  \<open>xml_parser_ok\<close>, \<open>xml_lines\<close>, \<open>pages_ok\<close>) state what their
  documentation says; each property that has one has a witness with a concrete function.

  \<^bold>\<open>Bounds and fuel.\<close> The bounds of the code are constants at their values (20 MiB bundles, 1 MiB artifacts, 16 MiB
  outputs and scans, 64 KiB selections, 10000 rows, 1000 rows a page). The JSON reader is the only
  function with fuel; it starts with twice the length of the text and \<open>loads_fuel\<close> shows that this is
  enough. All other loops are folds or recursions with a measure.

  \<^bold>\<open>Not modelled.\<close> Sockets, timeouts and header parsing of \<open>http.server\<close> and its loop; argparse and its messages;
  printing of refusals; the recursion limit of the interpreter; SQLite's own evaluation of statements. The
  services and command lines in MoonBit and C, the browser page in JavaScript, the shell scripts and the
  assertions of the test scripts are outside this development: they are in other languages, or drive
  the tools on concrete inputs.
\<close>

end
